(* ===== verification/Wavex_Prelude.thy ===== *)
theory Wavex_Prelude
  imports Main "HOL-Library.Word"
begin

unbundle bit_operations_syntax

text \<open>
  Shared vocabulary of the development.  Octets and the fixed-width unsigned
  integers of the C++ code are words; a wire buffer (\<^verbatim>\<open>std::string\<close> or
  \<^verbatim>\<open>std::string_view\<close> holding binary data) is a list of octets; a text
  string is a HOL \<^typ>\<open>string\<close>, whose characters are octets too.  The theory
  collects the lemmas on big-endian octets, slices and cursors that every codec
  uses, and the interface of a cursor-based codec as a locale.
\<close>

section \<open>Types\<close>

type_synonym u8 = "8 word"
type_synonym u16 = "16 word"
type_synonym u32 = "32 word"
type_synonym u64 = "64 word"
type_synonym bytes = "u8 list"

text \<open>The value of a character as an \<^verbatim>\<open>unsigned char\<close>.\<close>

abbreviation code :: "char \<Rightarrow> nat" where
  "code c \<equiv> of_char c"

named_theorems octet_simps \<open>rewriting of octets and big-endian accumulation\<close>
named_theorems codec_defs \<open>definitions of the encoders\<close>

section \<open>Octets\<close>

text \<open>\<^verbatim>\<open>static_cast<char>((w >> k) & 0xff)\<close>.\<close>

definition octet :: "'a::len word \<Rightarrow> nat \<Rightarrow> u8" where
  "octet w k = ucast (drop_bit k w AND 0xff)"

text \<open>\<^verbatim>\<open>(acc << 8) | byte\<close>, folded over the octets in wire order.\<close>

definition be_acc :: "'a::len word \<Rightarrow> bytes \<Rightarrow> 'a word" where
  "be_acc v bs = foldl (\<lambda>a b. push_bit 8 a OR ucast b) v bs"

text \<open>The number that a big-endian octet string denotes.\<close>

definition be_nat :: "bytes \<Rightarrow> nat" where
  "be_nat bs = foldl (\<lambda>a b. a * 256 + unat b) 0 bs"

lemma be_acc_Nil [simp]: "be_acc v [] = v"
  by (simp add: be_acc_def)

lemma be_acc_Cons: "be_acc v (b # bs) = be_acc (push_bit 8 v OR ucast b) bs"
  by (simp add: be_acc_def)

lemma be_acc_snoc: "be_acc v (bs @ [b]) = push_bit 8 (be_acc v bs) OR ucast b"
  by (simp add: be_acc_def)

lemma be_nat_Nil [simp]: "be_nat [] = 0"
  by (simp add: be_nat_def)

lemma be_nat_snoc: "be_nat (bs @ [b]) = be_nat bs * 256 + unat b"
  by (simp add: be_nat_def)

lemma u8_less [simp]: "unat (b :: u8) < 256"
  using unsigned_less [of b, where ?'a = nat] by simp

lemma u8_le [simp]: "unat (b :: u8) \<le> 255"
  using u8_less [of b] by linarith

lemma be_nat_less: "be_nat bs < 256 ^ length bs"
proof (induction bs rule: rev_induct)
  case Nil
  then show ?case by simp
next
  case (snoc b bs)
  then have "be_nat bs + 1 \<le> 256 ^ length bs" by simp
  then have "(be_nat bs + 1) * 256 \<le> 256 ^ length bs * 256"
    by (rule mult_le_mono1)
  then have "be_nat bs * 256 + 256 \<le> 256 * 256 ^ length bs"
    by (simp add: algebra_simps)
  moreover have "unat b < 256" by simp
  ultimately have "be_nat bs * 256 + unat b < 256 * 256 ^ length bs"
    by linarith
  then show ?case
    by (simp add: be_nat_snoc)
qed

lemma unat_take_bit: "unat (take_bit n x :: 'a::len word) = unat x mod 2 ^ n"
  unfolding unsigned_take_bit_eq by (rule take_bit_eq_mod)

lemma and_low_masks:
  fixes x :: "'a::len word"
  shows "x AND 0xff = take_bit 8 x" and "x AND 0x7f = take_bit 7 x"
    and "x AND 0x3f = take_bit 6 x" and "x AND 0x1f = take_bit 5 x"
    and "x AND 0x0f = take_bit 4 x" and "x AND 0x03 = take_bit 2 x"
  by (simp_all add: take_bit_eq_mask mask_numeral)

lemma unat_and_low_masks [octet_simps]:
  fixes x :: "'a::len word"
  shows "unat (x AND 0xff) = unat x mod 256" and "unat (x AND 0x7f) = unat x mod 128"
    and "unat (x AND 0x3f) = unat x mod 64" and "unat (x AND 0x1f) = unat x mod 32"
    and "unat (x AND 0x0f) = unat x mod 16" and "unat (x AND 0x03) = unat x mod 4"
  by (simp_all only: and_low_masks unat_take_bit) simp_all

lemma unat_drop_bit: "unat (drop_bit k (w :: 'a::len word)) = unat w div 2 ^ k"
  unfolding unat_drop_bit_eq by (rule drop_bit_eq_div)

lemma unat_octet [octet_simps]: "unat (octet w k) = unat w div 2 ^ k mod 256"
proof -
  have "unat (octet w k) = unat (drop_bit k w AND 0xff) mod 256"
    by (simp add: octet_def unsigned_ucast_eq take_bit_eq_mod)
  then show ?thesis
    by (simp add: unat_and_low_masks unat_drop_bit)
qed

lemma unat_push_or_octet:
  fixes a :: "'a::len word" and b :: u8
  assumes "8 \<le> LENGTH('a)"
  shows "unat (push_bit 8 a OR ucast b) = (unat a * 256 + unat b) mod 2 ^ LENGTH('a)"
proof -
  have disj: "push_bit 8 a AND ucast b = 0"
    by (rule bit_word_eqI) (auto simp: bit_simps not_less dest: bit_imp_le_length)
  have "push_bit 8 a OR ucast b = push_bit 8 a + ucast b"
    using disj by (simp add: disjunctive_add_eq_or)
  moreover have "push_bit 8 a = a * 256"
    by (simp add: push_bit_eq_mult)
  moreover have "unat (ucast b :: 'a word) = unat b"
  proof -
    have "unat b < 2 ^ LENGTH('a)"
      using less_le_trans [OF u8_less, of "2 ^ LENGTH('a)" b] power_increasing [OF assms, of "2::nat"]
      by simp
    then show ?thesis by (simp add: unsigned_ucast_eq take_bit_nat_eq_self)
  qed
  moreover have "unat (a * 256 + ucast b :: 'a word) =
      (unat a * unat (256 :: 'a word) + unat (ucast b :: 'a word)) mod 2 ^ LENGTH('a)"
    by (simp add: unat_word_ariths mod_simps)
  moreover have "unat (256 :: 'a word) = 256 mod 2 ^ LENGTH('a)"
    by (metis of_nat_numeral unat_of_nat)
  ultimately show ?thesis
    by (metis mod_add_left_eq mod_mult_right_eq)
qed

lemma unat_be_acc:
  fixes v :: "'a::len word"
  assumes "8 \<le> LENGTH('a)"
  shows "unat (be_acc v bs) = (unat v * 256 ^ length bs + be_nat bs) mod 2 ^ LENGTH('a)"
proof (induction bs rule: rev_induct)
  case Nil
  then show ?case by simp
next
  case (snoc b bs)
  have "unat (be_acc v (bs @ [b])) = (unat (be_acc v bs) * 256 + unat b) mod 2 ^ LENGTH('a)"
    unfolding be_acc_snoc using assms by (rule unat_push_or_octet)
  also have "\<dots> = ((unat v * 256 ^ length bs + be_nat bs) * 256 + unat b) mod 2 ^ LENGTH('a)"
    unfolding snoc.IH by (metis mod_add_left_eq mod_mult_left_eq)
  finally show ?case
    by (simp add: be_nat_snoc algebra_simps)
qed

lemma be_nat_Cons: "be_nat (b # bs) = unat b * 256 ^ length bs + be_nat bs"
proof (induction bs rule: rev_induct)
  case Nil
  then show ?case by (simp add: be_nat_def)
next
  case (snoc c bs)
  have "be_nat (b # bs @ [c]) = be_nat (b # bs) * 256 + unat c"
    using be_nat_snoc [of "b # bs" c] by simp
  with snoc show ?case by (simp add: be_nat_snoc algebra_simps)
qed

lemma unat_be_acc_0:
  assumes "8 \<le> LENGTH('a)" and "256 ^ length bs \<le> (2::nat) ^ LENGTH('a)"
  shows "unat (be_acc (0 :: 'a::len word) bs) = be_nat bs"
  using less_le_trans [OF be_nat_less assms(2)] by (simp add: unat_be_acc [OF assms(1)])

text \<open>Disjoint bits add up.\<close>

lemma unat_or_add:
  fixes x y :: "'a::len word"
  assumes "2 ^ k dvd unat x" and "unat y < 2 ^ k"
  shows "unat (x OR y) = unat x + unat y"
proof -
  have "take_bit k (unat x) = 0" using assms(1) by (simp add: take_bit_eq_0_iff)
  moreover have "take_bit k (unat y) = unat y" using assms(2) by (simp add: take_bit_nat_eq_self)
  ultimately have "unat x AND unat y = 0"
    by (metis (no_types, lifting) take_bit_and take_bit_eq_mask and.left_commute and.assoc and_zero_eq zero_and_eq)
  then have "unat x OR unat y = unat x + unat y" by (simp add: disjunctive_add_eq_or)
  then show ?thesis by (simp add: unsigned_or_eq)
qed

lemma unat_push: "unat x * 2 ^ k < 2 ^ LENGTH('a) \<Longrightarrow> unat (push_bit k x) = unat (x :: 'a::len word) * 2 ^ k"
  unfolding unsigned_push_bit_eq by (simp add: push_bit_eq_mult take_bit_nat_eq_self)

lemma unat_push_or:
  fixes x y :: "'a::len word"
  assumes "unat x * 2 ^ k < 2 ^ LENGTH('a)" and "unat y < 2 ^ k"
  shows "unat (push_bit k x OR y) = unat x * 2 ^ k + unat y"
  using unat_or_add [of k "push_bit k x" y] assms by (simp add: unat_push)

lemma unat_eqI: "unat v = unat w \<Longrightarrow> v = w"
  by (rule unsigned_word_eqI)

lemma unat_ucast_up: "unat (ucast (b :: u8) :: u32) = unat b" "unat (ucast (b :: u8) :: u64) = unat b" "unat (ucast (b :: u8) :: u16) = unat b"
  by (simp_all add: unsigned_ucast_eq take_bit_nat_eq_self less_le_trans [OF u8_less])

text \<open>The octets of a word in big-endian order, least significant \<open>n\<close> of them.\<close>

definition octets :: "nat \<Rightarrow> 'a::len word \<Rightarrow> bytes" where
  "octets n w = map (\<lambda>i. octet w (8 * i)) (rev [0..<n])"

lemma length_octets [simp]: "length (octets n w) = n"
  by (simp add: octets_def)

lemma octets_Suc: "octets (Suc n) w = octet w (8 * n) # octets n w"
  by (simp add: octets_def)

lemma octets_0 [simp]: "octets 0 w = []"
  by (simp add: octets_def)

lemma octets_numeral:
  "octets (numeral k) w = octet w (8 * pred_numeral k) # octets (pred_numeral k) w"
  by (simp add: numeral_eq_Suc octets_Suc)

lemma be_nat_octets [octet_simps]: "be_nat (octets n w) = unat w mod 256 ^ n"
proof (induction n)
  case 0
  then show ?case by simp
next
  case (Suc n)
  have "be_nat (octets (Suc n) w) = unat (octet w (8 * n)) * 256 ^ n + be_nat (octets n w)"
    by (simp add: octets_Suc be_nat_Cons)
  also have "\<dots> = (unat w div 2 ^ (8 * n) mod 256) * 256 ^ n + unat w mod 256 ^ n"
    by (simp add: unat_octet Suc)
  also have "(2::nat) ^ (8 * n) = 256 ^ n"
    by (simp add: power_mult)
  also have "(unat w div 256 ^ n mod 256) * 256 ^ n + unat w mod 256 ^ n = unat w mod (256 ^ n * 256)"
    unfolding mod_mult2_eq by (simp only: mult.commute)
  finally show ?case by (simp add: algebra_simps)
qed

section \<open>Slices and text\<close>

text \<open>\<^verbatim>\<open>sv.substr(pos, len)\<close> for \<open>pos \<le> sv.size()\<close>: the count is clamped to the end.\<close>

abbreviation substr :: "'a list \<Rightarrow> nat \<Rightarrow> nat \<Rightarrow> 'a list" where
  "substr s pos len \<equiv> take len (drop pos s)"

text \<open>\<^verbatim>\<open>sv.find(c, pos)\<close>: the least index at or after \<open>pos\<close> that holds \<open>c\<close>, or \<open>npos\<close>.\<close>

definition find_from :: "'a \<Rightarrow> 'a list \<Rightarrow> nat \<Rightarrow> nat option" where
  "find_from c s pos = (let k = length (takeWhile (\<lambda>x. x \<noteq> c) (drop pos s))
     in if pos + k < length s then Some (pos + k) else None)"

lemma find_from_Some:
  assumes "find_from c s pos = Some i"
  shows "pos \<le> i" and "i < length s" and "s ! i = c" and "\<forall>j. pos \<le> j \<and> j < i \<longrightarrow> s ! j \<noteq> c"
proof -
  let ?k = "length (takeWhile (\<lambda>x. x \<noteq> c) (drop pos s))"
  have i: "i = pos + ?k" and len: "pos + ?k < length s"
    using assms by (auto simp: find_from_def Let_def split: if_splits)
  show "pos \<le> i" and "i < length s" using i len by auto
  have "?k < length (drop pos s)" using len by simp
  then have "drop pos s ! ?k = c" by (meson nth_length_takeWhile)
  then show "s ! i = c" using i len by simp
  show "\<forall>j. pos \<le> j \<and> j < i \<longrightarrow> s ! j \<noteq> c"
  proof (intro allI impI)
    fix j assume j: "pos \<le> j \<and> j < i"
    then have "j - pos < ?k" using i by linarith
    then have "takeWhile (\<lambda>x. x \<noteq> c) (drop pos s) ! (j - pos) \<noteq> c"
      by (metis (mono_tags, lifting) nth_mem set_takeWhileD)
    with \<open>j - pos < ?k\<close> have "drop pos s ! (j - pos) \<noteq> c"
      by (simp add: takeWhile_nth)
    with j len i show "s ! j \<noteq> c" by simp
  qed
qed

lemma find_from_None: "find_from c s pos = None \<longleftrightarrow> c \<notin> set (drop pos s)"
proof -
  have "(pos + length (takeWhile (\<lambda>x. x \<noteq> c) (drop pos s)) < length s) \<longleftrightarrow> c \<in> set (drop pos s)"
  proof (cases "pos \<le> length s")
    case True
    have "length (takeWhile (\<lambda>x. x \<noteq> c) (drop pos s)) < length (drop pos s) \<longleftrightarrow> c \<in> set (drop pos s)"
    proof
      assume "c \<in> set (drop pos s)"
      then have "takeWhile (\<lambda>x. x \<noteq> c) (drop pos s) \<noteq> drop pos s"
        by (metis (mono_tags, lifting) takeWhile_eq_all_conv)
      then show "length (takeWhile (\<lambda>x. x \<noteq> c) (drop pos s)) < length (drop pos s)"
        by (metis length_takeWhile_le nat_less_le takeWhile_eq_take take_all_iff)
    next
      assume "length (takeWhile (\<lambda>x. x \<noteq> c) (drop pos s)) < length (drop pos s)"
      then show "c \<in> set (drop pos s)"
        by (metis (mono_tags, lifting) nth_length_takeWhile nth_mem)
    qed
    with True show ?thesis by auto
  qed simp
  then show ?thesis by (simp add: find_from_def Let_def)
qed

lemma find_from_append:
  assumes "c \<notin> set xs"
  shows "find_from c (pre @ xs @ c # rest) (length pre) = Some (length pre + length xs)"
proof -
  have "takeWhile (\<lambda>x. x \<noteq> c) (xs @ c # rest) = xs"
    using assms by (induction xs) auto
  then show ?thesis by (simp add: find_from_def)
qed

lemma find_from_drop:
  assumes "drop pos s = xs @ c # rest" and "c \<notin> set xs"
  shows "find_from c s pos = Some (pos + length xs)"
proof -
  have "takeWhile (\<lambda>x. x \<noteq> c) (xs @ c # rest) = xs"
    using assms(2) by (induction xs) auto
  moreover have "length xs < length s - pos"
    using arg_cong [OF assms(1), of length] by simp
  ultimately show ?thesis using assms(1) by (simp add: find_from_def Let_def)
qed

definition bytes_of :: "string \<Rightarrow> bytes" where
  "bytes_of s = map (\<lambda>c. of_nat (of_char c)) s"

definition str_of :: "bytes \<Rightarrow> string" where
  "str_of bs = map (\<lambda>b. char_of (unat b)) bs"

lemma length_bytes_of [simp]: "length (bytes_of s) = length s"
  by (simp add: bytes_of_def)

lemma length_str_of [simp]: "length (str_of bs) = length bs"
  by (simp add: str_of_def)

lemma unat_of_char [simp]: "unat (of_nat (of_char c) :: u8) = of_char c"
  by (simp add: unat_of_nat)

lemma str_of_bytes_of [simp]: "str_of (bytes_of s) = s"
  by (induction s) (simp_all add: str_of_def bytes_of_def)

lemma bytes_of_str_of [simp]: "bytes_of (str_of bs) = bs"
  by (induction bs) (simp_all add: str_of_def bytes_of_def)

section \<open>Reassembly\<close>

text \<open>\<open>d\<close> is what a sender of the octets \<open>S\<close> puts at offset \<open>off\<close>.\<close>

definition fits :: "bytes \<Rightarrow> nat \<Rightarrow> bytes \<Rightarrow> bool" where
  "fits S off d \<longleftrightarrow> off + length d \<le> length S \<and> take (length d) (drop off S) = d"

lemma fits_drop: "fits S off d \<Longrightarrow> k \<le> length d \<Longrightarrow> fits S (off + k) (drop k d)"
  unfolding fits_def
  by (metis (no_types, lifting) add.assoc add.commute drop_drop drop_take le_add_diff_inverse length_drop)

lemma fits_take: "fits S off d \<Longrightarrow> take (off + length d) S = take off S @ d"
  by (simp add: fits_def take_add)

section \<open>Cursor codecs\<close>

text \<open>
  The decoders of the code take the whole buffer and a cursor; on success they
  return a value and advance the cursor.  The locale states what a client needs:
  a value that was encoded at the cursor is read back, and success moves the
  cursor forward, inside the buffer.
\<close>

locale cursor_codec =
  fixes enc :: "'v \<Rightarrow> bytes"
    and dec :: "bytes \<Rightarrow> nat \<Rightarrow> ('v \<times> nat) option"
    and ok :: "'v \<Rightarrow> bool"
  assumes dec_enc: "ok v \<Longrightarrow> drop c buf = enc v @ rest \<Longrightarrow> dec buf c = Some (v, c + length (enc v))"
    and dec_bounds: "dec buf c = Some (v, c') \<Longrightarrow> c < c' \<and> c' \<le> length buf"
begin

lemma enc_nonempty: "ok v \<Longrightarrow> enc v \<noteq> []"
  using dec_enc [of v 0 "enc v" "[]"] dec_bounds [of "enc v" 0 v "length (enc v)"] by auto

lemma drop_after: "drop c buf = enc v @ rest \<Longrightarrow> drop (c + length (enc v)) buf = rest"
  by (metis add.commute append_eq_conv_conj drop_drop)

lemma dec_start: "ok v \<Longrightarrow> dec (enc v @ rest) 0 = Some (v, length (enc v))"
  using dec_enc [of v 0 "enc v @ rest" rest] by simp

lemma prefix_free:
  assumes "ok v" and "ok w" and "enc v @ r = enc w @ s"
  shows "v = w \<and> r = s"
proof -
  have "Some (v, length (enc v)) = Some (w, length (enc w))"
    using dec_start [OF assms(1), of r] dec_start [OF assms(2), of s] assms(3) by simp
  with assms(3) show ?thesis by simp
qed

lemma enc_inj: "ok v \<Longrightarrow> ok w \<Longrightarrow> enc v = enc w \<Longrightarrow> v = w"
  using prefix_free [of v w "[]" "[]"] by simp

end

end
