(* ===== verification/Quic_ConnectionId.thy ===== *)
theory Quic_ConnectionId
  imports Wavex_Prelude
begin

unbundle bit_operations_syntax

text \<open>
  QUIC connection identifiers: \<^verbatim>\<open>src/src/Network/QUIC/ConnectionId.cpp\<close> and its header.
  A fixed array of 20 octets with a length, hexadecimal printing and parsing, the
  comparison that looks at the used octets only, SipHash-2-4, and the process-wide
  hash seed.  The random generators are parameters.
\<close>

section \<open>Model\<close>

definition MAX_CONNECTION_ID_LEN :: nat where
  "MAX_CONNECTION_ID_LEN = 20"

record connection_id =
  cid_data :: bytes
  cid_length :: nat

definition cid_default :: connection_id where
  "cid_default = \<lparr>cid_data = replicate MAX_CONNECTION_ID_LEN 0, cid_length = 0\<rparr>"

text \<open>
  \<^verbatim>\<open>ConnectionId(src, len)\<close>; \<open>None\<close> is the null pointer.  The view constructor is the same
  with the view's octets and their number.
\<close>

definition cid_make :: "bytes option \<Rightarrow> nat \<Rightarrow> connection_id" where
  "cid_make src len =
     (let n = min len MAX_CONNECTION_ID_LEN in
      case src of
        None \<Rightarrow> cid_default\<lparr>cid_length := n\<rparr>
      | Some bs \<Rightarrow> \<lparr>cid_data = take n bs @ replicate (MAX_CONNECTION_ID_LEN - n) 0, cid_length = n\<rparr>)"

definition cid_of_view :: "bytes \<Rightarrow> connection_id" where
  "cid_of_view sv = cid_make (Some sv) (length sv)"

definition cid_view :: "connection_id \<Rightarrow> bytes" where
  "cid_view cid = take (cid_length cid) (cid_data cid)"

definition cid_empty :: "connection_id \<Rightarrow> bool" where
  "cid_empty cid \<longleftrightarrow> cid_length cid = 0"

definition cid_eq :: "connection_id \<Rightarrow> connection_id \<Rightarrow> bool" where
  "cid_eq a b = (if cid_length a \<noteq> cid_length b then False
                 else if cid_length a = 0 then True
                 else take (cid_length a) (cid_data a) = take (cid_length a) (cid_data b))"

definition hex_char :: "nat \<Rightarrow> char" where
  "hex_char n = ''0123456789abcdef'' ! n"

text \<open>\<^verbatim>\<open>std::hex << std::setw(2) << std::setfill('0')\<close> on one octet.\<close>

definition hex2 :: "u8 \<Rightarrow> string" where
  "hex2 b = [hex_char (unat b div 16), hex_char (unat b mod 16)]"

definition cid_to_string :: "connection_id \<Rightarrow> string" where
  "cid_to_string cid = concat (map hex2 (cid_view cid))"

definition cid_hex_val :: "char \<Rightarrow> nat option" where
  "cid_hex_val c =
     (let n = of_char c :: nat in
      if 48 \<le> n \<and> n \<le> 57 then Some (n - 48)
      else if 97 \<le> n \<and> n \<le> 102 then Some (n - 97 + 10)
      else if 65 \<le> n \<and> n \<le> 70 then Some (n - 65 + 10)
      else None)"

fun cid_hex_loop :: "string \<Rightarrow> bytes option" where
  "cid_hex_loop (c1 # c2 # hex) =
     (case (cid_hex_val c1, cid_hex_val c2) of
        (Some v1, Some v2) \<Rightarrow>
          map_option (\<lambda>r. (push_bit 4 (of_nat v1) OR of_nat v2) # r) (cid_hex_loop hex)
      | _ \<Rightarrow> None)"
| "cid_hex_loop _ = Some []"

definition cid_from_hex :: "string \<Rightarrow> connection_id" where
  "cid_from_hex hex =
     (if hex = [] \<or> length hex mod 2 \<noteq> 0 \<or> length hex div 2 > MAX_CONNECTION_ID_LEN
      then cid_default
      else case cid_hex_loop hex of
             None \<Rightarrow> cid_default
           | Some bs \<Rightarrow> \<lparr>cid_data = bs @ replicate (MAX_CONNECTION_ID_LEN - length bs) 0,
                         cid_length = length hex div 2\<rparr>)"

text \<open>\<^verbatim>\<open>ConnectionId::random\<close>; the generator's successive draws are the parameter.\<close>

definition cid_random :: "(nat \<Rightarrow> u8) \<Rightarrow> nat \<Rightarrow> connection_id" where
  "cid_random dist len =
     (let n = min len MAX_CONNECTION_ID_LEN in
      \<lparr>cid_data = map dist [0..<n] @ replicate (MAX_CONNECTION_ID_LEN - n) 0, cid_length = n\<rparr>)"

text \<open>The class invariant: the array has its size and the length stays inside it.\<close>

definition cid_wf :: "connection_id \<Rightarrow> bool" where
  "cid_wf cid \<longleftrightarrow> length (cid_data cid) = MAX_CONNECTION_ID_LEN \<and> cid_length cid \<le> MAX_CONNECTION_ID_LEN"

subsection \<open>SipHash\<close>

definition rotl64 :: "u64 \<Rightarrow> nat \<Rightarrow> u64" where
  "rotl64 x n = push_bit n x OR drop_bit (64 - n) x"

type_synonym sip_state = "u64 \<times> u64 \<times> u64 \<times> u64"

definition sipround :: "sip_state \<Rightarrow> sip_state" where
  "sipround = (\<lambda>(v0, v1, v2, v3).
     let v0 = v0 + v1; v1 = rotl64 v1 13; v1 = v1 XOR v0; v0 = rotl64 v0 32;
         v2 = v2 + v3; v3 = rotl64 v3 16; v3 = v3 XOR v2;
         v0 = v0 + v3; v3 = rotl64 v3 21; v3 = v3 XOR v0;
         v2 = v2 + v1; v1 = rotl64 v1 17; v1 = v1 XOR v2; v2 = rotl64 v2 32
     in (v0, v1, v2, v3))"

definition load_u64_le :: "bytes \<Rightarrow> u64" where
  "load_u64_le p = foldl (\<lambda>m i. m OR push_bit (8 * i) (ucast (p ! i))) 0 [0..<8]"

definition sip_compress :: "u64 \<Rightarrow> sip_state \<Rightarrow> sip_state" where
  "sip_compress m = (\<lambda>(v0, v1, v2, v3).
     let (w0, w1, w2, w3) = sipround (sipround (v0, v1, v2, v3 XOR m)) in (w0 XOR m, w1, w2, w3))"

definition siphash24 :: "bytes \<Rightarrow> u64 \<Rightarrow> u64 \<Rightarrow> u64" where
  "siphash24 data k0 k1 =
     (let len = length data;
          left = len mod 8;
          v = (k0 XOR 0x736f6d6570736575, k1 XOR 0x646f72616e646f6d,
               k0 XOR 0x6c7967656e657261, k1 XOR 0x7465646279746573);
          v = fold (\<lambda>i. sip_compress (load_u64_le (drop (8 * i) data))) [0..<len div 8] v;
          b = foldl (\<lambda>b i. b OR push_bit (8 * i) (ucast (drop (len - left) data ! i)))
                    (push_bit 56 (of_nat len)) [0..<left];
          (v0, v1, v2, v3) = sip_compress b v;
          (v0, v1, v2, v3) = sipround (sipround (sipround (sipround (v0, v1, v2 XOR 0xff, v3))))
      in v0 XOR v1 XOR v2 XOR v3)"

record siphash_seed =
  seed_k0 :: u64
  seed_k1 :: u64
  seed_initialized :: bool

text \<open>
  \<^verbatim>\<open>ensure_initialized\<close>: the fresh seeds are the parameters; each key is stored by a
  compare-and-exchange that expects 0.
\<close>

definition seed_ensure_initialized :: "u64 \<Rightarrow> u64 \<Rightarrow> siphash_seed \<Rightarrow> siphash_seed" where
  "seed_ensure_initialized seed0 seed1 s =
     (if seed_initialized s then s
      else \<lparr>seed_k0 = (if seed_k0 s = 0 then seed0 else seed_k0 s),
            seed_k1 = (if seed_k1 s = 0 then seed1 else seed_k1 s),
            seed_initialized = True\<rparr>)"

definition set_process_siphash_seed :: "u64 \<Rightarrow> u64 \<Rightarrow> siphash_seed" where
  "set_process_siphash_seed k0 k1 = \<lparr>seed_k0 = k0, seed_k1 = k1, seed_initialized = True\<rparr>"

definition cid_hash :: "u64 \<Rightarrow> u64 \<Rightarrow> siphash_seed \<Rightarrow> connection_id \<Rightarrow> u64 \<times> siphash_seed" where
  "cid_hash seed0 seed1 s cid =
     (let s = seed_ensure_initialized seed0 seed1 s
      in (siphash24 (cid_view cid) (seed_k0 s) (seed_k1 s), s))"

section \<open>Lemmas\<close>

lemma length_cid_view: "cid_wf cid \<Longrightarrow> length (cid_view cid) = cid_length cid"
  by (simp add: cid_view_def cid_wf_def)

lemma cid_eq_iff: "cid_wf a \<Longrightarrow> cid_wf b \<Longrightarrow> cid_eq a b \<longleftrightarrow> cid_view a = cid_view b"
  using length_cid_view [of a] length_cid_view [of b]
  by (auto simp: cid_eq_def cid_view_def dest: arg_cong [where f = length])

lemma cid_make_wf: "length bs \<ge> min len MAX_CONNECTION_ID_LEN \<Longrightarrow> cid_wf (cid_make (Some bs) len)"
  by (auto simp: cid_make_def cid_wf_def Let_def)

lemma cid_make_view: "len \<le> MAX_CONNECTION_ID_LEN \<Longrightarrow> len \<le> length bs \<Longrightarrow>
    cid_view (cid_make (Some bs) len) = take len bs"
  by (simp add: cid_make_def cid_view_def Let_def min_def)

lemma cid_of_view_wf [simp]: "cid_wf (cid_of_view bs)"
  by (simp add: cid_of_view_def cid_make_wf)

lemma cid_of_view_view: "length bs \<le> MAX_CONNECTION_ID_LEN \<Longrightarrow> cid_view (cid_of_view bs) = bs"
  by (simp add: cid_of_view_def cid_make_view)

lemma cid_default_wf [simp]: "cid_wf cid_default"
  by (simp add: cid_wf_def cid_default_def)

lemma cid_random_wf: "cid_wf (cid_random dist len)"
  by (auto simp: cid_wf_def cid_random_def Let_def)

lemma length_cid_hex_loop: "cid_hex_loop hex = Some bs \<Longrightarrow> length bs = length hex div 2"
  by (induction hex arbitrary: bs rule: cid_hex_loop.induct) (auto split: option.splits)

lemma cid_from_hex_wf: "cid_wf (cid_from_hex hex)"
  using length_cid_hex_loop [of hex] by (auto simp: cid_from_hex_def cid_wf_def cid_default_def split: option.splits)

lemma cid_hex_val_hex_char: "n < 16 \<Longrightarrow> cid_hex_val (hex_char n) = Some n"
proof -
  have "\<forall>n \<in> set [0..<16]. cid_hex_val (hex_char n) = Some n" by code_simp
  moreover assume "n < 16"
  ultimately show ?thesis by (metis atLeastLessThan_iff le0 set_upt)
qed

lemma push4_or: "push_bit 4 (of_nat (unat b div 16)) OR of_nat (unat b mod 16) = (b :: u8)"
proof -
  have lo: "of_nat (unat b mod 16) = b AND 0x0f"
    by (rule unsigned_word_eqI [where ?'a = nat]) (simp add: octet_simps unat_of_nat)
  have hi: "of_nat (unat b div 16) = drop_bit 4 b"
    by (rule unsigned_word_eqI [where ?'a = nat])
      (simp add: unat_drop_bit unat_of_nat le_less_trans [OF div_le_dividend u8_less])
  show ?thesis unfolding lo hi and_low_masks
    by (rule bit_word_eqI) (auto simp: bit_simps)
qed

lemma cid_hex_loop_hex2: "cid_hex_loop (concat (map hex2 bs)) = Some bs"
  by (induction bs)
    (simp_all add: hex2_def cid_hex_val_hex_char push4_or div_less_iff_less_mult
      less_le_trans [OF u8_less])

lemma length_concat_hex2: "length (concat (map hex2 bs)) = 2 * length bs"
  by (induction bs) (simp_all add: hex2_def)

section \<open>Properties\<close>

text \<open>
  Parsing the hexadecimal text of a connection identifier gives an identifier that
  compares equal to it, for every identifier the class can hold, the empty one included.
\<close>

theorem cid_hex_roundtrip:
  assumes "cid_wf cid"
  shows "cid_eq (cid_from_hex (cid_to_string cid)) cid"
proof -
  have "cid_view (cid_from_hex (cid_to_string cid)) = cid_view cid"
    using length_cid_view [OF assms] assms
    by (cases "cid_view cid = []")
      (simp_all add: cid_from_hex_def cid_to_string_def cid_hex_loop_hex2 length_concat_hex2
        cid_default_def cid_wf_def cid_view_def hex2_def)
  then show ?thesis
    by (simp add: cid_eq_iff cid_from_hex_wf assms)
qed

theorem cid_hex_roundtrip_witness:
  "cid_eq (cid_from_hex (cid_to_string (cid_of_view [0xde, 0xad, 0x01]))) (cid_of_view [0xde, 0xad, 0x01])"
  by (rule cid_hex_roundtrip) simp

text \<open>
  The hash table contract of connection identifiers: two identifiers that compare
  equal have the same hash once the process seed is initialised, whatever their unused
  octets hold and whatever fresh seeds a later call would draw, and hashing leaves an
  initialised seed as it is.
\<close>

theorem cid_hash_respects_eq:
  assumes "cid_wf a" and "cid_wf b" and "cid_eq a b"
    and "(h, s') = cid_hash r0 r1 s a"
  shows "cid_hash q0 q1 s' b = (h, s')"
  using assms by (auto simp: cid_hash_def Let_def cid_eq_iff seed_ensure_initialized_def)

theorem cid_hash_respects_eq_witness:
  "cid_hash 7 8 (snd (cid_hash 1 2 \<lparr>seed_k0 = 0, seed_k1 = 0, seed_initialized = False\<rparr> (cid_make (Some [5, 6]) 2)))
     \<lparr>cid_data = [5, 6] @ replicate 18 9, cid_length = 2\<rparr>
   = cid_hash 1 2 \<lparr>seed_k0 = 0, seed_k1 = 0, seed_initialized = False\<rparr> (cid_make (Some [5, 6]) 2)"
  using cid_hash_respects_eq [of "cid_make (Some [5, 6]) 2" "\<lparr>cid_data = [5, 6] @ replicate 18 9, cid_length = 2\<rparr>"
      "fst (cid_hash 1 2 \<lparr>seed_k0 = 0, seed_k1 = 0, seed_initialized = False\<rparr> (cid_make (Some [5, 6]) 2))"
      "snd (cid_hash 1 2 \<lparr>seed_k0 = 0, seed_k1 = 0, seed_initialized = False\<rparr> (cid_make (Some [5, 6]) 2))"
      1 2 "\<lparr>seed_k0 = 0, seed_k1 = 0, seed_initialized = False\<rparr>" 7 8]
  by (simp add: cid_make_wf cid_wf_def cid_eq_def MAX_CONNECTION_ID_LEN_def cid_make_def Let_def)

end
