(* ===== verification/Quic_Crypto_Stream.thy ===== *)
theory Quic_Crypto_Stream
  imports Wavex_Prelude
begin

text \<open>
  The reassembly of CRYPTO frames: \<^verbatim>\<open>QuicConnection::CryptoStreamReassembler\<close> of
  \<^verbatim>\<open>src/src/Network/QUIC/QuicConnection.cpp\<close>.  The ordered map of pending chunks is a list
  sorted by offset; \<open>crypto_insert\<close> returns the code's boolean and the new state.
\<close>

section \<open>Model\<close>

definition kMaxCryptoBufferSize :: nat where
  "kMaxCryptoBufferSize = 65536"

record crypto_reassembler =
  cr_pending :: "(nat \<times> bytes) list"
  cr_ready :: bytes
  cr_next_offset :: nat
  cr_ready_consumed :: nat
  cr_pending_bytes :: nat

definition crypto_new :: crypto_reassembler where
  "crypto_new = \<lparr>cr_pending = [], cr_ready = [], cr_next_offset = 0, cr_ready_consumed = 0, cr_pending_bytes = 0\<rparr>"

text \<open>\<^verbatim>\<open>std::map::emplace\<close>: an existing key keeps its value.\<close>

fun map_emplace :: "nat \<Rightarrow> bytes \<Rightarrow> (nat \<times> bytes) list \<Rightarrow> (nat \<times> bytes) list" where
  "map_emplace k v [] = [(k, v)]"
| "map_emplace k v ((k', v') # m) =
     (if k < k' then (k, v) # (k', v') # m
      else if k = k' then (k', v') # m
      else (k', v') # map_emplace k v m)"

text \<open>The loop that moves contiguous chunks to \<^verbatim>\<open>ready\<close>; the first argument is \<^verbatim>\<open>pending\<close>.\<close>

fun crypto_drain :: "(nat \<times> bytes) list \<Rightarrow> crypto_reassembler \<Rightarrow> crypto_reassembler" where
  "crypto_drain [] r = r\<lparr>cr_pending := []\<rparr>"
| "crypto_drain ((off, d) # m) r =
     (if off > cr_next_offset r then r\<lparr>cr_pending := (off, d) # m\<rparr>
      else
        let r = (if off + length d > cr_next_offset r
                 then r\<lparr>cr_ready := cr_ready r @ drop (cr_next_offset r - off) d,
                        cr_next_offset := off + length d\<rparr>
                 else r)
        in crypto_drain m (r\<lparr>cr_pending_bytes := cr_pending_bytes r - length d\<rparr>))"

definition crypto_insert :: "nat \<Rightarrow> bytes \<Rightarrow> crypto_reassembler \<Rightarrow> bool \<times> crypto_reassembler" where
  "crypto_insert off d r =
     (if d = [] then (True, r)
      else if off + length d \<le> cr_next_offset r then (True, r)
      else if off > cr_next_offset r + kMaxCryptoBufferSize then (False, r)
      else if cr_pending_bytes r + length d > kMaxCryptoBufferSize then (False, r)
      else (True, crypto_drain (map_emplace off d (cr_pending r))
                    (r\<lparr>cr_pending_bytes := cr_pending_bytes r + length d\<rparr>)))"

definition crypto_available :: "crypto_reassembler \<Rightarrow> bytes" where
  "crypto_available r =
     (if cr_ready_consumed r \<ge> length (cr_ready r) then [] else drop (cr_ready_consumed r) (cr_ready r))"

definition crypto_consume :: "nat \<Rightarrow> crypto_reassembler \<Rightarrow> crypto_reassembler" where
  "crypto_consume n r =
     (let c = cr_ready_consumed r + n in
      if c \<ge> length (cr_ready r) then r\<lparr>cr_ready := [], cr_ready_consumed := 0\<rparr>
      else if c > 65536 then r\<lparr>cr_ready := drop c (cr_ready r), cr_ready_consumed := 0\<rparr>
      else r\<lparr>cr_ready_consumed := c\<rparr>)"

definition crypto_has_available :: "crypto_reassembler \<Rightarrow> bool" where
  "crypto_has_available r \<longleftrightarrow> cr_ready_consumed r < length (cr_ready r)"

section \<open>Invariants\<close>

definition chunks_total :: "(nat \<times> bytes) list \<Rightarrow> nat" where
  "chunks_total m = sum_list (map (\<lambda>(k, v). length v) m)"

definition chunks_fit :: "bytes \<Rightarrow> (nat \<times> bytes) list \<Rightarrow> bool" where
  "chunks_fit S m \<longleftrightarrow> (\<forall>(k, v) \<in> set m. fits S k v)"

text \<open>For any peer: the counter covers the chunks, the limit covers the counter.\<close>

definition crypto_inv :: "crypto_reassembler \<Rightarrow> bool" where
  "crypto_inv r \<longleftrightarrow> cr_ready_consumed r \<le> length (cr_ready r)
     \<and> sorted_wrt (\<lambda>a b. fst a < fst b) (cr_pending r)
     \<and> chunks_total (cr_pending r) \<le> cr_pending_bytes r
     \<and> cr_pending_bytes r \<le> kMaxCryptoBufferSize"

definition crypto_delivered :: "bytes \<Rightarrow> bytes \<Rightarrow> crypto_reassembler \<Rightarrow> bool" where
  "crypto_delivered S out r \<longleftrightarrow> cr_next_offset r \<le> length S
     \<and> out @ drop (cr_ready_consumed r) (cr_ready r) = take (cr_next_offset r) S
     \<and> cr_ready_consumed r \<le> length (cr_ready r)"

section \<open>Lemmas\<close>

lemma chunks_total_simps [simp]:
  "chunks_total [] = 0" "chunks_total ((k, v) # m) = length v + chunks_total m"
  by (simp_all add: chunks_total_def)

lemma map_emplace_total: "chunks_total (map_emplace k v m) \<le> chunks_total m + length v"
  by (induction k v m rule: map_emplace.induct) auto

lemma map_emplace_set: "set (map_emplace k v m) \<subseteq> insert (k, v) (set m)"
  by (induction k v m rule: map_emplace.induct) auto

lemma map_emplace_sorted:
  "sorted_wrt (\<lambda>a b. fst a < fst b) m \<Longrightarrow> sorted_wrt (\<lambda>a b. fst a < fst b) (map_emplace k v m)"
proof (induction k v m rule: map_emplace.induct)
  case (2 k v k' v' m)
  have "\<forall>x \<in> set (map_emplace k v m). x = (k, v) \<or> x \<in> set m" using map_emplace_set by fastforce
  with 2 show ?case by auto
qed simp

lemma map_emplace_present: "(k, w) \<in> set m \<Longrightarrow> sorted_wrt (\<lambda>a b. fst a < fst b) m \<Longrightarrow> map_emplace k v m = m"
  by (induction k v m rule: map_emplace.induct) auto

lemma crypto_drain_inv:
  assumes "cr_ready_consumed r \<le> length (cr_ready r)" and "sorted_wrt (\<lambda>a b. fst a < fst b) m"
    and "chunks_total m \<le> cr_pending_bytes r" and "cr_pending_bytes r \<le> kMaxCryptoBufferSize"
  shows "crypto_inv (crypto_drain m r)"
  using assms
proof (induction m arbitrary: r)
  case (Cons a m)
  obtain off d where a: "a = (off, d)" by fastforce
  show ?case
  proof (cases "off > cr_next_offset r")
    case True
    with Cons.prems show ?thesis by (simp add: a crypto_inv_def)
  next
    case False
    with Cons.prems show ?thesis by (auto simp: a Let_def intro!: Cons.IH)
  qed
qed (simp add: crypto_inv_def)

lemma crypto_insert_inv: "crypto_inv r \<Longrightarrow> crypto_inv (snd (crypto_insert off d r))"
  using map_emplace_total [of off d "cr_pending r"]
  by (auto simp: crypto_insert_def crypto_inv_def [of r] map_emplace_sorted intro!: crypto_drain_inv)

lemma crypto_delivered_bytes [simp]:
  "crypto_delivered S out (r\<lparr>cr_pending_bytes := n\<rparr>) = crypto_delivered S out r"
  by (simp add: crypto_delivered_def)

lemma crypto_drain_delivered:
  assumes "crypto_delivered S out r" and "chunks_fit S m"
  shows "crypto_delivered S out (crypto_drain m r) \<and> chunks_fit S (cr_pending (crypto_drain m r))"
  using assms
proof (induction m arbitrary: r)
  case Nil
  then show ?case by (simp add: crypto_delivered_def chunks_fit_def)
next
  case (Cons a m)
  obtain off d where a: "a = (off, d)" by fastforce
  have fit: "fits S off d" and rest: "chunks_fit S m" using Cons.prems(2) by (auto simp: a chunks_fit_def)
  show ?case
  proof (cases "off > cr_next_offset r")
    case True
    with Cons.prems show ?thesis by (auto simp: a crypto_delivered_def chunks_fit_def)
  next
    case False
    let ?k = "cr_next_offset r - off"
    let ?r = "if off + length d > cr_next_offset r
              then r\<lparr>cr_ready := cr_ready r @ drop ?k d, cr_next_offset := off + length d\<rparr> else r"
    let ?r' = "?r\<lparr>cr_pending_bytes := cr_pending_bytes ?r - length d\<rparr>"
    have "crypto_delivered S out ?r"
    proof (cases "off + length d > cr_next_offset r")
      case True
      then have "fits S (off + ?k) (drop ?k d)" using fit by (intro fits_drop) auto
      then have f: "fits S (cr_next_offset r) (drop ?k d)" using False by simp
      have "take (off + length d) S = take (cr_next_offset r) S @ drop ?k d"
        using fits_take [OF f] True False by (simp add: add.commute)
      with True Cons.prems(1) fit show ?thesis by (auto simp: crypto_delivered_def fits_def)
    qed (use Cons.prems in simp)
    then have "crypto_delivered S out ?r'" by (simp only: crypto_delivered_bytes)
    with Cons.IH [OF this rest] False show ?thesis by (simp add: a Let_def)
  qed
qed

lemma crypto_insert_delivered:
  assumes "crypto_delivered S out r" and "chunks_fit S (cr_pending r)" and "fits S off d"
  shows "crypto_delivered S out (snd (crypto_insert off d r)) \<and> chunks_fit S (cr_pending (snd (crypto_insert off d r)))"
proof -
  have "chunks_fit S (map_emplace off d (cr_pending r))"
    using assms(2,3) map_emplace_set [of off d "cr_pending r"] by (fastforce simp: chunks_fit_def)
  then show ?thesis
    using crypto_drain_delivered assms by (simp add: crypto_insert_def)
qed

text \<open>Histories of a peer that sends the handshake octets \<open>S\<close>; the last argument is what TLS was given.\<close>

inductive crypto_run :: "bytes \<Rightarrow> crypto_reassembler \<Rightarrow> bytes \<Rightarrow> bool" for S where
  crypto_start: "crypto_run S crypto_new []"
| crypto_frame: "crypto_run S r out \<Longrightarrow> fits S off d \<Longrightarrow> crypto_run S (snd (crypto_insert off d r)) out"
| crypto_take: "crypto_run S r out \<Longrightarrow> n \<le> length (crypto_available r) \<Longrightarrow>
    crypto_run S (crypto_consume n r) (out @ take n (crypto_available r))"

lemma crypto_available_drop: "crypto_available r = drop (cr_ready_consumed r) (cr_ready r)"
  by (simp add: crypto_available_def)

lemma crypto_consume_available:
  "cr_ready_consumed r \<le> length (cr_ready r) \<Longrightarrow> n \<le> length (crypto_available r) \<Longrightarrow>
     crypto_available (crypto_consume n r) = drop n (crypto_available r)
     \<and> cr_ready_consumed (crypto_consume n r) \<le> length (cr_ready (crypto_consume n r))"
  by (auto simp: crypto_available_drop crypto_consume_def Let_def add.commute)

lemma crypto_run_sound:
  "crypto_run S r out \<Longrightarrow> crypto_delivered S out r \<and> chunks_fit S (cr_pending r) \<and> crypto_inv r"
proof (induction rule: crypto_run.induct)
  case crypto_start
  then show ?case by (simp add: crypto_new_def crypto_delivered_def chunks_fit_def crypto_inv_def)
next
  case (crypto_frame r out off d)
  then show ?case using crypto_insert_delivered [of S out r off d] by (simp add: crypto_insert_inv)
next
  case (crypto_take r out n)
  have f: "cr_pending (crypto_consume n r) = cr_pending r" "cr_next_offset (crypto_consume n r) = cr_next_offset r"
    "cr_pending_bytes (crypto_consume n r) = cr_pending_bytes r"
    by (simp_all add: crypto_consume_def Let_def)
  have "cr_ready_consumed r \<le> length (cr_ready r)" using crypto_take.IH by (simp add: crypto_delivered_def)
  note c = crypto_consume_available [OF this crypto_take.hyps(2)]
  have "(out @ take n (crypto_available r)) @ crypto_available (crypto_consume n r) = out @ crypto_available r"
    using c by simp
  with crypto_take.IH c show ?case
    by (simp add: crypto_delivered_def crypto_inv_def f crypto_available_drop)
qed

section \<open>Properties\<close>

text \<open>
  C13.  Handshake octets are delivered in order and once: for every order, duplication and
  overlap of CRYPTO frames, what TLS consumed followed by what is available is exactly a
  prefix of what the peer sent, and at most 64 KiB of chunks wait, whether or not the
  insertion was accepted.
\<close>

theorem crypto_reassembly:
  assumes "crypto_run S r out"
  shows "out @ crypto_available r = take (cr_next_offset r) S
    \<and> chunks_total (cr_pending r) \<le> kMaxCryptoBufferSize"
  using crypto_run_sound [OF assms] by (auto simp: crypto_delivered_def crypto_inv_def crypto_available_drop)

theorem crypto_reassembly_witness:
  "crypto_available (snd (crypto_insert 0 [1, 2] (snd (crypto_insert 1 [2, 3] crypto_new)))) = [1, 2, 3]"
proof -
  let ?r = "snd (crypto_insert 0 [1, 2] (snd (crypto_insert 1 [2, 3] crypto_new)))"
  have "crypto_run [1, 2, 3] ?r []"
    by (intro crypto_frame crypto_start) (simp_all add: fits_def)
  from crypto_reassembly [OF this] show ?thesis
    by (simp add: crypto_insert_def crypto_new_def kMaxCryptoBufferSize_def)
qed

text \<open>
  The byte counter leaks: a retransmitted chunk whose offset is already pending is not
  stored again, but its length is added to \<^verbatim>\<open>pending_bytes\<close> and is never subtracted, so
  that repetitions of one chunk use up the 64 KiB limit while the stored octets stay the same.
\<close>

theorem crypto_duplicate_leaks:
  assumes "crypto_inv r" and "(off, w) \<in> set (cr_pending r)" and "d \<noteq> []"
    and "\<forall>k \<in> fst ` set (cr_pending r). cr_next_offset r < k"
    and "off \<le> cr_next_offset r + kMaxCryptoBufferSize"
    and "cr_pending_bytes r + length d \<le> kMaxCryptoBufferSize"
  shows "crypto_insert off d r = (True, r\<lparr>cr_pending_bytes := cr_pending_bytes r + length d\<rparr>)"
proof -
  have m: "map_emplace off d (cr_pending r) = cr_pending r"
    using assms(1,2) by (simp add: map_emplace_present crypto_inv_def)
  obtain k v m' where p: "cr_pending r = (k, v) # m'" using assms(2) by (cases "cr_pending r") auto
  have "cr_next_offset r < off" using assms(2,4) by force
  moreover have "cr_next_offset r < k" using assms(4) p by simp
  ultimately show ?thesis
    using assms(3,5,6) m p by (simp add: crypto_insert_def)
qed

theorem crypto_duplicate_leaks_witness:
  "crypto_insert 5 [1, 2] \<lparr>cr_pending = [(5, [1, 2])], cr_ready = [], cr_next_offset = 0, cr_ready_consumed = 0, cr_pending_bytes = 2\<rparr>
   = (True, \<lparr>cr_pending = [(5, [1, 2])], cr_ready = [], cr_next_offset = 0, cr_ready_consumed = 0, cr_pending_bytes = 4\<rparr>)"
  using crypto_duplicate_leaks [of "\<lparr>cr_pending = [(5, [1, 2])], cr_ready = [], cr_next_offset = 0,
      cr_ready_consumed = 0, cr_pending_bytes = 2\<rparr>" 5 "[1, 2]" "[1, 2]"]
  by (simp add: crypto_inv_def kMaxCryptoBufferSize_def)

end
