(* ===== verification/Quic_VarInt.thy ===== *)
theory Quic_VarInt
  imports Wavex_Prelude
begin

unbundle bit_operations_syntax

text \<open>
  The variable-length integers of QUIC: \<^verbatim>\<open>src/src/Network/QUIC/VarInt.cpp\<close>.  The
  two encoders, the decoder over a buffer and a cursor, the round trip, the
  minimal length, and the interpretation of the cursor-codec interface that the
  packet and frame codecs build on.
\<close>

section \<open>Model\<close>

definition varint_encoded_size :: "u64 \<Rightarrow> nat" where
  "varint_encoded_size val =
     (if val \<le> 0x3f then 1 else if val \<le> 0x3fff then 2
      else if val \<le> 0x3fffffff then 4 else 8)"

text \<open>What \<^verbatim>\<open>VarInt::encode(val, out)\<close> appends to \<open>out\<close>.\<close>

definition varint_encode :: "u64 \<Rightarrow> bytes" where
  "varint_encode val =
     (if val \<le> 0x3f then [ucast (val AND 0x3f)]
      else if val \<le> 0x3fff then
        [ucast (0x40 OR (drop_bit 8 val AND 0x3f)), octet val 0]
      else if val \<le> 0x3fffffff then
        [ucast (0x80 OR (drop_bit 24 val AND 0x3f)), octet val 16, octet val 8, octet val 0]
      else
        [ucast (0xc0 OR (drop_bit 56 val AND 0x3f)), octet val 48, octet val 40, octet val 32,
         octet val 24, octet val 16, octet val 8, octet val 0])"

text \<open>
  \<^verbatim>\<open>VarInt::encode(val, out, max_len)\<close>: writes to the front of a caller's array (of at
  least \<open>max_len\<close> octets) and returns the number of octets written, 0 when they do not fit.
\<close>

definition varint_encode_buf :: "u64 \<Rightarrow> bytes \<Rightarrow> nat \<Rightarrow> bytes \<times> nat" where
  "varint_encode_buf val out max_len =
     (let len = varint_encoded_size val in
      if max_len < len then (out, 0)
      else let w = (if len = 1 then [ucast (val AND 0x3f)]
             else if len = 2 then [ucast (0x40 OR (drop_bit 8 val AND 0x3f)), octet val 0]
             else if len = 4 then
               [ucast (0x80 OR (drop_bit 24 val AND 0x3f)), octet val 16, octet val 8, octet val 0]
             else
               [ucast (0xc0 OR (drop_bit 56 val AND 0x3f)), octet val 48, octet val 40, octet val 32,
                octet val 24, octet val 16, octet val 8, octet val 0])
           in (w @ drop len out, len))"

definition varint_decode :: "bytes \<Rightarrow> nat \<Rightarrow> (u64 \<times> nat) option" where
  "varint_decode buf cursor =
     (if cursor \<ge> length buf then None
      else let first = buf ! cursor;
               prefix = drop_bit 6 first AND 0x03;
               len = 2 ^ unat prefix
           in if cursor + len > length buf then None
              else Some (be_acc (ucast (first AND 0x3f)) (substr buf (cursor + 1) (len - 1)),
                         cursor + len))"

text \<open>The values that the format can carry.\<close>

definition varint_ok :: "u64 \<Rightarrow> bool" where
  "varint_ok val \<longleftrightarrow> unat val < 2 ^ 62"

text \<open>
  The idiom that the packet and frame codecs repeat around a length: a variable-length
  integer, the check that so many octets follow, and those octets.
\<close>

definition lv_encode :: "bytes \<Rightarrow> bytes" where
  "lv_encode data = varint_encode (of_nat (length data)) @ data"

definition lv_decode :: "bytes \<Rightarrow> nat \<Rightarrow> (bytes \<times> nat) option" where
  "lv_decode buf cursor =
     (case varint_decode buf cursor of
        None \<Rightarrow> None
      | Some (len, cursor) \<Rightarrow>
          if cursor + unat len > length buf then None
          else Some (substr buf cursor (unat len), cursor + unat len))"

definition lv_ok :: "bytes \<Rightarrow> bool" where
  "lv_ok data \<longleftrightarrow> length data < 2 ^ 62"

section \<open>Lemmas\<close>

lemma varint_encode_length: "length (varint_encode val) = varint_encoded_size val"
  by (simp add: varint_encode_def varint_encoded_size_def)

lemma varint_encoded_size_pos [simp]: "0 < varint_encoded_size val"
  by (simp add: varint_encoded_size_def)

lemma varint_encode_nonempty [simp]: "varint_encode val \<noteq> []"
  by (simp add: varint_encode_def)

lemma unat_high_or_low6:
  fixes y k :: u64
  assumes "unat k < 4"
  shows "unat (ucast (push_bit 6 k OR (y AND 0x3f)) :: u8) = 64 * unat k + unat y mod 64"
proof -
  have "push_bit 6 k AND take_bit 6 y = 0"
    by (rule bit_word_eqI) (auto simp: bit_simps)
  then have "push_bit 6 k OR (y AND 0x3f) = push_bit 6 k + (y AND 0x3f)"
    by (simp only: and_low_masks disjunctive_add_eq_or)
  moreover have "unat (push_bit 6 k) = 64 * unat k"
    using assms by (simp add: push_bit_eq_mult unat_word_ariths)
  moreover have "unat (y AND 0x3f) = unat y mod 64" by (simp only: unat_and_low_masks)
  ultimately have "unat (push_bit 6 k OR (y AND 0x3f)) = (64 * unat k + unat y mod 64) mod 2 ^ 64"
    by (simp add: unat_word_ariths)
  moreover have "64 * unat k + unat y mod 64 < 256"
    using assms mod_less_divisor [of 64 "unat y"] by linarith
  ultimately show ?thesis
    by (simp add: unsigned_ucast_eq take_bit_eq_mod)
qed

lemma unat_lead_octet:
  fixes y :: u64
  shows "unat (ucast (y AND 0x3f) :: u8) = unat y mod 64"
    and "unat (ucast (0x40 OR (y AND 0x3f)) :: u8) = 64 + unat y mod 64"
    and "unat (ucast (0x80 OR (y AND 0x3f)) :: u8) = 128 + unat y mod 64"
    and "unat (ucast (0xc0 OR (y AND 0x3f)) :: u8) = 192 + unat y mod 64"
  using unat_high_or_low6 [of 0 y] unat_high_or_low6 [of 1 y]
    unat_high_or_low6 [of 2 y] unat_high_or_low6 [of 3 y]
  by (simp_all add: push_bit_eq_mult)

text \<open>Decoding a lead octet \<open>b\<close> followed by the octets \<open>ts\<close>.\<close>

lemma varint_decode_lead:
  assumes buf: "drop c buf = b # ts @ rest"
    and len: "2 ^ (unat b div 64) = Suc (length ts)"
  shows "varint_decode buf c =
    Some (be_acc (ucast (b AND 0x3f)) ts, c + length ts + 1)"
proof -
  have c: "c < length buf" using buf by (metis drop_all leI list.distinct(1))
  have b: "buf ! c = b" using buf c by (metis hd_drop_conv_nth list.sel(1))
  have ts: "drop (Suc c) buf = ts @ rest"
    using buf by (metis drop_Suc list.sel(3) tl_drop)
  have "unat (drop_bit 6 b AND 0x03) = unat b div 64 mod 4"
    by (simp add: octet_simps unat_drop_bit)
  moreover have "unat b div 64 < 4" using u8_less [of b] by linarith
  ultimately have p: "unat (drop_bit 6 b AND 0x03) = unat b div 64" by simp
  have "c + Suc (length ts) \<le> length buf"
    using arg_cong [OF buf, of length] by simp
  then show ?thesis
    using c by (simp add: varint_decode_def Let_def b p len ts)
qed

lemma unat_be_acc_lead:
  assumes "unat (ucast (b AND 0x3f :: u8) :: u64) = h" and "length ts \<le> 7" and "h < 64"
  shows "unat (be_acc (ucast (b AND 0x3f) :: u64) ts) = h * 256 ^ length ts + be_nat ts"
proof -
  have "h * 256 ^ length ts \<le> 63 * 256 ^ length ts"
    using assms(3) by (intro mult_le_mono1) simp
  then have "h * 256 ^ length ts + be_nat ts < 64 * 256 ^ length ts"
    using be_nat_less [of ts] by linarith
  also have "\<dots> \<le> 64 * 256 ^ 7"
    using power_increasing [OF assms(2), of "256::nat"] by simp
  also have "\<dots> < 2 ^ 64" by simp
  finally show ?thesis
    by (simp add: unat_be_acc assms(1))
qed

lemma octets_1: "octets 1 w = [octet w 0]"
  using octets_Suc [of 0 w] by simp

lemma varint_encode_octets:
  "varint_encode val =
     (if unat val < 64 then ucast (val AND 0x3f) # octets 0 val
      else if unat val < 2 ^ 14 then ucast (0x40 OR (drop_bit 8 val AND 0x3f)) # octets 1 val
      else if unat val < 2 ^ 30 then ucast (0x80 OR (drop_bit 24 val AND 0x3f)) # octets 3 val
      else ucast (0xc0 OR (drop_bit 56 val AND 0x3f)) # octets 7 val)"
  by (simp add: varint_encode_def word_le_nat_alt octets_numeral octets_1 less_Suc_eq_le [symmetric]
      flip: One_nat_def)

lemma varint_decode_encode_at:
  assumes "varint_ok val" and "drop c buf = varint_encode val @ rest"
  shows "varint_decode buf c = Some (val, c + length (varint_encode val))"
proof -
  have v62: "unat val < 2 ^ 62" using assms(1) by (simp add: varint_ok_def)
  have step: "varint_decode buf c = Some (val, c + length (varint_encode val))"
    if enc: "varint_encode val = b # octets n val" and lead: "unat b = 64 * k + unat val div 256 ^ n"
      and pow: "2 ^ k = Suc n" and small: "unat val div 256 ^ n < 64" and "n \<le> 7" for b n k
  proof -
    have "unat b div 64 = k" using lead small by simp
    then have "varint_decode buf c = Some (be_acc (ucast (b AND 0x3f)) (octets n val), c + n + 1)"
      using varint_decode_lead [of c buf b "octets n val" rest] assms(2) enc pow by simp
    moreover have "unat (ucast (b AND 0x3f) :: u64) = unat val div 256 ^ n"
      using lead small by (simp add: unsigned_ucast_eq take_bit_eq_mod octet_simps)
    then have "unat (be_acc (ucast (b AND 0x3f) :: u64) (octets n val)) = unat val"
      using unat_be_acc_lead [of b "unat val div 256 ^ n" "octets n val"] small \<open>n \<le> 7\<close>
      by (simp add: octet_simps div_mult_mod_eq)
    then have "be_acc (ucast (b AND 0x3f) :: u64) (octets n val) = val"
      by (rule unsigned_word_eqI)
    ultimately show ?thesis by (simp add: enc)
  qed
  consider "unat val < 64" | "\<not> unat val < 64" "unat val < 2 ^ 14"
    | "\<not> unat val < 2 ^ 14" "unat val < 2 ^ 30" | "\<not> unat val < 2 ^ 30" by linarith
  then show ?thesis
  proof cases
    case 1
    then show ?thesis
      by (intro step [of "ucast (val AND 0x3f)" 0 0]) (simp_all add: varint_encode_octets unat_lead_octet)
  next
    case 2
    then show ?thesis
      by (intro step [of "ucast (0x40 OR (drop_bit 8 val AND 0x3f))" 1 1])
        (simp_all add: varint_encode_octets unat_lead_octet unat_drop_bit div_less_iff_less_mult)
  next
    case 3
    then show ?thesis
      by (intro step [of "ucast (0x80 OR (drop_bit 24 val AND 0x3f))" 3 2])
        (simp_all add: varint_encode_octets unat_lead_octet unat_drop_bit div_less_iff_less_mult)
  next
    case 4
    with v62 show ?thesis
      by (intro step [of "ucast (0xc0 OR (drop_bit 56 val AND 0x3f))" 7 3])
        (simp_all add: varint_encode_octets unat_lead_octet unat_drop_bit div_less_iff_less_mult)
  qed
qed

lemma varint_decode_bounds:
  assumes "varint_decode buf c = Some (v, c')"
  shows "c < c' \<and> c' \<le> length buf"
  using assms by (auto simp: varint_decode_def Let_def split: if_splits)

lemma varint_decode_ok: "varint_decode buf c = Some (v, c') \<Longrightarrow> varint_ok v"
proof -
  assume "varint_decode buf c = Some (v, c')"
  then obtain ts b where v: "v = be_acc (ucast (b AND 0x3f :: u8)) ts"
    and ts: "length ts \<le> 2 ^ unat (drop_bit 6 b AND 0x03) - 1"
    by (auto simp: varint_decode_def Let_def split: if_splits)
  have "unat (drop_bit 6 b AND 0x03) \<le> 3" by (simp add: octet_simps less_Suc_eq_le [symmetric])
  then have "(2::nat) ^ unat (drop_bit 6 b AND 0x03) \<le> 2 ^ 3"
    by (intro power_increasing) auto
  with ts have len: "length ts \<le> 7" by simp
  let ?h = "unat (ucast (b AND 0x3f) :: u64)"
  have h: "?h < 64" by (simp add: unsigned_ucast_eq take_bit_eq_mod octet_simps)
  have "?h * 256 ^ length ts \<le> 63 * 256 ^ length ts"
    using h by (intro mult_le_mono1) simp
  then have "?h * 256 ^ length ts + be_nat ts < 64 * 256 ^ length ts"
    using be_nat_less [of ts] by linarith
  also have "\<dots> \<le> 64 * 256 ^ 7"
    using power_increasing [OF len, of "256::nat"] by simp
  finally have "unat v < 64 * 256 ^ 7"
    unfolding v unat_be_acc_lead [OF refl len h] .
  then show "varint_ok v" by (simp add: varint_ok_def)
qed

interpretation varint: cursor_codec varint_encode varint_decode varint_ok
  by unfold_locales (auto simp: varint_decode_encode_at dest: varint_decode_bounds)

lemma drop_append_at:
  assumes "drop c buf = xs @ rest"
  shows "drop (c + length xs) buf = rest" and "take (length xs) (drop c buf) = xs"
    and "xs \<noteq> [] \<Longrightarrow> c + length xs \<le> length buf"
proof -
  show "drop (c + length xs) buf = rest"
    by (metis assms add.commute append_eq_conv_conj drop_drop)
  show "take (length xs) (drop c buf) = xs" by (simp add: assms)
  have "length xs \<le> length buf - c" using arg_cong [OF assms, of length] by simp
  moreover assume "xs \<noteq> []"
  ultimately show "c + length xs \<le> length buf" by (cases xs) auto
qed

lemma lv_decode_encode_at:
  assumes "lv_ok data" and "drop c buf = lv_encode data @ rest"
  shows "lv_decode buf c = Some (data, c + length (lv_encode data))"
proof -
  let ?n = "of_nat (length data) :: u64"
  have n: "unat ?n = length data"
    using assms(1) by (simp add: lv_ok_def unat_of_nat)
  have d: "drop c buf = varint_encode ?n @ data @ rest"
    using assms(2) by (simp add: lv_encode_def)
  let ?c = "c + length (varint_encode ?n)"
  have v: "varint_decode buf c = Some (?n, ?c)"
    using varint.dec_enc [OF _ d] assms(1) n by (simp add: varint_ok_def lv_ok_def)
  have r: "drop ?c buf = data @ rest" using d by (rule drop_append_at)
  have "?c + length data \<le> length buf"
    using drop_append_at(3) [of c buf "varint_encode ?n @ data" rest] d by simp
  then show ?thesis
    by (simp add: lv_decode_def v n r) (simp add: lv_encode_def)
qed

lemma lv_decode_bounds: "lv_decode buf c = Some (v, c') \<Longrightarrow> c < c' \<and> c' \<le> length buf"
  by (auto simp: lv_decode_def split: option.splits if_splits dest!: varint_decode_bounds)

interpretation lv: cursor_codec lv_encode lv_decode lv_ok
  by unfold_locales (auto simp: lv_decode_encode_at dest: lv_decode_bounds)

section \<open>Properties\<close>

text \<open>
  Every value below \<open>2\<^sup>6\<^sup>2\<close> that \<^verbatim>\<open>VarInt::encode\<close> writes at any
  position of a buffer is read back by \<^verbatim>\<open>VarInt::decode\<close> at that position, whatever
  surrounds it, and the cursor ends right behind the encoding.
\<close>

theorem varint_roundtrip:
  assumes "unat val < 2 ^ 62"
  shows "varint_decode (pre @ varint_encode val @ rest) (length pre)
       = Some (val, length pre + varint_encoded_size val)"
  using varint.dec_enc [of val "length pre" "pre @ varint_encode val @ rest" rest] assms
  by (simp add: varint_ok_def varint_encode_length)

theorem varint_roundtrip_witness:
  "varint_decode ([1, 2] @ varint_encode 0x3b9aca00 @ [9]) (length [1, 2 :: u8])
     = Some (0x3b9aca00, 2 + 4)"
  using varint_roundtrip [of "0x3b9aca00" "[1, 2]" "[9]"] by (simp add: varint_encoded_size_def)

text \<open>
  The buffer encoder is the string encoder with a capacity check: it writes exactly
  the octets that \<^verbatim>\<open>encode(val, out)\<close> appends, over the front of the caller's array and
  nowhere else, when they fit, and touches nothing and returns 0 otherwise.
\<close>

theorem varint_encode_buf_agrees:
  "varint_encode_buf val out max_len =
     (if length (varint_encode val) \<le> max_len
      then (varint_encode val @ drop (length (varint_encode val)) out, length (varint_encode val))
      else (out, 0))"
  by (simp add: varint_encode_buf_def Let_def varint_encode_length)
    (simp add: varint_encode_def varint_encoded_size_def)

end
