(* ===== verification/Quic_Packet.thy ===== *)
theory Quic_Packet
  imports Quic_VarInt Quic_ConnectionId
begin

unbundle bit_operations_syntax

text \<open>
  QUIC packet headers: \<^verbatim>\<open>src/src/Network/QUIC/QuicPacket.cpp\<close> with the types of
  \<^verbatim>\<open>QuicConstants.hpp\<close> and \<^verbatim>\<open>QuicPacket.hpp\<close>.  Packing appends to a string, modelled by the
  octets appended; unpacking reads a datagram into a header object that keeps what it
  held where the code does not assign, and fails with \<open>None\<close> where the code returns false.
\<close>

section \<open>Model\<close>

datatype packet_type = Initial | ZeroRTT | Handshake | Retry | OneRTT | VersionNegotiation

fun packet_type_code :: "packet_type \<Rightarrow> u8" where
  "packet_type_code Initial = 0"
| "packet_type_code ZeroRTT = 1"
| "packet_type_code Handshake = 2"
| "packet_type_code Retry = 3"
| "packet_type_code OneRTT = 4"
| "packet_type_code VersionNegotiation = 5"

text \<open>\<^verbatim>\<open>static_cast<PacketType>\<close> of a value below 4.\<close>

definition packet_type_of :: "u8 \<Rightarrow> packet_type" where
  "packet_type_of n = (if n = 0 then Initial else if n = 1 then ZeroRTT else if n = 2 then Handshake else Retry)"

fun space_index :: "packet_type \<Rightarrow> nat" where
  "space_index Initial = 0"
| "space_index Handshake = 1"
| "space_index _ = 2"

record packet_header =
  ph_token :: bytes
  ph_length :: u64
  ph_packet_number :: u64
  ph_version :: u32
  ph_pn_offset :: u32
  ph_dcid :: connection_id
  ph_scid :: connection_id
  ph_type :: packet_type
  ph_packet_number_len :: u8
  ph_is_long :: bool
  ph_key_phase :: bool

definition packet_header_default :: packet_header where
  "packet_header_default =
     \<lparr>ph_token = [], ph_length = 0, ph_packet_number = 0, ph_version = 1, ph_pn_offset = 0,
      ph_dcid = cid_default, ph_scid = cid_default, ph_type = OneRTT, ph_packet_number_len = 4,
      ph_is_long = False, ph_key_phase = False\<rparr>"

text \<open>A connection identifier in a long header: its length octet and its octets.\<close>

definition cid_field_encode :: "bytes \<Rightarrow> bytes" where
  "cid_field_encode cid = of_nat (length cid) # cid"

definition cid_field_decode :: "bytes \<Rightarrow> nat \<Rightarrow> (bytes \<times> nat) option" where
  "cid_field_decode raw cursor =
     (if cursor \<ge> length raw then None
      else let len = unat (raw ! cursor); cursor = cursor + 1 in
        if len > MAX_CONNECTION_ID_LEN \<or> cursor + len > length raw then None
        else Some (substr raw cursor len, cursor + len))"

definition pack_packet_header :: "packet_header \<Rightarrow> bytes" where
  "pack_packet_header hdr =
     (if ph_is_long hdr then
        [0xc0 OR push_bit 4 (packet_type_code (ph_type hdr) AND 0x03)
              OR ((ph_packet_number_len hdr - 1) AND 0x03)]
        @ [octet (ph_version hdr) 24, octet (ph_version hdr) 16, octet (ph_version hdr) 8,
           octet (ph_version hdr) 0]
        @ cid_field_encode (cid_view (ph_dcid hdr))
        @ cid_field_encode (cid_view (ph_scid hdr))
        @ (if ph_type hdr = Initial then lv_encode (ph_token hdr) else [])
        @ varint_encode (ph_length hdr)
        @ octets (unat (ph_packet_number_len hdr)) (ph_packet_number hdr)
      else
        [0x40 OR (if ph_key_phase hdr then 0x04 else 0) OR ((ph_packet_number_len hdr - 1) AND 0x03)]
        @ cid_view (ph_dcid hdr)
        @ octets (unat (ph_packet_number_len hdr)) (ph_packet_number hdr))"

text \<open>The common tail of both branches: the offset, and the number when it is in the buffer.\<close>

definition unpack_pn :: "bytes \<Rightarrow> nat \<Rightarrow> packet_header \<Rightarrow> packet_header" where
  "unpack_pn raw cursor hdr =
     (let hdr = hdr\<lparr>ph_pn_offset := of_nat cursor\<rparr>; n = unat (ph_packet_number_len hdr) in
      if cursor + n \<le> length raw then hdr\<lparr>ph_packet_number := be_acc 0 (substr raw cursor n)\<rparr>
      else hdr)"

definition unpack_long :: "bytes \<Rightarrow> u8 \<Rightarrow> packet_header \<Rightarrow> (packet_header \<times> nat) option" where
  "unpack_long raw first hdr =
     (let hdr = hdr\<lparr>ph_type := packet_type_of (drop_bit 4 first AND 0x03),
                    ph_packet_number_len := (first AND 0x03) + 1\<rparr>;
          cursor = 1 in
      if cursor + 4 > length raw then None
      else let hdr = hdr\<lparr>ph_version := be_acc 0 (substr raw cursor 4)\<rparr>; cursor = cursor + 4 in
        case cid_field_decode raw cursor of None \<Rightarrow> None | Some (dcid, cursor) \<Rightarrow>
        (let hdr = hdr\<lparr>ph_dcid := cid_of_view dcid\<rparr> in
         case cid_field_decode raw cursor of None \<Rightarrow> None | Some (scid, cursor) \<Rightarrow>
         (let hdr = hdr\<lparr>ph_scid := cid_of_view scid\<rparr> in
          case (if ph_type hdr = Initial then lv_decode raw cursor
                else Some (ph_token hdr, cursor)) of None \<Rightarrow> None | Some (token, cursor) \<Rightarrow>
          (case varint_decode raw cursor of None \<Rightarrow> None | Some (len, cursor) \<Rightarrow>
             Some (unpack_pn raw cursor (hdr\<lparr>ph_token := token, ph_length := len\<rparr>), cursor)))))"

definition unpack_short :: "bytes \<Rightarrow> u8 \<Rightarrow> packet_header \<Rightarrow> nat \<Rightarrow> (packet_header \<times> nat) option" where
  "unpack_short raw first hdr expected_dcid_len =
     (let hdr = hdr\<lparr>ph_type := OneRTT, ph_key_phase := first AND 0x04 \<noteq> 0,
                    ph_packet_number_len := (first AND 0x03) + 1\<rparr>;
          cursor = 1;
          dcid_len = (if expected_dcid_len > 0 then expected_dcid_len else 8) in
      if cursor + dcid_len > length raw then None
      else let hdr = hdr\<lparr>ph_dcid := cid_make (Some (drop cursor raw)) dcid_len\<rparr>;
               cursor = cursor + dcid_len
           in Some (unpack_pn raw cursor hdr, cursor))"

definition unpack_packet_header ::
    "bytes \<Rightarrow> packet_header \<Rightarrow> nat \<Rightarrow> (packet_header \<times> nat) option" where
  "unpack_packet_header raw hdr expected_dcid_len =
     (if raw = [] then None
      else let first = raw ! 0; hdr = hdr\<lparr>ph_is_long := first AND 0x80 \<noteq> 0\<rparr> in
        if ph_is_long hdr then unpack_long raw first hdr
        else unpack_short raw first hdr expected_dcid_len)"

text \<open>Headers that the wire format can carry.\<close>

definition packet_header_ok :: "packet_header \<Rightarrow> bool" where
  "packet_header_ok hdr \<longleftrightarrow>
     cid_wf (ph_dcid hdr) \<and> cid_wf (ph_scid hdr)
     \<and> 1 \<le> unat (ph_packet_number_len hdr) \<and> unat (ph_packet_number_len hdr) \<le> 4
     \<and> unat (ph_packet_number hdr) < 256 ^ unat (ph_packet_number_len hdr)
     \<and> varint_ok (ph_length hdr) \<and> lv_ok (ph_token hdr)"

section \<open>Lemmas\<close>

lemma cid_field_decode_encode_at:
  assumes "length cid \<le> MAX_CONNECTION_ID_LEN" and "drop c raw = cid_field_encode cid @ rest"
  shows "cid_field_decode raw c = Some (cid, c + length (cid_field_encode cid))"
proof -
  have n: "unat (of_nat (length cid) :: u8) = length cid"
    using assms(1) by (simp add: MAX_CONNECTION_ID_LEN_def unat_of_nat)
  have d: "drop c raw = of_nat (length cid) # cid @ rest"
    using assms(2) by (simp add: cid_field_encode_def)
  then have c: "c < length raw" by (metis drop_all leI list.distinct(1))
  have "raw ! c = of_nat (length cid)" using d c by (metis hd_drop_conv_nth list.sel(1))
  moreover have "drop (Suc c) raw = cid @ rest"
    using d by (metis drop_Suc list.sel(3) tl_drop)
  moreover have "Suc c + length cid \<le> length raw"
    using arg_cong [OF d, of length] c by simp
  ultimately show ?thesis
    using c n assms(1) by (simp add: cid_field_decode_def cid_field_encode_def Let_def)
qed

interpretation cid_field: cursor_codec cid_field_encode cid_field_decode
    "\<lambda>cid. length cid \<le> MAX_CONNECTION_ID_LEN"
proof
  show "cid_field_decode buf c = Some (v, c') \<Longrightarrow> c < c' \<and> c' \<le> length buf" for buf c v c'
    by (auto simp: cid_field_decode_def Let_def split: if_splits)
qed (rule cid_field_decode_encode_at)

lemma unpack_pn_fields [simp]:
  "ph_pn_offset (unpack_pn raw c hdr) = of_nat c"
  "ph_token (unpack_pn raw c hdr) = ph_token hdr"
  "ph_length (unpack_pn raw c hdr) = ph_length hdr"
  "ph_version (unpack_pn raw c hdr) = ph_version hdr"
  "ph_dcid (unpack_pn raw c hdr) = ph_dcid hdr"
  "ph_scid (unpack_pn raw c hdr) = ph_scid hdr"
  "ph_type (unpack_pn raw c hdr) = ph_type hdr"
  "ph_packet_number_len (unpack_pn raw c hdr) = ph_packet_number_len hdr"
  "ph_is_long (unpack_pn raw c hdr) = ph_is_long hdr"
  "ph_key_phase (unpack_pn raw c hdr) = ph_key_phase hdr"
  by (simp_all add: unpack_pn_def Let_def)

lemma unpack_pn_number:
  fixes pn :: u64
  assumes "drop c raw = octets n pn @ rest" and "n = unat (ph_packet_number_len hdr)"
    and "0 < n" and "n \<le> 4" and "unat pn < 256 ^ n"
  shows "ph_packet_number (unpack_pn raw c hdr) = pn"
proof -
  have "c + n \<le> length raw"
    using drop_append_at(3) [OF assms(1)] assms(3) by (simp flip: length_greater_0_conv)
  moreover have "take n (drop c raw) = octets n pn"
    using drop_append_at(2) [OF assms(1)] by simp
  moreover have "be_acc 0 (octets n pn) = pn"
  proof (rule unsigned_word_eqI [where ?'a = nat])
    have "(256::nat) ^ n \<le> 256 ^ 4" using assms(4) by (intro power_increasing) auto
    then show "unat (be_acc 0 (octets n pn) :: u64) = unat pn"
      using assms(5) by (subst unat_be_acc_0) (simp_all add: octet_simps)
  qed
  ultimately show ?thesis using assms(2) by (simp add: unpack_pn_def Let_def)
qed

lemma be_acc_octets_4: "be_acc 0 [octet v 24, octet v 16, octet v 8, octet v 0] = (v :: u32)"
proof (rule unsigned_word_eqI [where ?'a = nat])
  have o: "[octet v 24, octet v 16, octet v 8, octet v 0] = octets 4 v"
    by (simp add: octets_numeral octets_1 flip: One_nat_def)
  show "unat (be_acc 0 [octet v 24, octet v 16, octet v 8, octet v 0] :: u32) = unat v"
    unfolding o by (subst unat_be_acc_0)
      (use unsigned_less [of v, where ?'a = nat] in \<open>simp_all add: octet_simps\<close>)
qed

text \<open>The first octet of both forms, read back.\<close>

lemma first_octet_long:
  fixes l t :: u8
  assumes "t \<in> {0, 1, 2, 3}" and "l \<in> {1, 2, 3, 4}"
  defines "f \<equiv> 0xc0 OR push_bit 4 (t AND 0x03) OR ((l - 1) AND 0x03)"
  shows "f AND 0x80 \<noteq> 0 \<and> drop_bit 4 f AND 0x03 = t \<and> (f AND 0x03) + 1 = l"
  using assms(1,2) unfolding f_def by auto

lemma first_octet_short:
  fixes l :: u8 and k :: bool
  assumes "l \<in> {1, 2, 3, 4}"
  defines "f \<equiv> 0x40 OR (if k then 0x04 else 0) OR ((l - 1) AND 0x03)"
  shows "f AND 0x80 = 0 \<and> (f AND 0x04 \<noteq> 0 \<longleftrightarrow> k) \<and> (f AND 0x03) + 1 = l"
  using assms(1) unfolding f_def by (cases k) auto

lemma u8_between_1_4:
  assumes "1 \<le> unat (l :: u8)" and "unat l \<le> 4"
  shows "l \<in> {1, 2, 3, 4}"
proof -
  have "unat l \<in> {1, 2, 3, 4}" using assms by auto
  then have "word_of_nat (unat l) \<in> ({1, 2, 3, 4} :: u8 set)" by (elim insertE) simp_all
  then show ?thesis by simp
qed

lemmas header_ok_simps = packet_header_ok_def length_cid_view cid_wf_def

lemma packet_type_of_code:
  assumes "t \<noteq> OneRTT" and "t \<noteq> VersionNegotiation"
  shows "packet_type_code t \<in> {0, 1, 2, 3} \<and> packet_type_of (packet_type_code t) = t"
  using assms by (cases t) (simp_all add: packet_type_of_def)

lemma unpack_long_pack:
  assumes ok: "packet_header_ok hdr" and long: "ph_is_long hdr"
    and t: "ph_type hdr \<noteq> OneRTT" "ph_type hdr \<noteq> VersionNegotiation"
  shows "\<exists>hdr'. unpack_packet_header (pack_packet_header hdr @ payload) h0 e
      = Some (hdr', length (pack_packet_header hdr) - unat (ph_packet_number_len hdr))
    \<and> ph_is_long hdr' \<and> ph_type hdr' = ph_type hdr \<and> ph_version hdr' = ph_version hdr
    \<and> cid_eq (ph_dcid hdr') (ph_dcid hdr) \<and> cid_eq (ph_scid hdr') (ph_scid hdr)
    \<and> ph_token hdr' = (if ph_type hdr = Initial then ph_token hdr else ph_token h0)
    \<and> ph_length hdr' = ph_length hdr
    \<and> ph_packet_number_len hdr' = ph_packet_number_len hdr
    \<and> ph_packet_number hdr' = ph_packet_number hdr"
proof -
  let ?n = "unat (ph_packet_number_len hdr)"
  let ?d = "cid_view (ph_dcid hdr)" and ?s = "cid_view (ph_scid hdr)"
  let ?tok = "if ph_type hdr = Initial then lv_encode (ph_token hdr) else []"
  let ?pn = "octets ?n (ph_packet_number hdr)"
  define raw where "raw = pack_packet_header hdr @ payload"
  have n: "1 \<le> ?n" "?n \<le> 4" using ok by (auto simp: packet_header_ok_def)
  obtain f where f: "f AND 0x80 \<noteq> 0" "packet_type_of (drop_bit 4 f AND 0x03) = ph_type hdr"
      "(f AND 0x03) + 1 = ph_packet_number_len hdr"
    and raw: "raw = f # [octet (ph_version hdr) 24, octet (ph_version hdr) 16,
        octet (ph_version hdr) 8, octet (ph_version hdr) 0]
      @ cid_field_encode ?d @ cid_field_encode ?s @ ?tok @ varint_encode (ph_length hdr) @ ?pn @ payload"
    using first_octet_long [OF packet_type_of_code [OF t, THEN conjunct1] u8_between_1_4 [OF n]]
      packet_type_of_code [OF t] long
    by (auto simp: raw_def pack_packet_header_def)
  have cl: "length ?d \<le> MAX_CONNECTION_ID_LEN" "length ?s \<le> MAX_CONNECTION_ID_LEN"
    using ok by (auto simp: header_ok_simps)
  let ?c1 = "5 + length (cid_field_encode ?d)"
  let ?c2 = "?c1 + length (cid_field_encode ?s)"
  let ?c3 = "?c2 + length ?tok"
  let ?c4 = "?c3 + length (varint_encode (ph_length hdr))"
  have d0: "drop 5 raw = cid_field_encode ?d @ cid_field_encode ?s @ ?tok
      @ varint_encode (ph_length hdr) @ ?pn @ payload"
    unfolding raw by simp
  note d1 = cid_field.drop_after [OF d0]
  note d2 = cid_field.drop_after [OF d1]
  have d3: "drop ?c3 raw = varint_encode (ph_length hdr) @ ?pn @ payload"
    by (rule drop_append_at(1)) (fact d2)
  note d4 = varint.drop_after [OF d3]
  have r1: "cid_field_decode raw 5 = Some (?d, ?c1)" by (rule cid_field.dec_enc [OF cl(1) d0])
  have r2: "cid_field_decode raw ?c1 = Some (?s, ?c2)" by (rule cid_field.dec_enc [OF cl(2) d1])
  have r3: "lv_decode raw ?c2 = Some (ph_token hdr, ?c3)" if "ph_type hdr = Initial"
    using lv.dec_enc [of "ph_token hdr" ?c2 raw] d2 that ok by (simp add: packet_header_ok_def)
  have r4: "varint_decode raw ?c3 = Some (ph_length hdr, ?c4)"
    using ok by (intro varint.dec_enc [OF _ d3]) (simp add: packet_header_ok_def)
  have len: "length raw \<ge> 5" "raw \<noteq> []" "raw ! 0 = f" unfolding raw by simp_all
  have v: "be_acc 0 (take 4 (drop (Suc 0) raw)) = ph_version hdr"
    unfolding raw by (simp add: be_acc_octets_4)
  have hl: "length (pack_packet_header hdr) - ?n = ?c4"
    using long by (simp add: pack_packet_header_def)
  define h1 where "h1 = h0\<lparr>ph_is_long := True, ph_type := ph_type hdr,
      ph_packet_number_len := ph_packet_number_len hdr, ph_version := ph_version hdr,
      ph_dcid := cid_of_view ?d, ph_scid := cid_of_view ?s,
      ph_token := (if ph_type hdr = Initial then ph_token hdr else ph_token h0),
      ph_length := ph_length hdr\<rparr>"
  have "unpack_packet_header raw h0 e = Some (unpack_pn raw ?c4 h1, ?c4)"
    using len f r3 r4 by (auto simp: unpack_packet_header_def unpack_long_def Let_def r1 r2 v h1_def)
  moreover have "ph_packet_number (unpack_pn raw ?c4 h1) = ph_packet_number hdr"
    using ok n by (intro unpack_pn_number [OF d4]) (simp_all add: h1_def packet_header_ok_def)
  moreover have "cid_eq (cid_of_view ?d) (ph_dcid hdr)" "cid_eq (cid_of_view ?s) (ph_scid hdr)"
    using cl ok by (simp_all add: cid_eq_iff cid_of_view_view packet_header_ok_def)
  ultimately show ?thesis
    unfolding raw_def [symmetric] hl by (simp add: h1_def)
qed

lemma unpack_short_pack:
  assumes ok: "packet_header_ok hdr" and short: "\<not> ph_is_long hdr" "cid_length (ph_dcid hdr) \<noteq> 0"
  shows "\<exists>hdr'. unpack_packet_header (pack_packet_header hdr @ payload) h0 (cid_length (ph_dcid hdr))
      = Some (hdr', length (pack_packet_header hdr) - unat (ph_packet_number_len hdr))
    \<and> \<not> ph_is_long hdr' \<and> ph_type hdr' = OneRTT \<and> ph_key_phase hdr' = ph_key_phase hdr
    \<and> cid_eq (ph_dcid hdr') (ph_dcid hdr)
    \<and> ph_packet_number_len hdr' = ph_packet_number_len hdr
    \<and> ph_packet_number hdr' = ph_packet_number hdr"
proof -
  let ?n = "unat (ph_packet_number_len hdr)"
  let ?d = "cid_view (ph_dcid hdr)" and ?l = "cid_length (ph_dcid hdr)"
  let ?pn = "octets ?n (ph_packet_number hdr)"
  define raw where "raw = pack_packet_header hdr @ payload"
  have n: "1 \<le> ?n" "?n \<le> 4" using ok by (auto simp: packet_header_ok_def)
  obtain f where f: "f AND 0x80 = 0" "(f AND 0x04 \<noteq> 0) = ph_key_phase hdr"
      "(f AND 0x03) + 1 = ph_packet_number_len hdr"
    and raw: "raw = f # ?d @ ?pn @ payload"
    using first_octet_short [OF u8_between_1_4 [OF n], of "ph_key_phase hdr"] short
    by (auto simp: raw_def pack_packet_header_def)
  have cl: "length ?d = ?l" "?l \<le> MAX_CONNECTION_ID_LEN" "cid_wf (ph_dcid hdr)"
    using ok by (auto simp: header_ok_simps)
  have d1: "drop (1 + ?l) raw = ?pn @ payload" unfolding raw using cl by simp
  have len: "1 + ?l \<le> length raw" "raw \<noteq> []" "raw ! 0 = f" unfolding raw using cl by simp_all
  have hl: "length (pack_packet_header hdr) - ?n = 1 + ?l"
    using short cl by (simp add: pack_packet_header_def)
  define h1 where "h1 = h0\<lparr>ph_is_long := False, ph_type := OneRTT, ph_key_phase := ph_key_phase hdr,
      ph_packet_number_len := ph_packet_number_len hdr,
      ph_dcid := cid_make (Some (drop 1 raw)) ?l\<rparr>"
  have "unpack_packet_header raw h0 ?l = Some (unpack_pn raw (1 + ?l) h1, 1 + ?l)"
    using len f short by (auto simp: unpack_packet_header_def unpack_short_def Let_def h1_def)
  moreover have "ph_packet_number (unpack_pn raw (1 + ?l) h1) = ph_packet_number hdr"
    using ok n by (intro unpack_pn_number [OF d1]) (simp_all add: h1_def packet_header_ok_def)
  moreover have "cid_eq (cid_make (Some (drop 1 raw)) ?l) (ph_dcid hdr)"
    using cl len(1) by (subst cid_eq_iff) (simp_all add: cid_make_wf cid_make_view raw)
  ultimately show ?thesis
    unfolding raw_def [symmetric] hl by (simp add: h1_def)
qed

lemma unpack_long_bounds:
  "unpack_long raw f h0 = Some (hdr, n) \<Longrightarrow> 0 < n \<and> n \<le> length raw"
  by (auto simp: unpack_long_def Let_def split: if_splits option.splits
      dest!: cid_field.dec_bounds varint_decode_bounds lv_decode_bounds)

lemma unpack_short_bounds:
  "unpack_short raw f h0 e = Some (hdr, n) \<Longrightarrow> 0 < n \<and> n \<le> length raw"
  by (auto simp: unpack_short_def Let_def split: if_splits)

section \<open>Properties\<close>

text \<open>
  A long header (Initial, 0-RTT, Handshake or Retry) that was packed in front of any payload
  is unpacked to the same type, version, connection identifiers, token, length and packet
  number, whatever the receiving header object held, and the reported header length ends
  right before the packet number.
\<close>

theorem long_header_roundtrip:
  assumes "packet_header_ok hdr" and "ph_is_long hdr"
    and "ph_type hdr \<noteq> OneRTT" and "ph_type hdr \<noteq> VersionNegotiation"
  shows "\<exists>hdr'. unpack_packet_header (pack_packet_header hdr @ payload) h0 e
      = Some (hdr', length (pack_packet_header hdr) - unat (ph_packet_number_len hdr))
    \<and> ph_is_long hdr' \<and> ph_type hdr' = ph_type hdr \<and> ph_version hdr' = ph_version hdr
    \<and> cid_eq (ph_dcid hdr') (ph_dcid hdr) \<and> cid_eq (ph_scid hdr') (ph_scid hdr)
    \<and> ph_token hdr' = (if ph_type hdr = Initial then ph_token hdr else ph_token h0)
    \<and> ph_length hdr' = ph_length hdr
    \<and> ph_packet_number_len hdr' = ph_packet_number_len hdr
    \<and> ph_packet_number hdr' = ph_packet_number hdr"
  using assms by (rule unpack_long_pack)

theorem long_header_roundtrip_witness:
  "\<exists>hdr'. unpack_packet_header (pack_packet_header (packet_header_default
        \<lparr>ph_is_long := True, ph_type := Initial, ph_token := [7], ph_packet_number := 300\<rparr>) @ [1])
        packet_header_default 0 = Some (hdr', 10) \<and> ph_packet_number hdr' = 300"
  using long_header_roundtrip [of "packet_header_default
      \<lparr>ph_is_long := True, ph_type := Initial, ph_token := [7], ph_packet_number := 300\<rparr>" "[1]"
      packet_header_default 0]
  by (auto simp: packet_header_ok_def packet_header_default_def varint_ok_def lv_ok_def
      pack_packet_header_def cid_field_encode_def cid_view_def cid_default_def cid_wf_def lv_encode_def
      varint_encode_length varint_encoded_size_def)

text \<open>
  A short header packed in front of any payload is unpacked, by a receiver that knows
  the length of the connection identifiers it issued, to the same key phase, connection
  identifier and packet number.
\<close>

theorem short_header_roundtrip:
  assumes "packet_header_ok hdr" and "\<not> ph_is_long hdr" and "cid_length (ph_dcid hdr) \<noteq> 0"
  shows "\<exists>hdr'. unpack_packet_header (pack_packet_header hdr @ payload) h0 (cid_length (ph_dcid hdr))
      = Some (hdr', length (pack_packet_header hdr) - unat (ph_packet_number_len hdr))
    \<and> \<not> ph_is_long hdr' \<and> ph_type hdr' = OneRTT \<and> ph_key_phase hdr' = ph_key_phase hdr
    \<and> cid_eq (ph_dcid hdr') (ph_dcid hdr)
    \<and> ph_packet_number_len hdr' = ph_packet_number_len hdr
    \<and> ph_packet_number hdr' = ph_packet_number hdr"
  using assms by (rule unpack_short_pack)

theorem short_header_roundtrip_witness:
  "\<exists>hdr'. unpack_packet_header (pack_packet_header (packet_header_default
        \<lparr>ph_dcid := cid_of_view [1, 2, 3], ph_key_phase := True, ph_packet_number := 77\<rparr>) @ [1])
        packet_header_default 3 = Some (hdr', 4) \<and> ph_packet_number hdr' = 77 \<and> ph_key_phase hdr'"
  using short_header_roundtrip [of "packet_header_default
      \<lparr>ph_dcid := cid_of_view [1, 2, 3], ph_key_phase := True, ph_packet_number := 77\<rparr>" "[1]"
      packet_header_default]
  by (auto simp: packet_header_ok_def packet_header_default_def varint_ok_def lv_ok_def
      pack_packet_header_def cid_view_def cid_of_view_def cid_make_def MAX_CONNECTION_ID_LEN_def
      cid_wf_def cid_default_def numeral_3_eq_3)

end
