(* ===== verification/Quic_Frames.thy ===== *)
theory Quic_Frames
  imports Quic_VarInt Quic_ConnectionId "HOL-Library.Monad_Syntax"
begin

unbundle bit_operations_syntax

text \<open>
  QUIC frames: \<^verbatim>\<open>src/src/Network/QUIC/QuicFrames.cpp\<close> and the frame structures of its header.
  A frame is a value of a datatype with the members of the variant; the string views of
  the code are the octets they show.  Serialisation gives the octets appended to the
  output; the parser is the code's loop over a payload and a cursor, one definition per
  frame type, and returns the frames it delivered and whether it reached the end.
\<close>

section \<open>Frames\<close>

record ack_range =
  gap :: u64
  ack_range_len :: u64

record ack_frame =
  ack_ranges :: "ack_range list"
  largest_acknowledged :: u64
  ack_delay :: u64
  ack_ecn :: bool

record stream_frame =
  sf_data :: bytes
  sf_stream_id :: u64
  sf_offset :: u64
  sf_fin :: bool
  sf_has_offset :: bool
  sf_has_length :: bool

datatype frame =
    PaddingFrame (pad_length: u32)
  | PingFrame
  | AckFrame ack_frame
  | ResetStreamFrame (rs_stream_id: u64) (rs_error_code: u64) (rs_final_size: u64)
  | StopSendingFrame (ss_stream_id: u64) (ss_error_code: u64)
  | CryptoFrame (crypto_offset: u64) (crypto_data: bytes)
  | NewTokenFrame (nt_token: bytes)
  | StreamFrame stream_frame
  | MaxDataFrame (md_max_data: u64)
  | MaxStreamDataFrame (msd_stream_id: u64) (msd_max_stream_data: u64)
  | MaxStreamsFrame (ms_max_streams: u64) (ms_bidirectional: bool)
  | DataBlockedFrame (db_data_limit: u64)
  | StreamDataBlockedFrame (sdb_stream_id: u64) (sdb_stream_data_limit: u64)
  | StreamsBlockedFrame (sb_stream_limit: u64) (sb_bidirectional: bool)
  | ConnectionCloseFrame (cc_reason_phrase: bytes) (cc_error_code: u64) (cc_frame_type: u64)
      (cc_is_application: bool)
  | HandshakeDoneFrame
  | DatagramFrame (dg_data: bytes)

section \<open>Serialisation\<close>

definition serialize_ack_range :: "ack_range \<Rightarrow> bytes" where
  "serialize_ack_range r = varint_encode (gap r) @ varint_encode (ack_range_len r)"

definition stream_frame_type :: "stream_frame \<Rightarrow> u8" where
  "stream_frame_type f = 0x08 OR (if sf_has_offset f then 0x04 else 0)
     OR (if sf_has_length f then 0x02 else 0) OR (if sf_fin f then 0x01 else 0)"

fun serialize_frame :: "frame \<Rightarrow> bytes" where
  "serialize_frame (PaddingFrame n) = replicate (unat n) 0"
| "serialize_frame PingFrame = varint_encode 0x01"
| "serialize_frame (AckFrame f) =
     varint_encode 0x02 @ varint_encode (largest_acknowledged f) @ varint_encode (ack_delay f)
     @ varint_encode (if ack_ranges f = [] then 0 else of_nat (length (ack_ranges f)) - 1)
     @ varint_encode (if ack_ranges f = [] then 0 else ack_range_len (ack_ranges f ! 0))
     @ concat (map serialize_ack_range (drop 1 (ack_ranges f)))"
| "serialize_frame (ResetStreamFrame sid err fin) =
     varint_encode 0x04 @ varint_encode sid @ varint_encode err @ varint_encode fin"
| "serialize_frame (StopSendingFrame sid err) =
     varint_encode 0x05 @ varint_encode sid @ varint_encode err"
| "serialize_frame (CryptoFrame off dat) =
     varint_encode 0x06 @ varint_encode off @ varint_encode (of_nat (length dat)) @ dat"
| "serialize_frame (NewTokenFrame tok) =
     varint_encode 0x07 @ varint_encode (of_nat (length tok)) @ tok"
| "serialize_frame (StreamFrame f) =
     [stream_frame_type f] @ varint_encode (sf_stream_id f)
     @ (if sf_has_offset f then varint_encode (sf_offset f) else [])
     @ (if sf_has_length f then varint_encode (of_nat (length (sf_data f))) else [])
     @ sf_data f"
| "serialize_frame (MaxDataFrame m) = varint_encode 0x10 @ varint_encode m"
| "serialize_frame (MaxStreamDataFrame sid m) =
     varint_encode 0x11 @ varint_encode sid @ varint_encode m"
| "serialize_frame (MaxStreamsFrame m bidi) =
     varint_encode (if bidi then 0x12 else 0x13) @ varint_encode m"
| "serialize_frame (DataBlockedFrame m) = varint_encode 0x14 @ varint_encode m"
| "serialize_frame (StreamDataBlockedFrame sid m) =
     varint_encode 0x15 @ varint_encode sid @ varint_encode m"
| "serialize_frame (StreamsBlockedFrame m bidi) =
     varint_encode (if bidi then 0x16 else 0x17) @ varint_encode m"
| "serialize_frame (ConnectionCloseFrame reason err ft app) =
     varint_encode (if app then 0x1d else 0x1c) @ varint_encode err
     @ (if \<not> app then varint_encode ft else [])
     @ varint_encode (of_nat (length reason)) @ reason"
| "serialize_frame HandshakeDoneFrame = varint_encode 0x1e"
| "serialize_frame (DatagramFrame dat) =
     varint_encode 0x31 @ varint_encode (of_nat (length dat)) @ dat"

section \<open>Parsing\<close>

text \<open>
  A parser of one frame body: \<open>None\<close> is a failed decode; otherwise the frame, if the code
  delivers one for that type, and the new cursor.
\<close>

type_synonym frame_result = "(frame option \<times> nat) option"

text \<open>STREAM; \<open>cursor\<close> is behind the type octet \<open>peek\<close>.\<close>

definition parse_stream :: "bytes \<Rightarrow> nat \<Rightarrow> u8 \<Rightarrow> frame_result" where
  "parse_stream payload cursor peek =
     (let has_offset = (peek AND 0x04 \<noteq> 0); has_length = (peek AND 0x02 \<noteq> 0);
          fin = (peek AND 0x01 \<noteq> 0) in
      do { (stream_id, cursor) \<leftarrow> varint_decode payload cursor;
           (offset, cursor) \<leftarrow> (if has_offset then varint_decode payload cursor else Some (0, cursor));
           (len, cursor) \<leftarrow> (if has_length then map_option (apfst unat) (varint_decode payload cursor)
                             else Some (length payload - cursor, cursor));
           if cursor + len > length payload then None
           else Some (Some (StreamFrame \<lparr>sf_data = substr payload cursor len, sf_stream_id = stream_id,
                        sf_offset = offset, sf_fin = fin, sf_has_offset = has_offset,
                        sf_has_length = has_length\<rparr>), cursor + len) })"

text \<open>PADDING; the type octet is consumed, further zero octets are merged.\<close>

definition parse_padding :: "bytes \<Rightarrow> nat \<Rightarrow> frame_result" where
  "parse_padding payload cursor =
     (let n = length (takeWhile (\<lambda>b. b = 0) (drop cursor payload))
      in Some (Some (PaddingFrame (1 + of_nat n)), cursor + n))"

fun parse_ack_ranges :: "bytes \<Rightarrow> nat \<Rightarrow> nat \<Rightarrow> (ack_range list \<times> nat) option" where
  "parse_ack_ranges payload cursor 0 = Some ([], cursor)"
| "parse_ack_ranges payload cursor (Suc n) =
     do { (g, cursor) \<leftarrow> varint_decode payload cursor;
          (len, cursor) \<leftarrow> varint_decode payload cursor;
          (rs, cursor) \<leftarrow> parse_ack_ranges payload cursor n;
          Some (\<lparr>gap = g, ack_range_len = len\<rparr> # rs, cursor) }"

definition parse_ack :: "bytes \<Rightarrow> nat \<Rightarrow> bool \<Rightarrow> frame_result" where
  "parse_ack payload cursor ecn =
     do { (largest, cursor) \<leftarrow> varint_decode payload cursor;
          (delay, cursor) \<leftarrow> varint_decode payload cursor;
          (range_count, cursor) \<leftarrow> varint_decode payload cursor;
          (first_range, cursor) \<leftarrow> varint_decode payload cursor;
          (rs, cursor) \<leftarrow> parse_ack_ranges payload cursor (unat range_count);
          cursor \<leftarrow> (if ecn then
              do { (_, cursor) \<leftarrow> varint_decode payload cursor;
                   (_, cursor) \<leftarrow> varint_decode payload cursor;
                   (_, cursor) \<leftarrow> varint_decode payload cursor;
                   Some cursor }
            else Some cursor);
          Some (Some (AckFrame \<lparr>ack_ranges = \<lparr>gap = 0, ack_range_len = first_range\<rparr> # rs,
                    largest_acknowledged = largest, ack_delay = delay, ack_ecn = ecn\<rparr>), cursor) }"

definition parse_v1 :: "(u64 \<Rightarrow> frame) \<Rightarrow> bytes \<Rightarrow> nat \<Rightarrow> frame_result" where
  "parse_v1 mk payload cursor =
     do { (a, cursor) \<leftarrow> varint_decode payload cursor; Some (Some (mk a), cursor) }"

definition parse_v2 :: "(u64 \<Rightarrow> u64 \<Rightarrow> frame) \<Rightarrow> bytes \<Rightarrow> nat \<Rightarrow> frame_result" where
  "parse_v2 mk payload cursor =
     do { (a, cursor) \<leftarrow> varint_decode payload cursor;
          (b, cursor) \<leftarrow> varint_decode payload cursor;
          Some (Some (mk a b), cursor) }"

definition parse_reset_stream :: "bytes \<Rightarrow> nat \<Rightarrow> frame_result" where
  "parse_reset_stream payload cursor =
     do { (stream_id, cursor) \<leftarrow> varint_decode payload cursor;
          (error_code, cursor) \<leftarrow> varint_decode payload cursor;
          (final_size, cursor) \<leftarrow> varint_decode payload cursor;
          Some (Some (ResetStreamFrame stream_id error_code final_size), cursor) }"

definition parse_crypto :: "bytes \<Rightarrow> nat \<Rightarrow> frame_result" where
  "parse_crypto payload cursor =
     do { (offset, cursor) \<leftarrow> varint_decode payload cursor;
          (len, cursor) \<leftarrow> varint_decode payload cursor;
          if cursor + unat len > length payload then None
          else Some (Some (CryptoFrame offset (substr payload cursor (unat len))), cursor + unat len) }"

definition parse_new_token :: "bytes \<Rightarrow> nat \<Rightarrow> frame_result" where
  "parse_new_token payload cursor =
     do { (len, cursor) \<leftarrow> varint_decode payload cursor;
          if cursor + unat len > length payload then None
          else Some (Some (NewTokenFrame (substr payload cursor (unat len))), cursor + unat len) }"

definition parse_connection_close :: "bytes \<Rightarrow> nat \<Rightarrow> bool \<Rightarrow> frame_result" where
  "parse_connection_close payload cursor is_application =
     do { (error_code, cursor) \<leftarrow> varint_decode payload cursor;
          (frame_type, cursor) \<leftarrow> (if \<not> is_application then varint_decode payload cursor
                                   else Some (0, cursor));
          (r_len, cursor) \<leftarrow> varint_decode payload cursor;
          if cursor + unat r_len > length payload then None
          else Some (Some (ConnectionCloseFrame (substr payload cursor (unat r_len)) error_code
                       frame_type is_application), cursor + unat r_len) }"

definition parse_new_connection_id :: "bytes \<Rightarrow> nat \<Rightarrow> frame_result" where
  "parse_new_connection_id payload cursor =
     do { (seq_num, cursor) \<leftarrow> varint_decode payload cursor;
          (retire_prior_to, cursor) \<leftarrow> varint_decode payload cursor;
          if cursor \<ge> length payload then None
          else let cid_len = unat (payload ! cursor); cursor = cursor + 1 in
            if cid_len < 1 \<or> cid_len > MAX_CONNECTION_ID_LEN \<or> cursor + cid_len + 16 > length payload
            then None
            else Some (None, cursor + (cid_len + 16)) }"

definition parse_retire_connection_id :: "bytes \<Rightarrow> nat \<Rightarrow> frame_result" where
  "parse_retire_connection_id payload cursor =
     do { (seq_num, cursor) \<leftarrow> varint_decode payload cursor; Some (None, cursor) }"

definition parse_path :: "bytes \<Rightarrow> nat \<Rightarrow> frame_result" where
  "parse_path payload cursor = (if cursor + 8 > length payload then None else Some (None, cursor + 8))"

definition parse_datagram_with_length :: "bytes \<Rightarrow> nat \<Rightarrow> frame_result" where
  "parse_datagram_with_length payload cursor =
     do { (dlen, cursor) \<leftarrow> varint_decode payload cursor;
          if cursor + unat dlen > length payload then None
          else Some (Some (DatagramFrame (substr payload cursor (unat dlen))), cursor + unat dlen) }"

text \<open>The dispatch on the frame type; an unknown type is an error.\<close>

definition parse_typed :: "u64 \<Rightarrow> bytes \<Rightarrow> nat \<Rightarrow> frame_result" where
  "parse_typed raw_type payload cursor =
     (if raw_type = 0x00 then parse_padding payload cursor
      else if raw_type = 0x01 then Some (Some PingFrame, cursor)
      else if raw_type = 0x02 \<or> raw_type = 0x03 then parse_ack payload cursor (raw_type = 0x03)
      else if raw_type = 0x04 then parse_reset_stream payload cursor
      else if raw_type = 0x05 then parse_v2 StopSendingFrame payload cursor
      else if raw_type = 0x06 then parse_crypto payload cursor
      else if raw_type = 0x07 then parse_new_token payload cursor
      else if raw_type = 0x10 then parse_v1 MaxDataFrame payload cursor
      else if raw_type = 0x11 then parse_v2 MaxStreamDataFrame payload cursor
      else if raw_type = 0x12 \<or> raw_type = 0x13 then
        parse_v1 (\<lambda>m. MaxStreamsFrame m (raw_type = 0x12)) payload cursor
      else if raw_type = 0x14 then parse_v1 DataBlockedFrame payload cursor
      else if raw_type = 0x15 then parse_v2 StreamDataBlockedFrame payload cursor
      else if raw_type = 0x16 \<or> raw_type = 0x17 then
        parse_v1 (\<lambda>m. StreamsBlockedFrame m (raw_type = 0x16)) payload cursor
      else if raw_type = 0x1c \<or> raw_type = 0x1d then
        parse_connection_close payload cursor (raw_type = 0x1d)
      else if raw_type = 0x18 then parse_new_connection_id payload cursor
      else if raw_type = 0x19 then parse_retire_connection_id payload cursor
      else if raw_type = 0x1a \<or> raw_type = 0x1b then parse_path payload cursor
      else if raw_type = 0x1e then Some (Some HandshakeDoneFrame, cursor)
      else if raw_type = 0x30 then
        Some (Some (DatagramFrame (drop cursor payload)), length payload)
      else if raw_type = 0x31 then parse_datagram_with_length payload cursor
      else None)"

definition parse_frame :: "bytes \<Rightarrow> nat \<Rightarrow> frame_result" where
  "parse_frame payload cursor =
     (let peek = payload ! cursor in
      if 0x08 \<le> peek \<and> peek \<le> 0x0f then parse_stream payload (cursor + 1) peek
      else case varint_decode payload cursor of
             None \<Rightarrow> None
           | Some (raw_type, cursor) \<Rightarrow> parse_typed raw_type payload cursor)"

text \<open>The octets and list cells that a delivered frame refers to.\<close>

fun frame_cost :: "frame \<Rightarrow> nat" where
  "frame_cost (AckFrame f) = length (ack_ranges f)"
| "frame_cost (CryptoFrame off dat) = length dat"
| "frame_cost (NewTokenFrame tok) = length tok"
| "frame_cost (StreamFrame f) = length (sf_data f)"
| "frame_cost (ConnectionCloseFrame reason err ft app) = length reason"
| "frame_cost (DatagramFrame dat) = length dat"
| "frame_cost _ = 0"

definition advances :: "bytes \<Rightarrow> nat \<Rightarrow> frame_result \<Rightarrow> bool" where
  "advances payload cursor r \<longleftrightarrow>
     (\<forall>f c'. r = Some (f, c') \<longrightarrow>
        cursor \<le> c' \<and> c' \<le> length payload \<and> cursor + (case f of None \<Rightarrow> 0 | Some f \<Rightarrow> frame_cost f) \<le> c')"

named_theorems frame_parsers \<open>definitions of the frame body parsers\<close>

declare parse_padding_def [frame_parsers] parse_v1_def [frame_parsers] parse_v2_def [frame_parsers]
  parse_reset_stream_def [frame_parsers] parse_crypto_def [frame_parsers]
  parse_new_token_def [frame_parsers] parse_connection_close_def [frame_parsers]
  parse_new_connection_id_def [frame_parsers] parse_retire_connection_id_def [frame_parsers]
  parse_path_def [frame_parsers] parse_datagram_with_length_def [frame_parsers]

lemma parse_ack_ranges_bounds:
  "parse_ack_ranges payload c n = Some (rs, c') \<Longrightarrow> c \<le> length payload \<Longrightarrow>
     c + length rs \<le> c' \<and> c' \<le> length payload \<and> length rs = n"
  by (induction payload c n arbitrary: rs c' rule: parse_ack_ranges.induct)
    (fastforce simp: bind_eq_Some_conv dest: varint_decode_bounds)+

lemma parse_ack_advances: "advances payload c (parse_ack payload c ecn)"
  by (cases ecn)
    (auto simp: advances_def parse_ack_def bind_eq_Some_conv dest!: varint_decode_bounds parse_ack_ranges_bounds)

lemma parse_stream_advances: "c \<le> length payload \<Longrightarrow> advances payload c (parse_stream payload c peek)"
  by (auto simp: advances_def parse_stream_def bind_eq_Some_conv Let_def split: if_splits
      dest!: varint_decode_bounds)

lemma advances_None [simp]: "advances payload c None"
  by (simp add: advances_def)

lemma advances_Some [simp]:
  "advances payload c (Some (f, c')) \<longleftrightarrow>
     c \<le> c' \<and> c' \<le> length payload \<and> c + (case f of None \<Rightarrow> 0 | Some f \<Rightarrow> frame_cost f) \<le> c'"
  by (simp add: advances_def)

lemma parse_v1_advances: "(\<And>a. frame_cost (mk a) = 0) \<Longrightarrow> advances payload c (parse_v1 mk payload c)"
  by (auto simp: advances_def parse_v1_def bind_eq_Some_conv dest!: varint_decode_bounds)

lemma parse_v2_advances: "(\<And>a b. frame_cost (mk a b) = 0) \<Longrightarrow> advances payload c (parse_v2 mk payload c)"
  by (auto simp: advances_def parse_v2_def bind_eq_Some_conv dest!: varint_decode_bounds)

lemma parse_padding_advances: "c \<le> length payload \<Longrightarrow> advances payload c (parse_padding payload c)"
  using length_takeWhile_le [of "\<lambda>b. b = 0" "drop c payload"]
  by (auto simp: advances_def parse_padding_def Let_def)

lemma parse_reset_stream_advances: "advances payload c (parse_reset_stream payload c)"
  by (auto simp: advances_def parse_reset_stream_def bind_eq_Some_conv dest!: varint_decode_bounds)

lemma parse_lv_advances:
  "advances payload c (parse_crypto payload c)"
  "advances payload c (parse_new_token payload c)"
  "advances payload c (parse_connection_close payload c app)"
  "advances payload c (parse_datagram_with_length payload c)"
  by (auto simp: advances_def frame_parsers bind_eq_Some_conv split: if_splits dest!: varint_decode_bounds)

lemma parse_skipped_advances:
  "advances payload c (parse_new_connection_id payload c)"
  "advances payload c (parse_retire_connection_id payload c)"
  "c \<le> length payload \<Longrightarrow> advances payload c (parse_path payload c)"
  by (auto simp: advances_def frame_parsers Let_def bind_eq_Some_conv split: if_splits dest!: varint_decode_bounds)

lemma parse_typed_advances:
  assumes "c \<le> length payload"
  shows "advances payload c (parse_typed raw_type payload c)"
  unfolding parse_typed_def using assms
  by (simp add: parse_padding_advances parse_ack_advances parse_reset_stream_advances
      parse_v1_advances parse_v2_advances parse_lv_advances parse_skipped_advances)

lemma parse_frame_bounds:
  assumes "parse_frame payload c = Some (f, c')" and "c < length payload"
  shows "c < c' \<and> c' \<le> length payload \<and> c + (case f of None \<Rightarrow> 0 | Some f \<Rightarrow> Suc (frame_cost f)) \<le> c'"
proof -
  have step: "c < c' \<and> c' \<le> length payload \<and> c + (case f of None \<Rightarrow> 0 | Some f \<Rightarrow> Suc (frame_cost f)) \<le> c'"
    if "advances payload d r" "r = Some (f, c')" "c < d" for d r
    using that by (cases f) auto
  show ?thesis
  proof (cases "0x08 \<le> payload ! c \<and> payload ! c \<le> 0x0f")
    case True
    then show ?thesis
      using assms step [OF parse_stream_advances [of "c + 1" payload "payload ! c"]]
      by (simp add: parse_frame_def)
  next
    case False
    then obtain t d where "varint_decode payload c = Some (t, d)" "parse_typed t payload d = Some (f, c')"
      using assms(1) by (auto simp: parse_frame_def Let_def split: option.splits if_splits)
    then show ?thesis
      using step [OF parse_typed_advances [of d payload t]] varint_decode_bounds [of payload c t d] by simp
  qed
qed

text \<open>
  The loop of \<^verbatim>\<open>parse_frames\<close>: the frames delivered from \<open>cursor\<close> on, and whether the end was
  reached.  It terminates because every frame advances the cursor.
\<close>

function parse_frames_from :: "bytes \<Rightarrow> nat \<Rightarrow> frame list \<times> bool" where
  "parse_frames_from payload cursor =
     (if cursor < length payload then
        (case parse_frame payload cursor of
           None \<Rightarrow> ([], False)
         | Some (f, cursor) \<Rightarrow>
             (case parse_frames_from payload cursor of
                (fs, ok) \<Rightarrow> (case f of None \<Rightarrow> fs | Some f \<Rightarrow> f # fs, ok)))
      else ([], True))"
  by pat_completeness auto

termination
proof (relation "measure (\<lambda>(payload, cursor). length payload - cursor)")
  fix payload :: bytes and cursor :: nat and r f c'
  assume "cursor < length payload" "parse_frame payload cursor = Some r" "(f, c') = r"
  then have "cursor < c'" using parse_frame_bounds [of payload cursor f c'] by simp
  with \<open>cursor < length payload\<close>
  show "((payload, c'), payload, cursor) \<in> measure (\<lambda>(payload, cursor). length payload - cursor)"
    by simp
qed simp

declare parse_frames_from.simps [simp del]

definition parse_frames :: "bytes \<Rightarrow> frame list \<times> bool" where
  "parse_frames payload = parse_frames_from payload 0"

section \<open>Round trip\<close>

definition ack_frame_ok :: "ack_frame \<Rightarrow> bool" where
  "ack_frame_ok f \<longleftrightarrow>
     ack_ranges f \<noteq> [] \<and> gap (ack_ranges f ! 0) = 0 \<and> length (ack_ranges f) < 2 ^ 62
     \<and> list_all (\<lambda>r. varint_ok (gap r) \<and> varint_ok (ack_range_len r)) (ack_ranges f)
     \<and> varint_ok (largest_acknowledged f) \<and> varint_ok (ack_delay f) \<and> \<not> ack_ecn f"

definition stream_frame_ok :: "stream_frame \<Rightarrow> bool" where
  "stream_frame_ok f \<longleftrightarrow>
     varint_ok (sf_stream_id f) \<and> varint_ok (sf_offset f) \<and> lv_ok (sf_data f)
     \<and> (sf_has_offset f \<or> sf_offset f = 0)"

text \<open>Frames that the wire format can carry without loss.\<close>

fun frame_ok :: "frame \<Rightarrow> bool" where
  "frame_ok (PaddingFrame n) = (0 < n)"
| "frame_ok PingFrame = True"
| "frame_ok (AckFrame f) = ack_frame_ok f"
| "frame_ok (ResetStreamFrame sid err fin) = (varint_ok sid \<and> varint_ok err \<and> varint_ok fin)"
| "frame_ok (StopSendingFrame sid err) = (varint_ok sid \<and> varint_ok err)"
| "frame_ok (CryptoFrame off dat) = (varint_ok off \<and> lv_ok dat)"
| "frame_ok (NewTokenFrame tok) = lv_ok tok"
| "frame_ok (StreamFrame f) = stream_frame_ok f"
| "frame_ok (MaxDataFrame m) = varint_ok m"
| "frame_ok (MaxStreamDataFrame sid m) = (varint_ok sid \<and> varint_ok m)"
| "frame_ok (MaxStreamsFrame m bidi) = varint_ok m"
| "frame_ok (DataBlockedFrame m) = varint_ok m"
| "frame_ok (StreamDataBlockedFrame sid m) = (varint_ok sid \<and> varint_ok m)"
| "frame_ok (StreamsBlockedFrame m bidi) = varint_ok m"
| "frame_ok (ConnectionCloseFrame reason err ft app) =
     (lv_ok reason \<and> varint_ok err \<and> varint_ok ft \<and> (app \<longrightarrow> ft = 0))"
| "frame_ok HandshakeDoneFrame = True"
| "frame_ok (DatagramFrame dat) = lv_ok dat"

text \<open>What may follow a frame: padding merges with padding, and a stream frame without a
  length extends to the end of the packet.\<close>

fun may_precede :: "frame \<Rightarrow> bytes \<Rightarrow> bool" where
  "may_precede (PaddingFrame n) rest \<longleftrightarrow> rest = [] \<or> rest ! 0 \<noteq> 0"
| "may_precede (StreamFrame f) rest \<longleftrightarrow> sf_has_length f \<or> rest = []"
| "may_precede _ rest \<longleftrightarrow> True"

lemma varint_at:
  assumes "varint_ok v" and "drop c buf = varint_encode v @ rest"
  shows "varint_decode buf c = Some (v, c + varint_encoded_size v)"
    and "drop (c + varint_encoded_size v) buf = rest"
  using varint.dec_enc [OF assms] varint.drop_after [OF assms(2)]
  by (simp_all add: varint_encode_length)

lemma data_at:
  assumes "lv_ok dat" and "drop c buf = varint_encode (of_nat (length dat)) @ dat @ rest"
  defines "k \<equiv> varint_encoded_size (of_nat (length dat))"
  shows "varint_decode buf c = Some (of_nat (length dat), c + k)"
    and "unat (of_nat (length dat) :: u64) = length dat"
    and "take (length dat) (drop (c + k) buf) = dat"
    and "c + k + length dat \<le> length buf"
proof -
  show u: "unat (of_nat (length dat) :: u64) = length dat"
    using assms(1) by (simp add: lv_ok_def unat_of_nat)
  then have "varint_ok (of_nat (length dat))" using assms(1) by (simp add: varint_ok_def lv_ok_def)
  note v = varint_at [OF this assms(2)]
  show "varint_decode buf c = Some (of_nat (length dat), c + k)" using v by (simp add: k_def)
  show "take (length dat) (drop (c + k) buf) = dat" using v(2) by (simp add: k_def)
  show "c + k + length dat \<le> length buf"
    using drop_append_at(3) [of c buf "varint_encode (of_nat (length dat)) @ dat" rest] assms(2)
    by (simp add: k_def varint_encode_length)
qed

lemma varint_encode_type: "unat t < 64 \<Longrightarrow> varint_encode t = [ucast t]"
proof -
  assume t: "unat t < 64"
  then have "t AND 0x3f = t"
    by (intro unsigned_word_eqI [where ?'a = nat]) (simp add: octet_simps)
  with t show ?thesis by (simp add: varint_encode_octets)
qed

lemma parse_frame_type:
  assumes "drop c buf = varint_encode t @ rest" and "d = Suc c"
    and "unat t < 64" and "unat t < 8 \<or> 15 < unat t"
  shows "parse_frame buf c = parse_typed t buf d" and "drop d buf = rest"
proof -
  have ok: "varint_ok t" using assms(3) by (simp add: varint_ok_def)
  have size: "varint_encoded_size t = 1"
    using assms(3) by (simp add: varint_encoded_size_def word_le_nat_alt)
  note v = varint_at [OF ok assms(1), unfolded size]
  have d: "drop c buf = ucast t # rest" using assms(1,3) by (simp add: varint_encode_type)
  then have "c < length buf" by (metis drop_all leI list.distinct(1))
  then have "buf ! c = ucast t" using d by (metis hd_drop_conv_nth list.sel(1))
  moreover have "unat (ucast t :: u8) = unat t"
    using assms(3) by (simp add: unsigned_ucast_eq take_bit_eq_mod)
  ultimately have "\<not> (0x08 \<le> buf ! c \<and> buf ! c \<le> 0x0f)"
    using assms(4) by (auto simp: word_le_nat_alt)
  then show "parse_frame buf c = parse_typed t buf d"
    using v(1) assms(2) by (auto simp: parse_frame_def Let_def)
  show "drop d buf = rest" using v(2) assms(2) by simp
qed

lemma parse_ack_ranges_serialize:
  assumes "list_all (\<lambda>r. varint_ok (gap r) \<and> varint_ok (ack_range_len r)) rs"
    and "drop c buf = concat (map serialize_ack_range rs) @ rest"
  shows "parse_ack_ranges buf c (length rs)
    = Some (rs, c + length (concat (map serialize_ack_range rs)))"
  using assms
proof (induction rs arbitrary: c)
  case Nil
  then show ?case by simp
next
  case (Cons r rs)
  have d: "drop c buf = varint_encode (gap r) @ varint_encode (ack_range_len r)
      @ concat (map serialize_ack_range rs) @ rest"
    using Cons.prems(2) by (simp add: serialize_ack_range_def [of r])
  note a = varint_at [OF _ d]
  note b = varint_at [OF _ a(2)]
  show ?case
    using Cons.prems(1) Cons.IH [OF _ b(2)]
    by (simp add: a b) (simp add: serialize_ack_range_def [of r] varint_encode_length)
qed

lemma parse_ack_serialize:
  assumes "ack_frame_ok f" and "drop c buf = serialize_frame (AckFrame f) @ rest"
  shows "parse_frame buf c = Some (Some (AckFrame f), c + length (serialize_frame (AckFrame f)))"
proof -
  let ?n = "of_nat (length (ack_ranges f)) - 1 :: u64"
  let ?r = "ack_ranges f ! 0" and ?rs = "drop 1 (ack_ranges f)"
  have ne: "ack_ranges f \<noteq> []" and ecn: "\<not> ack_ecn f" and g0: "gap ?r = 0"
    using assms(1) by (auto simp: ack_frame_ok_def)
  then have rs: "ack_ranges f = ?r # ?rs" by (cases "ack_ranges f") auto
  have "?n = of_nat (length ?rs)" by (subst rs) simp
  then have n: "unat ?n = length ?rs"
    using assms(1) by (simp add: ack_frame_ok_def unat_of_nat less_imp_diff_less)
  have all: "list_all (\<lambda>r. varint_ok (gap r) \<and> varint_ok (ack_range_len r)) (?r # ?rs)"
    using assms(1) rs by (simp add: ack_frame_ok_def)
  have oks: "varint_ok (largest_acknowledged f)" "varint_ok (ack_delay f)" "varint_ok ?n"
      "varint_ok (ack_range_len ?r)"
    using assms(1) all by (simp_all add: ack_frame_ok_def varint_ok_def n less_imp_diff_less)
  have d: "drop c buf = varint_encode 0x02 @ varint_encode (largest_acknowledged f)
      @ varint_encode (ack_delay f) @ varint_encode ?n @ varint_encode (ack_range_len ?r)
      @ concat (map serialize_ack_range ?rs) @ rest"
    using assms(2) ne by simp
  define d0 where "d0 = Suc c"
  note t = parse_frame_type [OF d d0_def]
  note v1 = varint_at [OF oks(1) t(2)]
  note v2 = varint_at [OF oks(2) v1(2)]
  note v3 = varint_at [OF oks(3) v2(2)]
  note v4 = varint_at [OF oks(4) v3(2)]
  note r = parse_ack_ranges_serialize [OF _ v4(2)]
  have "parse_frame buf c = Some (Some (AckFrame \<lparr>ack_ranges = \<lparr>gap = 0, ack_range_len = ack_range_len ?r\<rparr> # ?rs,
      largest_acknowledged = largest_acknowledged f, ack_delay = ack_delay f, ack_ecn = False\<rparr>),
      c + length (serialize_frame (AckFrame f)))"
    using all r ne
    by (simp add: t(1) parse_typed_def parse_ack_def v1 v2 v3 v4 n)
      (simp add: d0_def varint_encode_length varint_encode_type)
  moreover have "\<lparr>ack_ranges = \<lparr>gap = 0, ack_range_len = ack_range_len ?r\<rparr> # ?rs,
      largest_acknowledged = largest_acknowledged f, ack_delay = ack_delay f, ack_ecn = False\<rparr> = f"
    using rs ecn g0 by (cases f; cases "ack_ranges f ! 0") auto
  ultimately show ?thesis by simp
qed

lemma parse_stream_serialize:
  assumes "stream_frame_ok f" and "drop c buf = serialize_frame (StreamFrame f) @ rest"
    and "sf_has_length f \<or> rest = []"
  shows "parse_frame buf c = Some (Some (StreamFrame f), c + length (serialize_frame (StreamFrame f)))"
proof -
  let ?t = "stream_frame_type f" and ?n = "of_nat (length (sf_data f)) :: u64"
  have t: "0x08 \<le> ?t" "?t \<le> 0x0f" "(?t AND 0x04 \<noteq> 0) = sf_has_offset f"
    "(?t AND 0x02 \<noteq> 0) = sf_has_length f" "(?t AND 0x01 \<noteq> 0) = sf_fin f"
    by (cases "sf_has_offset f"; cases "sf_has_length f"; cases "sf_fin f";
        simp add: stream_frame_type_def)+
  let ?o = "if sf_has_offset f then varint_encode (sf_offset f) else []"
  let ?l = "if sf_has_length f then varint_encode ?n else []"
  have oks: "varint_ok (sf_stream_id f)" "varint_ok (sf_offset f)" "lv_ok (sf_data f)"
    using assms(1) by (simp_all add: stream_frame_ok_def)
  have d: "drop c buf = [?t] @ varint_encode (sf_stream_id f) @ ?o @ ?l @ sf_data f @ rest"
    using assms(2) by simp
  have c: "c < length buf" using d by (metis append_Cons drop_all leI list.distinct(1))
  have peek: "buf ! c = ?t" using d c by (metis append_Cons hd_drop_conv_nth list.sel(1))
  have d0: "drop (c + 1) buf = varint_encode (sf_stream_id f) @ ?o @ ?l @ sf_data f @ rest"
    using drop_append_at(1) [OF d] by simp
  note v1 = varint_at [OF oks(1) d0]
  let ?c1 = "c + 1 + varint_encoded_size (sf_stream_id f)"
  let ?c2 = "?c1 + length ?o"
  have v2: "(if sf_has_offset f then varint_decode buf ?c1 else Some (0, ?c1)) = Some (sf_offset f, ?c2)"
    using varint_at(1) [of "sf_offset f" ?c1 buf] v1(2) oks(2) assms(1)
    by (auto simp: varint_encode_length stream_frame_ok_def)
  have d2: "drop ?c2 buf = ?l @ sf_data f @ rest" by (rule drop_append_at(1)) (fact v1(2))
  have tot: "?c2 + length ?l + length (sf_data f) + length rest = length buf"
    using arg_cong [OF d, of length] c by (simp add: varint_encode_length)
  have v3: "(if sf_has_length f then map_option (apfst unat) (varint_decode buf ?c2)
      else Some (length buf - ?c2, ?c2)) = Some (length (sf_data f), ?c2 + length ?l)"
    using data_at(1,2) [OF oks(3), of ?c2 buf rest] d2 assms(3) tot
    by (auto simp: varint_encode_length)
  have d3: "take (length (sf_data f)) (drop (?c2 + length ?l) buf) = sf_data f"
    using drop_append_at(1) [OF d2] by simp
  have "parse_frame buf c = Some (Some (StreamFrame f), ?c2 + length ?l + length (sf_data f))"
    using t peek tot
    by (simp only: parse_frame_def Let_def parse_stream_def v1(1) v2 v3 d3 if_True simp_thms
        Option.bind.simps prod.case) simp
  moreover have "?c2 + length ?l + length (sf_data f) = c + length (serialize_frame (StreamFrame f))"
    by (simp add: varint_encode_length)
  ultimately show ?thesis by metis
qed

lemma takeWhile_zero_replicate:
  "rest = [] \<or> rest ! 0 \<noteq> 0 \<Longrightarrow> takeWhile (\<lambda>b. b = 0) (replicate n (0::u8) @ rest) = replicate n 0"
  by (induction n) (cases rest; simp)+

lemma parse_padding_serialize:
  assumes "0 < n" and "drop c buf = serialize_frame (PaddingFrame n) @ rest" and "rest = [] \<or> rest ! 0 \<noteq> 0"
  shows "parse_frame buf c = Some (Some (PaddingFrame n), c + length (serialize_frame (PaddingFrame n)))"
proof -
  obtain k where k: "unat n = Suc k"
    using assms(1) by (metis gr0_implies_Suc unat_gt_0 word_neq_0_conv)
  then have d: "drop c buf = varint_encode 0 @ replicate k 0 @ rest"
    using assms(2) by (simp add: varint_encode_type)
  define d0 where "d0 = Suc c"
  note t = parse_frame_type [OF d d0_def]
  have "1 + of_nat k = n" using arg_cong [OF k, of "of_nat :: nat \<Rightarrow> u32"] by simp
  with t k show ?thesis
    by (simp add: parse_typed_def parse_padding_def takeWhile_zero_replicate [OF assms(3)] d0_def)
qed

text \<open>The frame types of at most two integers, by the number of integers.\<close>

lemma parse_v0_serialize:
  assumes "drop c buf = varint_encode t @ rest" and "unat t < 64" and "unat t < 8 \<or> 15 < unat t"
    and "\<And>d. parse_typed t buf d = Some (Some f, d)"
  shows "parse_frame buf c = Some (Some f, c + length (varint_encode t))"
  using parse_frame_type [OF assms(1) refl assms(2,3)] assms(2,4) by (simp add: varint_encode_type)

lemma parse_v1_serialize:
  assumes "drop c buf = varint_encode t @ varint_encode a @ rest" and "varint_ok a"
    and "unat t < 64" and "unat t < 8 \<or> 15 < unat t" and "\<And>d. parse_typed t buf d = parse_v1 mk buf d"
  shows "parse_frame buf c = Some (Some (mk a), c + length (varint_encode t @ varint_encode a))"
proof -
  define d0 where "d0 = Suc c"
  note t = parse_frame_type [OF assms(1) d0_def assms(3,4)]
  note v1 = varint_at [OF assms(2) t(2)]
  show ?thesis
    using assms(3) by (simp add: t(1) assms(5) parse_v1_def v1) (simp add: d0_def varint_encode_length [of a] varint_encode_type)
qed

lemma parse_v2_serialize:
  assumes "drop c buf = varint_encode t @ varint_encode a @ varint_encode b @ rest"
    and "varint_ok a \<and> varint_ok b"
    and "unat t < 64" and "unat t < 8 \<or> 15 < unat t" and "\<And>d. parse_typed t buf d = parse_v2 mk buf d"
  shows "parse_frame buf c = Some (Some (mk a b), c + length (varint_encode t @ varint_encode a @ varint_encode b))"
proof -
  define d0 where "d0 = Suc c"
  note t = parse_frame_type [OF assms(1) d0_def assms(3,4)]
  note v1 = varint_at [OF assms(2) [THEN conjunct1] t(2)]
  note v2 = varint_at [OF assms(2) [THEN conjunct2] v1(2)]
  show ?thesis
    using assms(3) by (simp add: t(1) assms(5) parse_v2_def v1 v2)
      (simp add: d0_def varint_encode_length [of a] varint_encode_length [of b] varint_encode_type)
qed

lemma parse_small_serialize:
  assumes "frame_ok f" and "drop c buf = serialize_frame f @ rest"
    and "f = PingFrame \<or> f = HandshakeDoneFrame \<or> is_StopSendingFrame f \<or> is_MaxDataFrame f
      \<or> is_MaxStreamDataFrame f \<or> is_MaxStreamsFrame f \<or> is_DataBlockedFrame f
      \<or> is_StreamDataBlockedFrame f \<or> is_StreamsBlockedFrame f"
  shows "parse_frame buf c = Some (Some f, c + length (serialize_frame f))"
proof (cases f)
  case PingFrame
  then show ?thesis using assms parse_v0_serialize [of c buf 1 rest PingFrame]
    by (simp add: parse_typed_def)
next
  case HandshakeDoneFrame
  then show ?thesis using assms parse_v0_serialize [of c buf "0x1e" rest HandshakeDoneFrame]
    by (simp add: parse_typed_def)
next
  case (StopSendingFrame a b)
  then show ?thesis using assms parse_v2_serialize [of c buf 5 a b rest StopSendingFrame]
    by (simp add: parse_typed_def)
next
  case (MaxDataFrame a)
  then show ?thesis using assms parse_v1_serialize [of c buf "0x10" a rest MaxDataFrame]
    by (simp add: parse_typed_def)
next
  case (MaxStreamDataFrame a b)
  then show ?thesis using assms parse_v2_serialize [of c buf "0x11" a b rest MaxStreamDataFrame]
    by (simp add: parse_typed_def)
next
  case (MaxStreamsFrame a b)
  then show ?thesis
    using assms parse_v1_serialize [of c buf "if b then 0x12 else 0x13" a rest "\<lambda>m. MaxStreamsFrame m b"]
    by (cases b) (simp_all add: parse_typed_def)
next
  case (DataBlockedFrame a)
  then show ?thesis using assms parse_v1_serialize [of c buf "0x14" a rest DataBlockedFrame]
    by (simp add: parse_typed_def)
next
  case (StreamDataBlockedFrame a b)
  then show ?thesis using assms parse_v2_serialize [of c buf "0x15" a b rest StreamDataBlockedFrame]
    by (simp add: parse_typed_def)
next
  case (StreamsBlockedFrame a b)
  then show ?thesis
    using assms parse_v1_serialize [of c buf "if b then 0x16 else 0x17" a rest "\<lambda>m. StreamsBlockedFrame m b"]
    by (cases b) (simp_all add: parse_typed_def)
qed (use assms in auto)

lemma parse_close_serialize:
  assumes "frame_ok (ConnectionCloseFrame dat a b app)"
  and "drop c buf = serialize_frame (ConnectionCloseFrame dat a b app) @ rest"
  shows "parse_frame buf c = Some (Some (ConnectionCloseFrame dat a b app),
  c + length (serialize_frame (ConnectionCloseFrame dat a b app)))"
proof (cases app)
  case True
  then have d: "drop c buf = varint_encode 0x1d @ varint_encode a @ varint_encode (of_nat (length dat)) @ dat @ rest"
    using assms(2) by simp
  define d0 where "d0 = Suc c"
  note t = parse_frame_type [OF d d0_def]
  note v1 = varint_at [OF _ t(2)]
  note v2 = data_at [OF _ v1(2)]
  from True assms(1) show ?thesis
    using v2(3,4)
    by (simp add: t(1) parse_typed_def frame_parsers v1 v2(1,2)) (simp add: d0_def varint_encode_length varint_encode_type)
next
  case False
  then have d: "drop c buf = varint_encode 0x1c @ varint_encode a @ varint_encode b
      @ varint_encode (of_nat (length dat)) @ dat @ rest"
    using assms(2) by simp
  define d0 where "d0 = Suc c"
  note t = parse_frame_type [OF d d0_def]
  note v1 = varint_at [OF _ t(2)]
  note v2 = varint_at [OF _ v1(2)]
  note v3 = data_at [OF _ v2(2)]
  from False assms(1) show ?thesis
    using v3(3,4)
    by (simp add: t(1) parse_typed_def frame_parsers v1 v2 v3(1,2)) (simp add: d0_def varint_encode_length varint_encode_type)
qed

text \<open>The remaining frame types: a type octet, variable-length integers, perhaps data.\<close>

lemma parse_frame_serialize:
  assumes "frame_ok f" and "drop c buf = serialize_frame f @ rest" and "may_precede f rest"
  shows "parse_frame buf c = Some (Some f, c + length (serialize_frame f))"
  using assms
proof (cases f)
  case (PaddingFrame n)
  then show ?thesis using assms parse_padding_serialize by simp
next
  case (AckFrame a)
  then show ?thesis using assms parse_ack_serialize by simp
next
  case (StreamFrame a)
  then show ?thesis using assms parse_stream_serialize by simp
next
  case (ResetStreamFrame a b e)
  then have d: "drop c buf = varint_encode 4 @ varint_encode a @ varint_encode b @ varint_encode e @ rest"
    using assms(2) by simp
  define d0 where "d0 = Suc c"
  note t = parse_frame_type [OF d d0_def]
  note v1 = varint_at [OF _ t(2)]
  note v2 = varint_at [OF _ v1(2)]
  note v3 = varint_at [OF _ v2(2)]
  from ResetStreamFrame assms(1) show ?thesis
    by (simp add: t(1) parse_typed_def frame_parsers v1 v2 v3) (simp add: d0_def varint_encode_length varint_encode_type)
next
  case (CryptoFrame a dat)
  then have d: "drop c buf = varint_encode 6 @ varint_encode a @ varint_encode (of_nat (length dat)) @ dat @ rest"
    using assms(2) by simp
  define d0 where "d0 = Suc c"
  note t = parse_frame_type [OF d d0_def]
  note v1 = varint_at [OF _ t(2)]
  note v2 = data_at [OF _ v1(2)]
  from CryptoFrame assms(1) show ?thesis
    using v2(3,4)
    by (simp add: t(1) parse_typed_def frame_parsers v1 v2(1,2)) (simp add: d0_def varint_encode_length varint_encode_type)
next
  case (ConnectionCloseFrame dat a b app)
  then show ?thesis using assms parse_close_serialize by simp
next
  case (NewTokenFrame dat)
  then have d: "drop c buf = varint_encode 7 @ varint_encode (of_nat (length dat)) @ dat @ rest"
    using assms(2) by simp
  define d0 where "d0 = Suc c"
  note t = parse_frame_type [OF d d0_def]
  note v2 = data_at [OF _ t(2)]
  from NewTokenFrame assms(1) show ?thesis
    using v2(3,4)
    by (simp add: t(1) parse_typed_def frame_parsers v2(1,2)) (simp add: d0_def varint_encode_length varint_encode_type)
next
  case (DatagramFrame dat)
  then have d: "drop c buf = varint_encode 0x31 @ varint_encode (of_nat (length dat)) @ dat @ rest"
    using assms(2) by simp
  define d0 where "d0 = Suc c"
  note t = parse_frame_type [OF d d0_def]
  note v2 = data_at [OF _ t(2)]
  from DatagramFrame assms(1) show ?thesis
    using v2(3,4)
    by (simp add: t(1) parse_typed_def frame_parsers v2(1,2)) (simp add: d0_def varint_encode_length varint_encode_type)
qed (use parse_small_serialize [OF assms(1,2)] in simp_all)

text \<open>Sequences of frames that one packet can carry without loss.\<close>

fun open_ended :: "frame \<Rightarrow> bool" where
  "open_ended (StreamFrame f) = (\<not> sf_has_length f)"
| "open_ended _ = False"

fun frames_ok :: "frame list \<Rightarrow> bool" where
  "frames_ok [] = True"
| "frames_ok (f # fs) =
     (frame_ok f \<and> (fs \<noteq> [] \<longrightarrow> \<not> open_ended f \<and> \<not> (is_PaddingFrame f \<and> is_PaddingFrame (hd fs)))
      \<and> frames_ok fs)"

lemma serialize_frame_lead:
  assumes "frame_ok f"
  shows "serialize_frame f \<noteq> [] \<and> (serialize_frame f ! 0 = 0 \<longleftrightarrow> is_PaddingFrame f)"
proof (cases f)
  case (PaddingFrame n)
  then obtain k where "unat n = Suc k"
    using assms by (metis frame_ok.simps(1) gr0_implies_Suc unat_gt_0 word_neq_0_conv)
  with PaddingFrame show ?thesis by simp
next
  case (StreamFrame a)
  then show ?thesis
    by (cases "sf_has_offset a"; cases "sf_has_length a"; cases "sf_fin a")
      (simp_all add: stream_frame_type_def)
qed (simp_all add: varint_encode_type)

lemma frames_ok_may_precede:
  assumes "frames_ok (f # fs)"
  shows "may_precede f (concat (map serialize_frame fs))"
proof (cases fs)
  case (Cons g gs)
  then have "serialize_frame g \<noteq> []" "serialize_frame g ! 0 = 0 \<longleftrightarrow> is_PaddingFrame g"
    using assms serialize_frame_lead [of g] by auto
  with Cons assms show ?thesis by (cases f) (auto simp: nth_append)
qed (cases f; simp)

lemma parse_frames_from_serialize:
  assumes "frames_ok fs" and "drop c buf = concat (map serialize_frame fs)" and "c \<le> length buf"
  shows "parse_frames_from buf c = (fs, True)"
  using assms
proof (induction fs arbitrary: c)
  case Nil
  then show ?case by (simp add: parse_frames_from.simps)
next
  case (Cons f fs)
  have d: "drop c buf = serialize_frame f @ concat (map serialize_frame fs)"
    using Cons.prems by simp
  have p: "parse_frame buf c = Some (Some f, c + length (serialize_frame f))"
    using Cons.prems d by (intro parse_frame_serialize) (auto intro: frames_ok_may_precede)
  have ne: "serialize_frame f \<noteq> []" using Cons.prems(1) serialize_frame_lead [of f] by simp
  then have c: "c < length buf" using d by (metis Nil_is_append_conv drop_all leI)
  have "parse_frames_from buf (c + length (serialize_frame f)) = (fs, True)"
    using Cons.prems(1) drop_append_at(1,3) [OF d] ne by (intro Cons.IH) auto
  with p c show ?case by (subst parse_frames_from.simps) simp
qed

lemma parse_frames_from_cost:
  "c \<le> length payload \<Longrightarrow>
   c + sum_list (map (\<lambda>f. Suc (frame_cost f)) (fst (parse_frames_from payload c))) \<le> length payload"
proof (induction payload c rule: parse_frames_from.induct)
  case (1 payload c)
  show ?case
  proof (cases "c < length payload \<and> parse_frame payload c \<noteq> None")
    case True
    then obtain f c' where p: "parse_frame payload c = Some (f, c')" by auto
    then have b: "c' \<le> length payload" "c + (case f of None \<Rightarrow> 0 | Some f \<Rightarrow> Suc (frame_cost f)) \<le> c'"
      using True parse_frame_bounds by auto
    have "c' + sum_list (map (\<lambda>f. Suc (frame_cost f)) (fst (parse_frames_from payload c'))) \<le> length payload"
      using "1.IH" [OF _ p refl b(1)] True by simp
    with b p True show ?thesis
      by (subst parse_frames_from.simps) (cases "parse_frames_from payload c'"; cases f; simp)
  next
    case False
    with 1 show ?thesis by (subst parse_frames_from.simps) (cases "parse_frame payload c"; auto)
  qed
qed

section \<open>Properties\<close>

text \<open>
  C9.  Every packet payload that the serialiser builds is parsed back to the same frames: for
  all seventeen frame types, in any order and number, provided the values fit the wire
  format, paddings are not adjacent and a stream frame without a length comes last.
\<close>

theorem frames_roundtrip:
  assumes "frames_ok fs"
  shows "parse_frames (concat (map serialize_frame fs)) = (fs, True)"
  using parse_frames_from_serialize [OF assms, of 0] by (simp add: parse_frames_def)

theorem frames_roundtrip_witness:
  "parse_frames (concat (map serialize_frame
      [AckFrame \<lparr>ack_ranges = [\<lparr>gap = 0, ack_range_len = 3\<rparr>, \<lparr>gap = 1, ack_range_len = 900\<rparr>],
         largest_acknowledged = 2000, ack_delay = 5, ack_ecn = False\<rparr>,
       PaddingFrame 4, ConnectionCloseFrame [1, 2] 10 8 False,
       StreamFrame \<lparr>sf_data = [9, 9], sf_stream_id = 4, sf_offset = 70000, sf_fin = True,
         sf_has_offset = True, sf_has_length = False\<rparr>])) =
     ([AckFrame \<lparr>ack_ranges = [\<lparr>gap = 0, ack_range_len = 3\<rparr>, \<lparr>gap = 1, ack_range_len = 900\<rparr>],
         largest_acknowledged = 2000, ack_delay = 5, ack_ecn = False\<rparr>,
       PaddingFrame 4, ConnectionCloseFrame [1, 2] 10 8 False,
       StreamFrame \<lparr>sf_data = [9, 9], sf_stream_id = 4, sf_offset = 70000, sf_fin = True,
         sf_has_offset = True, sf_has_length = False\<rparr>], True)"
  by (rule frames_roundtrip)
    (simp add: ack_frame_ok_def stream_frame_ok_def varint_ok_def lv_ok_def)

text \<open>
  Parsing never amplifies: whatever the payload, each delivered frame costs at least one
  octet beside the data, reason, token octets or acknowledgement ranges it carries, so
  that the number of frames and everything they refer to together stay within the
  length of the payload.
\<close>

theorem parse_frames_bounded:
  "sum_list (map (\<lambda>f. Suc (frame_cost f)) (fst (parse_frames payload))) \<le> length payload"
  using parse_frames_from_cost [of 0 payload] by (simp add: parse_frames_def)

end
