(* ===== verification/Stream_Buffer.thy ===== *)
theory Stream_Buffer
  imports Wavex_Prelude
begin

text \<open>
  The contiguous stream buffer of \<^verbatim>\<open>src/include/wavex/Utils/StreamBuffer.hpp\<close>: a string and a
  read offset, with lazy compaction.  The locale \<open>byte_queue\<close> states what its clients
  rely on, an octet queue with push-back at the front; the buffer is an interpretation
  of it, so that compaction is invisible to clients.
\<close>

section \<open>Model\<close>

record stream_buffer =
  sb_buffer :: bytes
  sb_read_offset :: nat

definition sb_new :: stream_buffer where
  "sb_new = \<lparr>sb_buffer = [], sb_read_offset = 0\<rparr>"

definition sb_size :: "stream_buffer \<Rightarrow> nat" where
  "sb_size b = length (sb_buffer b) - sb_read_offset b"

definition sb_empty :: "stream_buffer \<Rightarrow> bool" where
  "sb_empty b \<longleftrightarrow> sb_read_offset b \<ge> length (sb_buffer b)"

definition sb_compact :: "stream_buffer \<Rightarrow> stream_buffer" where
  "sb_compact b =
     (if sb_read_offset b \<ge> length (sb_buffer b) then \<lparr>sb_buffer = [], sb_read_offset = 0\<rparr>
      else if sb_read_offset b \<ge> 16384 \<and> sb_read_offset b \<ge> length (sb_buffer b) div 2
      then \<lparr>sb_buffer = drop (sb_read_offset b) (sb_buffer b), sb_read_offset = 0\<rparr>
      else b)"

definition sb_append :: "bytes \<Rightarrow> stream_buffer \<Rightarrow> stream_buffer" where
  "sb_append chunk b =
     (if chunk = [] then b
      else let b = sb_compact b in b\<lparr>sb_buffer := sb_buffer b @ chunk\<rparr>)"

definition sb_peek :: "nat \<Rightarrow> stream_buffer \<Rightarrow> bytes" where
  "sb_peek max_bytes b =
     (if sb_empty b then []
      else let to_view = min max_bytes (sb_size b) in substr (sb_buffer b) (sb_read_offset b) to_view)"

text \<open>\<open>prepend\<close> overwrites the consumed octets in place when there are enough of them.\<close>

definition sb_prepend :: "bytes \<Rightarrow> stream_buffer \<Rightarrow> stream_buffer" where
  "sb_prepend chunk b =
     (if chunk = [] then b
      else if sb_read_offset b \<ge> length chunk \<and> sb_read_offset b \<le> length (sb_buffer b) then
        let off = sb_read_offset b - length chunk in
        \<lparr>sb_buffer = take off (sb_buffer b) @ chunk @ drop (off + length chunk) (sb_buffer b),
         sb_read_offset = off\<rparr>
      else \<lparr>sb_buffer = chunk @ drop (min (sb_read_offset b) (length (sb_buffer b))) (sb_buffer b),
            sb_read_offset = 0\<rparr>)"

definition sb_consume :: "nat \<Rightarrow> stream_buffer \<Rightarrow> stream_buffer" where
  "sb_consume n b =
     (if n = 0 then b
      else let to_consume = min n (sb_size b)
           in sb_compact (b\<lparr>sb_read_offset := sb_read_offset b + to_consume\<rparr>))"

text \<open>\<^verbatim>\<open>read(dest, max_bytes)\<close> with a destination: the octets copied and the buffer left.\<close>

definition sb_read :: "nat \<Rightarrow> stream_buffer \<Rightarrow> bytes \<times> stream_buffer" where
  "sb_read max_bytes b =
     (if max_bytes = 0 \<or> sb_empty b then ([], b)
      else let to_copy = min max_bytes (sb_size b);
               off = sb_read_offset b + to_copy
           in (substr (sb_buffer b) (sb_read_offset b) to_copy,
               if off \<ge> length (sb_buffer b) then \<lparr>sb_buffer = [], sb_read_offset = 0\<rparr>
               else b\<lparr>sb_read_offset := off\<rparr>))"

definition sb_clear :: "stream_buffer \<Rightarrow> stream_buffer" where
  "sb_clear b = \<lparr>sb_buffer = [], sb_read_offset = 0\<rparr>"

text \<open>The abstraction: the unread octets.  The invariant: the offset is inside the string.\<close>

definition sb_view :: "stream_buffer \<Rightarrow> bytes" where
  "sb_view b = drop (sb_read_offset b) (sb_buffer b)"

definition sb_inv :: "stream_buffer \<Rightarrow> bool" where
  "sb_inv b \<longleftrightarrow> sb_read_offset b \<le> length (sb_buffer b)"

section \<open>The queue interface\<close>

locale byte_queue =
  fixes inv :: "'b \<Rightarrow> bool"
    and view :: "'b \<Rightarrow> bytes"
    and append :: "bytes \<Rightarrow> 'b \<Rightarrow> 'b"
    and prepend :: "bytes \<Rightarrow> 'b \<Rightarrow> 'b"
    and consume :: "nat \<Rightarrow> 'b \<Rightarrow> 'b"
    and read :: "nat \<Rightarrow> 'b \<Rightarrow> bytes \<times> 'b"
  assumes append_inv: "inv b \<Longrightarrow> inv (append c b)"
    and append_view: "inv b \<Longrightarrow> view (append c b) = view b @ c"
    and prepend_inv: "inv b \<Longrightarrow> inv (prepend c b)"
    and prepend_view: "inv b \<Longrightarrow> view (prepend c b) = c @ view b"
    and consume_inv: "inv b \<Longrightarrow> inv (consume n b)"
    and consume_view: "inv b \<Longrightarrow> view (consume n b) = drop n (view b)"
    and read_inv: "inv b \<Longrightarrow> inv (snd (read n b))"
    and read_data: "inv b \<Longrightarrow> fst (read n b) = take n (view b)"
    and read_view: "inv b \<Longrightarrow> view (snd (read n b)) = drop n (view b)"
begin

lemma read_then_rest: "inv b \<Longrightarrow> read n b = (d, b') \<Longrightarrow> inv b' \<and> d @ view b' = view b"
  using read_inv [of b n] read_data [of b n] read_view [of b n] by simp

lemma unread: "inv b \<Longrightarrow> read n b = (d, b') \<Longrightarrow> view (prepend d b') = view b"
  using read_then_rest [of b n d b'] prepend_view [of b' d] by simp

lemma read_twice:
  assumes "inv b"
  shows "fst (read n b) @ fst (read m (snd (read n b))) = fst (read (n + m) b)"
  using assms by (simp add: read_data read_inv read_view take_add)

lemma append_read_fifo: "inv b \<Longrightarrow> view b = [] \<Longrightarrow> fst (read (length c) (append c b)) = c"
  by (simp add: append_inv append_view read_data)

lemma consume_is_read: "inv b \<Longrightarrow> view (consume n b) = view (snd (read n b))"
  by (simp add: consume_view read_view)

end

section \<open>Lemmas\<close>

lemma sb_new_inv [simp]: "sb_inv sb_new" and sb_new_view [simp]: "sb_view sb_new = []"
  by (simp_all add: sb_inv_def sb_view_def sb_new_def)

lemma sb_size_view: "sb_size b = length (sb_view b)"
  by (simp add: sb_size_def sb_view_def)

lemma sb_empty_view: "sb_empty b \<longleftrightarrow> sb_view b = []"
  by (simp add: sb_empty_def sb_view_def)

lemma sb_peek_view: "sb_peek n b = take n (sb_view b)"
  by (auto simp: sb_peek_def sb_empty_view sb_size_view Let_def sb_view_def min_def)

lemma sb_compact_view [simp]: "sb_view (sb_compact b) = sb_view b"
  by (simp add: sb_compact_def sb_view_def)

lemma sb_compact_inv: "sb_inv b \<Longrightarrow> sb_inv (sb_compact b)"
  by (simp add: sb_compact_def sb_inv_def)

lemma sb_view_append_raw: "sb_inv b \<Longrightarrow> sb_view (b\<lparr>sb_buffer := sb_buffer b @ c\<rparr>) = sb_view b @ c"
  by (simp add: sb_view_def sb_inv_def)

lemma sb_append_ok: "sb_inv b \<Longrightarrow> sb_inv (sb_append c b) \<and> sb_view (sb_append c b) = sb_view b @ c"
  using sb_compact_inv [of b] sb_view_append_raw [of "sb_compact b" c]
  by (auto simp: sb_append_def Let_def) (simp add: sb_inv_def)

lemma sb_prepend_ok: "sb_inv b \<Longrightarrow> sb_inv (sb_prepend c b) \<and> sb_view (sb_prepend c b) = c @ sb_view b"
  by (auto simp: sb_prepend_def Let_def sb_inv_def sb_view_def)

lemma sb_consume_ok: "sb_inv b \<Longrightarrow> sb_inv (sb_consume n b) \<and> sb_view (sb_consume n b) = drop n (sb_view b)"
proof -
  assume "sb_inv b"
  then have "sb_inv (b\<lparr>sb_read_offset := sb_read_offset b + min n (sb_size b)\<rparr>)"
    by (auto simp: sb_inv_def sb_size_def)
  moreover have "sb_view (b\<lparr>sb_read_offset := sb_read_offset b + min n (sb_size b)\<rparr>) = drop n (sb_view b)"
    using \<open>sb_inv b\<close> by (auto simp: sb_view_def sb_size_def sb_inv_def min_def add.commute)
  ultimately show ?thesis
    using \<open>sb_inv b\<close> by (simp add: sb_consume_def Let_def sb_compact_inv)
qed

lemma sb_read_ok:
  assumes "sb_inv b"
  shows "sb_inv (snd (sb_read n b)) \<and> fst (sb_read n b) = take n (sb_view b)
    \<and> sb_view (snd (sb_read n b)) = drop n (sb_view b)"
  using assms
  by (auto simp: sb_read_def Let_def sb_empty_def sb_size_def sb_inv_def sb_view_def min_def add.commute)

interpretation sbuf: byte_queue sb_inv sb_view sb_append sb_prepend sb_consume sb_read
  by unfold_locales (simp_all add: sb_append_ok sb_prepend_ok sb_consume_ok sb_read_ok)

text \<open>Compaction keeps the dead prefix small: after appending, fewer consumed octets than
  16 KiB or than half of the string are retained.\<close>

lemma sb_append_dead_prefix:
  assumes "chunk \<noteq> []"
  shows "sb_read_offset (sb_append chunk b) < 16384
    \<or> 2 * sb_read_offset (sb_append chunk b) < length (sb_buffer (sb_append chunk b))"
  using assms by (auto simp: sb_append_def Let_def sb_compact_def)

section \<open>Properties\<close>

text \<open>
  C10.  The stream buffer refines an octet queue: whatever the compaction state, appending adds
  at the end, reading and consuming take from the front exactly what they report, and
  putting octets back restores them in front, with the offset always inside the string.
\<close>

theorem stream_buffer_refines_queue:
  assumes "sb_inv b"
  shows "sb_view (sb_append c b) = sb_view b @ c \<and> sb_inv (sb_append c b)
    \<and> sb_view (sb_prepend c b) = c @ sb_view b \<and> sb_inv (sb_prepend c b)
    \<and> sb_view (sb_consume n b) = drop n (sb_view b) \<and> sb_inv (sb_consume n b)
    \<and> fst (sb_read n b) = take n (sb_view b) \<and> sb_view (snd (sb_read n b)) = drop n (sb_view b)
    \<and> sb_inv (snd (sb_read n b))"
  using assms by (simp add: sbuf.append_view sbuf.append_inv sbuf.prepend_view sbuf.prepend_inv
      sbuf.consume_view sbuf.consume_inv sbuf.read_data sbuf.read_view sbuf.read_inv)

theorem stream_buffer_refines_queue_witness:
  "sb_view (sb_prepend [7] (snd (sb_read 2 (sb_append [1, 2, 3] sb_new)))) = [7, 3]"
  using stream_buffer_refines_queue [of sb_new "[1, 2, 3]" 0]
    stream_buffer_refines_queue [of "sb_append [1, 2, 3] sb_new" "[7]" 2]
    stream_buffer_refines_queue [of "snd (sb_read 2 (sb_append [1, 2, 3] sb_new))" "[7]" 0]
  by simp

end
