(* ===== verification/Quic_Stream.thy ===== *)
theory Quic_Stream
  imports Stream_Buffer
begin

text \<open>
  A QUIC stream: \<^verbatim>\<open>src/src/Network/QUIC/QuicStream.cpp\<close> and its header.  The state is the
  object's; every operation is a function on it that also returns the requests the code
  makes of others (completion of a read, queueing of data, removal of the stream), in
  order.  Each runs under the stream's mutex, so a history is a sequence of operations.
  Offsets come from variable-length integers, below \<open>2\<^sup>6\<^sup>2\<close>, and the lengths added
  to them are those of a packet's payload: the sums do not wrap, and offsets are naturals.
\<close>

section \<open>Model\<close>

record stream_chunk =
  chunk_offset :: nat
  chunk_data :: bytes

datatype stream_ec = EOF | OperationAborted | ConnectionReset | NotConnected

text \<open>A pending reader is the number of its completion handler.\<close>

record quic_stream =
  qs_stream_id :: nat
  qs_recv_offset :: nat
  qs_conn_alive :: bool
  qs_in_buffer :: stream_buffer
  qs_pending_inbound :: "stream_chunk list"
  qs_pending_read :: "nat option"
  qs_final_size :: "nat option"
  qs_is_open :: bool
  qs_fin_received :: bool
  qs_fin_sent :: bool
  qs_final_size_error :: bool

datatype stream_event =
    ReadReady nat "stream_ec option" nat    \<comment> \<open>handler, error, octets available\<close>
  | QueueStreamData nat bytes bool          \<comment> \<open>\<^verbatim>\<open>conn->queue_stream_data(id, data, fin)\<close>\<close>
  | CloseStream nat                         \<comment> \<open>\<^verbatim>\<open>conn->close_stream(id)\<close>\<close>

definition quic_stream_new :: "nat \<Rightarrow> quic_stream" where
  "quic_stream_new stream_id =
     \<lparr>qs_stream_id = stream_id, qs_recv_offset = 0, qs_conn_alive = True, qs_in_buffer = sb_new,
      qs_pending_inbound = [], qs_pending_read = None, qs_final_size = None, qs_is_open = True,
      qs_fin_received = False, qs_fin_sent = False, qs_final_size_error = False\<rparr>"

definition qs_is_finished :: "quic_stream \<Rightarrow> bool" where
  "qs_is_finished s \<longleftrightarrow> (qs_fin_sent s \<or> \<not> qs_is_open s) \<and> (qs_fin_received s \<or> \<not> qs_is_open s)"

definition qs_notify_finished :: "quic_stream \<Rightarrow> stream_event list" where
  "qs_notify_finished s =
     (if qs_is_finished s \<and> qs_conn_alive s then [CloseStream (qs_stream_id s)] else [])"

definition qs_queue :: "quic_stream \<Rightarrow> bytes \<Rightarrow> bool \<Rightarrow> stream_event list" where
  "qs_queue s d fin = (if qs_conn_alive s then [QueueStreamData (qs_stream_id s) d fin] else [])"

definition qs_cancel :: "quic_stream \<Rightarrow> quic_stream \<times> stream_event list" where
  "qs_cancel s =
     (case qs_pending_read s of
        Some h \<Rightarrow> (s\<lparr>qs_pending_read := None\<rparr>, [ReadReady h (Some OperationAborted) 0])
      | None \<Rightarrow> (s, []))"

text \<open>\<^verbatim>\<open>shutdown\<close>: whether the send side and the receive side are named by the argument.\<close>

definition qs_shutdown :: "bool \<Rightarrow> bool \<Rightarrow> quic_stream \<Rightarrow> quic_stream \<times> stream_event list" where
  "qs_shutdown snd_side rcv_side s =
     (let need_fin = snd_side \<and> \<not> qs_fin_sent s;
          s1 = s\<lparr>qs_fin_sent := qs_fin_sent s \<or> snd_side, qs_fin_received := qs_fin_received s \<or> rcv_side\<rparr>
      in (s1, (if need_fin then qs_queue s1 [] True else []) @ qs_notify_finished s1))"

definition qs_close :: "quic_stream \<Rightarrow> quic_stream \<times> stream_event list" where
  "qs_close s =
     (if \<not> qs_is_open s then (s, [])
      else let need_fin = \<not> qs_fin_sent s;
               s1 = s\<lparr>qs_is_open := False, qs_fin_sent := True, qs_pending_read := None\<rparr>
           in (s1, (if need_fin then qs_queue s1 [] True else [])
                   @ (case qs_pending_read s of Some h \<Rightarrow> [ReadReady h (Some ConnectionReset) 0] | None \<Rightarrow> [])
                   @ qs_notify_finished s1))"

definition qs_available :: "quic_stream \<Rightarrow> nat" where
  "qs_available s = sb_size (qs_in_buffer s)"

definition qs_read_some :: "nat \<Rightarrow> quic_stream \<Rightarrow> bytes \<times> stream_ec option \<times> quic_stream" where
  "qs_read_some n s =
     (if sb_empty (qs_in_buffer s) then
        ([], if qs_fin_received s \<or> \<not> qs_is_open s then Some EOF else None, s)
      else case sb_read n (qs_in_buffer s) of
             (d, b) \<Rightarrow> (d, None, s\<lparr>qs_in_buffer := b\<rparr>))"

text \<open>The loop of \<^verbatim>\<open>async_read_some\<close> over the caller's buffers, given by their sizes.\<close>

fun read_into :: "nat list \<Rightarrow> nat \<Rightarrow> stream_buffer \<Rightarrow> bytes \<times> stream_buffer" where
  "read_into [] to_copy b = ([], b)"
| "read_into (n # ns) to_copy b =
     (if to_copy = 0 then ([], b)
      else let chunk = min n to_copy;
               (d, b) = sb_read chunk b;
               (ds, b) = read_into ns (to_copy - chunk) b
           in (d @ ds, b))"

text \<open>
  \<^verbatim>\<open>async_read_some\<close> on a live stream: either the posted completion (error, octets copied into
  the buffers) or, with \<open>None\<close>, a registered reader.
\<close>

definition qs_async_read_some ::
    "nat \<Rightarrow> nat list \<Rightarrow> quic_stream \<Rightarrow> quic_stream \<times> (stream_ec option \<times> bytes) option" where
  "qs_async_read_some h sizes s =
     (if \<not> qs_is_open s \<and> sb_empty (qs_in_buffer s) then (s, Some (Some EOF, []))
      else if \<not> sb_empty (qs_in_buffer s) then
        case read_into sizes (min (sum_list sizes) (sb_size (qs_in_buffer s))) (qs_in_buffer s) of
          (d, b) \<Rightarrow> (s\<lparr>qs_in_buffer := b\<rparr>, Some (None, d))
      else if qs_fin_received s then (s, Some (Some EOF, []))
      else (s\<lparr>qs_pending_read := Some h\<rparr>, None))"

text \<open>The posted body of a registered reader, run when \<open>ReadReady\<close> fires with error \<open>ec\<close>.\<close>

definition qs_pending_complete ::
    "stream_ec option \<Rightarrow> nat list \<Rightarrow> quic_stream \<Rightarrow> quic_stream \<times> stream_ec option \<times> bytes" where
  "qs_pending_complete ec sizes s =
     (case ec of
        Some e \<Rightarrow> (s, Some e, [])
      | None \<Rightarrow>
          if sb_empty (qs_in_buffer s) then (s, if qs_fin_received s then Some EOF else None, [])
          else case read_into sizes (min (sum_list sizes) (sb_size (qs_in_buffer s))) (qs_in_buffer s) of
                 (d, b) \<Rightarrow> (s\<lparr>qs_in_buffer := b\<rparr>, None, d))"

definition qs_unread :: "bytes \<Rightarrow> quic_stream \<Rightarrow> quic_stream" where
  "qs_unread d s = s\<lparr>qs_in_buffer := sb_prepend d (qs_in_buffer s)\<rparr>"

definition qs_write_outbound ::
    "bytes \<Rightarrow> bool \<Rightarrow> quic_stream \<Rightarrow> quic_stream \<times> stream_event list \<times> stream_ec option" where
  "qs_write_outbound d fin s =
     (if qs_conn_alive s then
        let s1 = s\<lparr>qs_fin_sent := qs_fin_sent s \<or> fin\<rparr>
        in (s1, QueueStreamData (qs_stream_id s) d fin # (if fin then qs_notify_finished s1 else []), None)
      else (s, [], Some NotConnected))"

subsection \<open>Reassembly\<close>

text \<open>The final-size validation of \<^verbatim>\<open>push_inbound\<close>; \<open>None\<close> is the early return with the error flag.\<close>

definition check_final_size :: "nat \<Rightarrow> bytes \<Rightarrow> bool \<Rightarrow> quic_stream \<Rightarrow> quic_stream option" where
  "check_final_size off d fin s =
     (if fin then
        (case qs_final_size s of
           Some f \<Rightarrow> if f \<noteq> off + length d then None else Some s
         | None \<Rightarrow> if off + length d < qs_recv_offset s then None
                   else Some (s\<lparr>qs_final_size := Some (off + length d)\<rparr>))
      else
        (case qs_final_size s of
           Some f \<Rightarrow> if off + length d > f then None else Some s
         | None \<Rightarrow> Some s))"

definition final_size_reached :: "quic_stream \<Rightarrow> bool" where
  "final_size_reached s = (case qs_final_size s of Some f \<Rightarrow> qs_recv_offset s \<ge> f | None \<Rightarrow> False)"

text \<open>\<^verbatim>\<open>append_bytes\<close>.\<close>

definition append_bytes :: "bytes \<Rightarrow> quic_stream \<Rightarrow> quic_stream" where
  "append_bytes chunk s =
     (if chunk = [] then s
      else s\<lparr>qs_in_buffer := sb_append chunk (qs_in_buffer s),
             qs_recv_offset := qs_recv_offset s + length chunk\<rparr>)"

text \<open>The loop that drains contiguous chunks; the first argument is \<^verbatim>\<open>pending_inbound_\<close>.\<close>

fun drain_pending :: "stream_chunk list \<Rightarrow> quic_stream \<Rightarrow> quic_stream" where
  "drain_pending [] s = s\<lparr>qs_pending_inbound := []\<rparr>"
| "drain_pending (front # rest) s =
     (if chunk_offset front > qs_recv_offset s then s\<lparr>qs_pending_inbound := front # rest\<rparr>
      else drain_pending rest
             (if chunk_offset front + length (chunk_data front) > qs_recv_offset s
              then append_bytes (drop (qs_recv_offset s - chunk_offset front) (chunk_data front)) s
              else s))"

text \<open>\<^verbatim>\<open>std::lower_bound\<close> on the sorted vector and the insertion or replacement there.\<close>

definition insert_pending :: "nat \<Rightarrow> bytes \<Rightarrow> stream_chunk list \<Rightarrow> stream_chunk list" where
  "insert_pending off d cs =
     (let before = takeWhile (\<lambda>c. chunk_offset c < off) cs;
          from_it = dropWhile (\<lambda>c. chunk_offset c < off) cs;
          new = \<lparr>chunk_offset = off, chunk_data = d\<rparr>
      in case from_it of
           [] \<Rightarrow> before @ [new]
         | it # after \<Rightarrow>
             if chunk_offset it = off then
               if length (chunk_data it) \<ge> length d then cs
               else before @ it\<lparr>chunk_data := d\<rparr> # after
             else before @ new # it # after)"

definition pending_total :: "stream_chunk list \<Rightarrow> nat" where
  "pending_total cs = sum_list (map (\<lambda>c. length (chunk_data c)) cs)"

definition MAX_PENDING_INBOUND :: nat where
  "MAX_PENDING_INBOUND = 16 * 1024 * 1024"

definition take_reader :: "stream_ec option \<Rightarrow> nat \<Rightarrow> quic_stream \<Rightarrow> quic_stream \<times> stream_event list" where
  "take_reader ec n s =
     (case qs_pending_read s of
        Some h \<Rightarrow> (s\<lparr>qs_pending_read := None\<rparr>, [ReadReady h ec n])
      | None \<Rightarrow> (s, []))"

text \<open>The branch for data that reaches the receive offset.\<close>

definition push_contiguous :: "bytes \<Rightarrow> quic_stream \<Rightarrow> quic_stream \<times> stream_event list" where
  "push_contiguous d s =
     (let s = append_bytes d s;
          s = drain_pending (qs_pending_inbound s) s;
          s = (if final_size_reached s then s\<lparr>qs_fin_received := True\<rparr> else s);
          available = sb_size (qs_in_buffer s)
      in if available > 0 \<or> qs_fin_received s then
           take_reader (if available = 0 \<and> qs_fin_received s then Some EOF else None) available s
         else (s, []))"

definition push_body :: "nat \<Rightarrow> bytes \<Rightarrow> quic_stream \<Rightarrow> quic_stream \<times> stream_event list" where
  "push_body off d s =
     (if off + length d \<le> qs_recv_offset s then
        if final_size_reached s then
          let s = s\<lparr>qs_fin_received := True\<rparr>
          in if sb_empty (qs_in_buffer s) then take_reader (Some EOF) 0 s else (s, [])
        else (s, [])
      else
        let trim = qs_recv_offset s - off;
            (off, d) = (if off < qs_recv_offset s then (qs_recv_offset s, drop trim d) else (off, d))
        in if off = qs_recv_offset s then push_contiguous d s
           else if pending_total (qs_pending_inbound s) + length d \<le> MAX_PENDING_INBOUND
           then (s\<lparr>qs_pending_inbound := insert_pending off d (qs_pending_inbound s)\<rparr>, [])
           else (s, []))"

definition push_inbound :: "nat \<Rightarrow> bytes \<Rightarrow> bool \<Rightarrow> quic_stream \<Rightarrow> quic_stream \<times> stream_event list" where
  "push_inbound off d fin s =
     (case check_final_size off d fin s of
        None \<Rightarrow> (s\<lparr>qs_final_size_error := True\<rparr>, [])
      | Some s1 \<Rightarrow> (case push_body off d s1 of (s2, evs) \<Rightarrow> (s2, evs @ qs_notify_finished s2)))"

section \<open>Invariants\<close>

text \<open>What was handed out and what is buffered are the sent octets up to the receive offset.\<close>

definition delivered :: "bytes \<Rightarrow> bytes \<Rightarrow> quic_stream \<Rightarrow> bool" where
  "delivered S out s \<longleftrightarrow> sb_inv (qs_in_buffer s) \<and> qs_recv_offset s \<le> length S
     \<and> out @ sb_view (qs_in_buffer s) = take (qs_recv_offset s) S"

definition pending_sorted :: "stream_chunk list \<Rightarrow> bool" where
  "pending_sorted cs \<longleftrightarrow> sorted_wrt (\<lambda>a b. chunk_offset a < chunk_offset b) cs"

definition pending_fits :: "bytes \<Rightarrow> stream_chunk list \<Rightarrow> bool" where
  "pending_fits S cs \<longleftrightarrow> (\<forall>c \<in> set cs. fits S (chunk_offset c) (chunk_data c))"

text \<open>The structural invariant, for any peer: sorted chunks beyond the receive offset, bounded memory.\<close>

definition qs_inv :: "quic_stream \<Rightarrow> bool" where
  "qs_inv s \<longleftrightarrow> sb_inv (qs_in_buffer s) \<and> pending_sorted (qs_pending_inbound s)
     \<and> (\<forall>c \<in> set (qs_pending_inbound s). qs_recv_offset s < chunk_offset c)
     \<and> pending_total (qs_pending_inbound s) \<le> MAX_PENDING_INBOUND"

definition qs_sound :: "bytes \<Rightarrow> bytes \<Rightarrow> quic_stream \<Rightarrow> bool" where
  "qs_sound S out s \<longleftrightarrow> delivered S out s \<and> pending_fits S (qs_pending_inbound s)
     \<and> (qs_final_size s = None \<or> qs_final_size s = Some (length S))
     \<and> \<not> qs_final_size_error s \<and> qs_is_open s
     \<and> (qs_fin_received s \<longrightarrow> qs_recv_offset s = length S)"

section \<open>Lemmas\<close>

lemma append_bytes_delivered:
  assumes "delivered S out s" and "fits S (qs_recv_offset s) d"
  shows "delivered S out (append_bytes d s)"
  using assms by (auto simp: delivered_def append_bytes_def fits_def sbuf.append_view sbuf.append_inv take_add)

lemma append_bytes_fields [simp]:
  "qs_recv_offset (append_bytes d s) = qs_recv_offset s + length d"
  "qs_pending_inbound (append_bytes d s) = qs_pending_inbound s"
  "qs_final_size (append_bytes d s) = qs_final_size s"
  "qs_fin_received (append_bytes d s) = qs_fin_received s"
  "qs_is_open (append_bytes d s) = qs_is_open s"
  "qs_final_size_error (append_bytes d s) = qs_final_size_error s"
  "qs_pending_read (append_bytes d s) = qs_pending_read s"
  "qs_stream_id (append_bytes d s) = qs_stream_id s"
  by (auto simp: append_bytes_def)

lemma append_bytes_sb_inv: "sb_inv (qs_in_buffer s) \<Longrightarrow> sb_inv (qs_in_buffer (append_bytes d s))"
  by (simp add: append_bytes_def sbuf.append_inv)

lemma drain_pending_fields [simp]:
  "qs_final_size (drain_pending cs s) = qs_final_size s"
  "qs_fin_received (drain_pending cs s) = qs_fin_received s"
  "qs_is_open (drain_pending cs s) = qs_is_open s"
  "qs_final_size_error (drain_pending cs s) = qs_final_size_error s"
  "qs_pending_read (drain_pending cs s) = qs_pending_read s"
  "qs_stream_id (drain_pending cs s) = qs_stream_id s"
  by (induction cs arbitrary: s) auto

lemma drain_pending_delivered:
  assumes "delivered S out s" and "pending_fits S cs"
  shows "delivered S out (drain_pending cs s)"
  using assms
proof (induction cs arbitrary: s)
  case Nil
  then show ?case by (simp add: delivered_def)
next
  case (Cons c cs)
  let ?k = "qs_recv_offset s - chunk_offset c"
  let ?s = "if chunk_offset c + length (chunk_data c) > qs_recv_offset s
            then append_bytes (drop ?k (chunk_data c)) s else s"
  show ?case
  proof (cases "chunk_offset c > qs_recv_offset s")
    case True
    with Cons.prems show ?thesis by (simp add: delivered_def)
  next
    case False
    then have "fits S (qs_recv_offset s) (drop ?k (chunk_data c))"
      if "chunk_offset c + length (chunk_data c) > qs_recv_offset s"
      using fits_drop [of S "chunk_offset c" "chunk_data c" ?k] Cons.prems(2) that
      by (auto simp: pending_fits_def)
    with Cons.prems(1) have "delivered S out ?s"
      by (simp add: append_bytes_delivered)
    with Cons.IH [of ?s] Cons.prems(2) False show ?thesis by (simp add: pending_fits_def)
  qed
qed

lemma drain_pending_suffix: "\<exists>pre. cs = pre @ qs_pending_inbound (drain_pending cs s)"
proof (induction cs arbitrary: s)
  case (Cons c cs)
  then show ?case by (auto intro: exI [of _ "[]"]) (metis append_Cons)+
qed simp

lemma drain_pending_recv_mono: "qs_recv_offset s \<le> qs_recv_offset (drain_pending cs s)"
proof (induction cs arbitrary: s)
  case (Cons c cs)
  have "qs_recv_offset s \<le> qs_recv_offset (drain_pending cs (append_bytes d s))" for d
    using Cons.IH [of "append_bytes d s"] by simp
  then show ?case using Cons.IH by simp
qed simp

lemma drain_pending_sb_inv: "sb_inv (qs_in_buffer s) \<Longrightarrow> sb_inv (qs_in_buffer (drain_pending cs s))"
  by (induction cs arbitrary: s) (auto simp: append_bytes_sb_inv)

lemma drain_pending_beyond:
  "pending_sorted cs \<Longrightarrow>
     \<forall>c \<in> set (qs_pending_inbound (drain_pending cs s)). qs_recv_offset (drain_pending cs s) < chunk_offset c"
  by (induction cs arbitrary: s) (auto simp: pending_sorted_def)

text \<open>Every chunk is either delivered to its end by the drain or still pending.\<close>

lemma drain_pending_covers:
  "c \<in> set cs \<Longrightarrow> c \<in> set (qs_pending_inbound (drain_pending cs s))
     \<or> chunk_offset c + length (chunk_data c) \<le> qs_recv_offset (drain_pending cs s)"
proof (induction cs arbitrary: s)
  case (Cons a cs)
  let ?s = "if chunk_offset a + length (chunk_data a) > qs_recv_offset s
            then append_bytes (drop (qs_recv_offset s - chunk_offset a) (chunk_data a)) s else s"
  show ?case
  proof (cases "chunk_offset a > qs_recv_offset s")
    case False
    then have "chunk_offset a + length (chunk_data a) \<le> qs_recv_offset ?s" by auto
    then have "chunk_offset a + length (chunk_data a) \<le> qs_recv_offset (drain_pending cs ?s)"
      using drain_pending_recv_mono [of ?s cs] by linarith
    with False Cons show ?thesis by auto
  qed (use Cons.prems in auto)
qed simp

lemma pending_total_append [simp]: "pending_total (xs @ ys) = pending_total xs + pending_total ys"
  and pending_total_Nil [simp]: "pending_total [] = 0"
  and pending_total_Cons [simp]: "pending_total (c # cs) = length (chunk_data c) + pending_total cs"
  by (simp_all add: pending_total_def)

lemma insert_pending_total: "pending_total (insert_pending off d cs) \<le> pending_total cs + length d"
proof -
  have "pending_total cs = pending_total (takeWhile (\<lambda>c. chunk_offset c < off) cs)
      + pending_total (dropWhile (\<lambda>c. chunk_offset c < off) cs)"
    by (simp flip: pending_total_append)
  then show ?thesis by (auto simp: insert_pending_def Let_def split: list.splits)
qed

lemma insert_pending_end:
  "dropWhile (\<lambda>c. chunk_offset c < off) cs = [] \<Longrightarrow>
     insert_pending off d cs = takeWhile (\<lambda>c. chunk_offset c < off) cs @ [\<lparr>chunk_offset = off, chunk_data = d\<rparr>]"
  by (simp only: insert_pending_def Let_def list.case)

lemma insert_pending_at:
  "dropWhile (\<lambda>c. chunk_offset c < off) cs = it # after \<Longrightarrow>
     insert_pending off d cs =
       (if chunk_offset it = off then
          if length (chunk_data it) \<ge> length d then cs
          else takeWhile (\<lambda>c. chunk_offset c < off) cs @ \<lparr>chunk_offset = off, chunk_data = d\<rparr> # after
        else takeWhile (\<lambda>c. chunk_offset c < off) cs @ \<lparr>chunk_offset = off, chunk_data = d\<rparr> # it # after)"
  by (cases it) (simp add: insert_pending_def Let_def)

lemma insert_pending_set:
  "set (insert_pending off d cs) \<subseteq> insert \<lparr>chunk_offset = off, chunk_data = d\<rparr> (set cs)"
proof -
  let ?P = "\<lambda>c. chunk_offset c < off"
  have "set (takeWhile ?P cs) \<union> set (dropWhile ?P cs) = set cs"
    by (metis set_append takeWhile_dropWhile_id)
  then show ?thesis
    by (cases "dropWhile ?P cs") (auto simp: insert_pending_end insert_pending_at)
qed

lemma insert_pending_sorted:
  assumes cs: "pending_sorted cs"
  shows "pending_sorted (insert_pending off d cs)"
proof -
  let ?P = "\<lambda>c. chunk_offset c < off"
  have split: "pending_sorted (takeWhile ?P cs @ dropWhile ?P cs)" using cs by simp
  have before: "\<forall>c \<in> set (takeWhile ?P cs). chunk_offset c < off" by (auto dest: set_takeWhileD)
  show ?thesis
  proof (cases "dropWhile ?P cs")
    case Nil
    then show ?thesis
      unfolding insert_pending_end [OF Nil] using before split
      by (auto simp: pending_sorted_def sorted_wrt_append)
  next
    case (Cons it after)
    then have "\<not> chunk_offset it < off" using hd_dropWhile [of ?P cs] by simp
    then show ?thesis
      unfolding insert_pending_at [OF Cons] using cs before split Cons
      by (auto simp: pending_sorted_def sorted_wrt_append)
  qed
qed

lemma insert_pending_covers:
  "\<exists>c \<in> set (insert_pending off d cs). chunk_offset c = off \<and> length d \<le> length (chunk_data c)"
proof (cases "dropWhile (\<lambda>c. chunk_offset c < off) cs")
  case (Cons it after)
  then have "it \<in> set cs" by (metis list.set_intros(1) set_dropWhileD)
  with Cons show ?thesis by (auto simp: insert_pending_at)
qed (auto simp: insert_pending_end)

subsection \<open>Operations keep the invariants\<close>

lemma take_reader_state: "fst (take_reader ec n s) = s\<lparr>qs_pending_read := None\<rparr>"
  by (simp add: take_reader_def split: option.split)

abbreviation contiguous :: "bytes \<Rightarrow> quic_stream \<Rightarrow> quic_stream" where
  "contiguous d s \<equiv> drain_pending (qs_pending_inbound s) (append_bytes d s)"

lemma push_contiguous_fields [simp]:
  "qs_recv_offset (fst (push_contiguous d s)) = qs_recv_offset (contiguous d s)"
  "qs_pending_inbound (fst (push_contiguous d s)) = qs_pending_inbound (contiguous d s)"
  "qs_in_buffer (fst (push_contiguous d s)) = qs_in_buffer (contiguous d s)"
  "qs_final_size (fst (push_contiguous d s)) = qs_final_size s"
  "qs_is_open (fst (push_contiguous d s)) = qs_is_open s"
  "qs_final_size_error (fst (push_contiguous d s)) = qs_final_size_error s"
  "qs_fin_received (fst (push_contiguous d s)) = (qs_fin_received s \<or> final_size_reached (contiguous d s))"
  by (simp_all add: push_contiguous_def Let_def take_reader_state)

lemma drain_pending_inv:
  assumes "sb_inv (qs_in_buffer s)" and "pending_sorted cs" and "pending_total cs \<le> MAX_PENDING_INBOUND"
  shows "qs_inv (drain_pending cs s)"
proof -
  obtain pre where pre: "cs = pre @ qs_pending_inbound (drain_pending cs s)"
    using drain_pending_suffix by blast
  have "pending_sorted (qs_pending_inbound (drain_pending cs s))"
    using assms(2) by (subst (asm) pre) (simp add: pending_sorted_def sorted_wrt_append)
  moreover have "pending_total (qs_pending_inbound (drain_pending cs s)) \<le> MAX_PENDING_INBOUND"
    using assms(3) by (subst (asm) pre) simp
  ultimately show ?thesis
    using assms(1) drain_pending_beyond [OF assms(2)] by (simp add: qs_inv_def drain_pending_sb_inv)
qed

lemma qs_inv_cong:
  "qs_in_buffer s = qs_in_buffer t \<Longrightarrow> qs_pending_inbound s = qs_pending_inbound t \<Longrightarrow>
     qs_recv_offset s = qs_recv_offset t \<Longrightarrow> qs_inv s = qs_inv t"
  by (simp add: qs_inv_def)

lemma push_contiguous_inv: "qs_inv s \<Longrightarrow> qs_inv (fst (push_contiguous d s))"
proof -
  assume "qs_inv s"
  then have "qs_inv (contiguous d s)"
    by (intro drain_pending_inv) (simp_all add: qs_inv_def append_bytes_sb_inv)
  then show ?thesis by (subst qs_inv_cong [of _ "contiguous d s"]) simp_all
qed

text \<open>The three ways in which data is handled, by its position.\<close>

lemma push_body_cases:
  obtains (behind) "off + length d \<le> qs_recv_offset s"
      "qs_in_buffer (fst (push_body off d s)) = qs_in_buffer s"
      "qs_pending_inbound (fst (push_body off d s)) = qs_pending_inbound s"
      "qs_recv_offset (fst (push_body off d s)) = qs_recv_offset s"
      "qs_final_size (fst (push_body off d s)) = qs_final_size s"
      "qs_is_open (fst (push_body off d s)) = qs_is_open s"
      "qs_final_size_error (fst (push_body off d s)) = qs_final_size_error s"
      "qs_fin_received (fst (push_body off d s)) = (qs_fin_received s \<or> final_size_reached s)"
  | (front) "off \<le> qs_recv_offset s" "qs_recv_offset s < off + length d"
      "push_body off d s = push_contiguous (drop (qs_recv_offset s - off) d) s"
  | (gap) "qs_recv_offset s < off"
      "pending_total (qs_pending_inbound s) + length d \<le> MAX_PENDING_INBOUND"
      "push_body off d s = (s\<lparr>qs_pending_inbound := insert_pending off d (qs_pending_inbound s)\<rparr>, [])"
  | (dropped) "qs_recv_offset s < off"
      "MAX_PENDING_INBOUND < pending_total (qs_pending_inbound s) + length d"
      "push_body off d s = (s, [])"
proof (cases "off + length d \<le> qs_recv_offset s")
  case True
  then show ?thesis
    by (intro behind) (auto simp: push_body_def Let_def take_reader_state)
next
  case False
  consider "off \<le> qs_recv_offset s"
    | "qs_recv_offset s < off" "pending_total (qs_pending_inbound s) + length d \<le> MAX_PENDING_INBOUND"
    | "qs_recv_offset s < off" "MAX_PENDING_INBOUND < pending_total (qs_pending_inbound s) + length d"
    by linarith
  then show ?thesis
  proof cases
    case 1
    with False show ?thesis by (intro front) (auto simp: push_body_def)
  next
    case 2
    with False show ?thesis by (intro gap) (auto simp: push_body_def)
  next
    case 3
    with False show ?thesis by (intro dropped) (auto simp: push_body_def)
  qed
qed

lemma push_body_inv:
  assumes "qs_inv s"
  shows "qs_inv (fst (push_body off d s))"
proof (cases rule: push_body_cases [of off d s])
  case behind
  with assms show ?thesis by (subst qs_inv_cong [of _ s]) simp_all
next
  case front
  with assms show ?thesis by (simp add: push_contiguous_inv)
next
  case gap
  have "set (insert_pending off d (qs_pending_inbound s))
      \<subseteq> insert \<lparr>chunk_offset = off, chunk_data = d\<rparr> (set (qs_pending_inbound s))"
    by (rule insert_pending_set)
  then have "\<forall>c \<in> set (insert_pending off d (qs_pending_inbound s)). qs_recv_offset s < chunk_offset c"
    using assms gap(1) by (auto simp: qs_inv_def)
  with gap assms show ?thesis
    using insert_pending_total [of off d "qs_pending_inbound s"]
    by (simp add: qs_inv_def insert_pending_sorted)
next
  case dropped
  with assms show ?thesis by simp
qed

lemma check_final_size_fields:
  assumes "check_final_size off d fin s = Some s1"
  shows "qs_in_buffer s1 = qs_in_buffer s \<and> qs_pending_inbound s1 = qs_pending_inbound s
    \<and> qs_recv_offset s1 = qs_recv_offset s \<and> qs_is_open s1 = qs_is_open s
    \<and> qs_final_size_error s1 = qs_final_size_error s \<and> qs_fin_received s1 = qs_fin_received s"
  using assms by (auto simp: check_final_size_def split: if_splits option.splits)

lemma fst_push_inbound:
  "fst (push_inbound off d fin s) =
     (case check_final_size off d fin s of
        None \<Rightarrow> s\<lparr>qs_final_size_error := True\<rparr> | Some s1 \<Rightarrow> fst (push_body off d s1))"
  by (simp add: push_inbound_def split: option.split prod.split)

lemma push_inbound_inv:
  assumes "qs_inv s"
  shows "qs_inv (fst (push_inbound off d fin s))"
proof (cases "check_final_size off d fin s")
  case None
  with assms show ?thesis by (simp add: fst_push_inbound qs_inv_def)
next
  case (Some s1)
  then have "qs_inv s1" using assms check_final_size_fields [OF Some] by (simp add: qs_inv_def)
  with Some show ?thesis by (simp add: fst_push_inbound push_body_inv)
qed

text \<open>A frame that agrees with the sent octets, whose FIN, if any, is at their end.\<close>

definition good_push :: "bytes \<Rightarrow> nat \<Rightarrow> bytes \<Rightarrow> bool \<Rightarrow> bool" where
  "good_push S off d fin \<longleftrightarrow> fits S off d \<and> (fin \<longrightarrow> off + length d = length S)"

lemma check_final_size_sound:
  assumes "qs_sound S out s" and "good_push S off d fin"
  obtains s1 where "check_final_size off d fin s = Some s1" and "qs_sound S out s1"
    and "fin \<Longrightarrow> qs_final_size s1 = Some (length S)"
proof
  let ?s1 = "if fin then s\<lparr>qs_final_size := Some (length S)\<rparr> else s"
  have le: "off + length d \<le> length S" and fin: "fin \<Longrightarrow> off + length d = length S"
    using assms(2) by (simp_all add: good_push_def fits_def)
  have sz: "qs_final_size s = None \<or> qs_final_size s = Some (length S)"
    and recv: "qs_recv_offset s \<le> length S"
    using assms(1) by (simp_all add: qs_sound_def delivered_def)
  show "check_final_size off d fin s = Some ?s1"
    using le fin sz recv by (cases fin) (auto simp: check_final_size_def)
  show "qs_sound S out ?s1" using assms(1) by (simp add: qs_sound_def delivered_def)
qed simp

lemma final_size_reached_sound:
  "qs_sound S out s \<Longrightarrow> final_size_reached s \<Longrightarrow> qs_recv_offset s = length S"
  by (auto simp: qs_sound_def delivered_def final_size_reached_def split: option.splits)

lemma delivered_cong:
  "qs_in_buffer s = qs_in_buffer t \<Longrightarrow> qs_recv_offset s = qs_recv_offset t \<Longrightarrow>
     delivered S out s = delivered S out t"
  by (simp add: delivered_def)

lemma push_contiguous_sound:
  assumes "qs_sound S out s" and "fits S (qs_recv_offset s) d"
  shows "qs_sound S out (fst (push_contiguous d s))"
proof -
  let ?t = "contiguous d s"
  have del: "delivered S out ?t"
    using assms by (intro drain_pending_delivered append_bytes_delivered) (simp_all add: qs_sound_def)
  then have "delivered S out (fst (push_contiguous d s))"
    by (subst delivered_cong [of _ ?t]) simp_all
  moreover obtain pre where "qs_pending_inbound s = pre @ qs_pending_inbound ?t"
    using drain_pending_suffix by blast
  then have "set (qs_pending_inbound ?t) \<subseteq> set (qs_pending_inbound s)" by (metis set_append Un_upper2)
  then have "pending_fits S (qs_pending_inbound ?t)"
    using assms(1) by (auto simp: qs_sound_def pending_fits_def)
  moreover have "qs_recv_offset ?t = length S" if "qs_fin_received s \<or> final_size_reached ?t"
    using that
  proof
    assume "qs_fin_received s"
    then have "length S \<le> qs_recv_offset (append_bytes d s)" using assms(1) by (simp add: qs_sound_def)
    with drain_pending_recv_mono [of "append_bytes d s"] del show ?thesis
      by (metis delivered_def le_antisym le_trans)
  next
    assume "final_size_reached ?t"
    with del assms(1) show ?thesis
      by (auto simp: final_size_reached_def qs_sound_def delivered_def split: option.splits)
  qed
  ultimately show ?thesis using assms(1) by (simp add: qs_sound_def)
qed

lemma push_body_sound:
  assumes "qs_sound S out s" and "fits S off d"
  shows "qs_sound S out (fst (push_body off d s))"
proof (cases rule: push_body_cases [of off d s])
  case behind
  with assms(1) final_size_reached_sound [OF assms(1)] show ?thesis
    by (auto simp: qs_sound_def delivered_def)
next
  case front
  then have "fits S (qs_recv_offset s) (drop (qs_recv_offset s - off) d)"
    using fits_drop [OF assms(2), of "qs_recv_offset s - off"] by simp
  with front assms(1) show ?thesis by (simp add: push_contiguous_sound)
next
  case gap
  have "pending_fits S (insert_pending off d (qs_pending_inbound s))"
    using assms insert_pending_set [of off d "qs_pending_inbound s"]
    by (auto simp: qs_sound_def pending_fits_def)
  with gap assms(1) show ?thesis by (simp add: qs_sound_def delivered_def)
next
  case dropped
  with assms show ?thesis by simp
qed

lemma push_inbound_sound:
  assumes "qs_sound S out s" and "good_push S off d fin"
  shows "qs_sound S out (fst (push_inbound off d fin s))"
proof -
  obtain s1 where "check_final_size off d fin s = Some s1" "qs_sound S out s1"
    using check_final_size_sound [OF assms] by blast
  then show ?thesis using assms(2) by (simp add: fst_push_inbound push_body_sound good_push_def)
qed

lemma read_into_ok:
  assumes "sb_inv b" and "read_into sizes n b = (d, b')"
  shows "sb_inv b' \<and> d @ sb_view b' = sb_view b"
  using assms
proof (induction sizes arbitrary: n b d b')
  case (Cons k sizes)
  obtain d1 b1 where r1: "sb_read (min k n) b = (d1, b1)" by fastforce
  obtain d2 b2 where r2: "read_into sizes (n - min k n) b1 = (d2, b2)" by fastforce
  note q = sbuf.read_then_rest [OF Cons.prems(1) r1]
  note q2 = Cons.IH [OF _ r2]
  show ?case
    using Cons.prems q q2 by (cases "n = 0") (auto simp: r1 r2 Let_def)
qed simp

text \<open>
  Histories of a stream whose peer sends the octets \<open>S\<close>: frames in any order, duplicated or
  overlapping; reads of all three kinds; octets put back; cancellation; the end of our
  own sending.  The third argument is what the reader has.
\<close>

inductive stream_run :: "bytes \<Rightarrow> quic_stream \<Rightarrow> bytes \<Rightarrow> bool" for S where
  start: "stream_run S (quic_stream_new i) []"
| push: "stream_run S s out \<Longrightarrow> good_push S off d fin \<Longrightarrow> stream_run S (fst (push_inbound off d fin s)) out"
| read: "stream_run S s out \<Longrightarrow> qs_read_some n s = (d, ec, s') \<Longrightarrow> stream_run S s' (out @ d)"
| async: "stream_run S s out \<Longrightarrow> qs_async_read_some h sizes s = (s', Some (ec, d)) \<Longrightarrow> stream_run S s' (out @ d)"
| wait: "stream_run S s out \<Longrightarrow> qs_async_read_some h sizes s = (s', None) \<Longrightarrow> stream_run S s' out"
| resume: "stream_run S s out \<Longrightarrow> qs_pending_complete ec sizes s = (s', ec', d) \<Longrightarrow> stream_run S s' (out @ d)"
| unread: "stream_run S s (out @ d) \<Longrightarrow> stream_run S (qs_unread d s) out"
| cancel: "stream_run S s out \<Longrightarrow> stream_run S (fst (qs_cancel s)) out"
| finish: "stream_run S s out \<Longrightarrow> stream_run S (fst (qs_shutdown True False s)) out"
| write_out: "stream_run S s out \<Longrightarrow> stream_run S (fst (qs_write_outbound w fin s)) out"

lemma qs_sound_buffer_update:
  "qs_sound S out s \<Longrightarrow> sb_inv b \<Longrightarrow> out' @ sb_view b = out @ sb_view (qs_in_buffer s) \<Longrightarrow>
     qs_sound S out' (s\<lparr>qs_in_buffer := b\<rparr>)"
  by (auto simp: qs_sound_def delivered_def)

lemma qs_inv_buffer_update: "qs_inv s \<Longrightarrow> sb_inv b \<Longrightarrow> qs_inv (s\<lparr>qs_in_buffer := b\<rparr>)"
  by (simp add: qs_inv_def)

lemma read_into_step:
  assumes "qs_sound S out s \<and> qs_inv s" and "read_into sizes n (qs_in_buffer s) = (d, b)"
  shows "qs_sound S (out @ d) (s\<lparr>qs_in_buffer := b\<rparr>) \<and> qs_inv (s\<lparr>qs_in_buffer := b\<rparr>)"
proof -
  have "sb_inv b \<and> d @ sb_view b = sb_view (qs_in_buffer s)"
    using assms by (intro read_into_ok) (auto simp: qs_inv_def)
  with assms(1) show ?thesis
    using qs_sound_buffer_update [of S out s b "out @ d"] by (simp add: qs_inv_buffer_update)
qed

lemma stream_run_sound: "stream_run S s out \<Longrightarrow> qs_sound S out s \<and> qs_inv s"
proof (induction rule: stream_run.induct)
  case (start i)
  then show ?case
    by (simp add: quic_stream_new_def qs_sound_def delivered_def pending_fits_def qs_inv_def pending_sorted_def)
next
  case (push s out off d fin)
  then show ?case by (simp add: push_inbound_sound push_inbound_inv)
next
  case (read s out n d ec s')
  show ?case
  proof (cases "sb_empty (qs_in_buffer s)")
    case False
    obtain d1 b where r: "sb_read n (qs_in_buffer s) = (d1, b)" by fastforce
    have "sb_inv b \<and> d1 @ sb_view b = sb_view (qs_in_buffer s)"
      using read.IH r by (intro sbuf.read_then_rest) (auto simp: qs_inv_def)
    then show ?thesis
      using read False r qs_sound_buffer_update [of S out s b "out @ d1"] qs_inv_buffer_update [of s b]
      by (auto simp: qs_read_some_def)
  qed (use read in \<open>auto simp: qs_read_some_def\<close>)
next
  case (async s out h sizes s' ec d)
  then show ?case
    using read_into_step [OF async.IH]
    by (auto simp: qs_async_read_some_def split: if_splits prod.splits)
next
  case (wait s out h sizes s')
  then show ?case
    by (auto simp: qs_async_read_some_def qs_sound_def delivered_def qs_inv_def split: if_splits prod.splits)
next
  case (resume s out ec sizes s' ec' d)
  then show ?case
    using read_into_step [OF resume.IH]
    by (auto simp: qs_pending_complete_def split: if_splits prod.splits option.splits)
next
  case (unread s out d)
  then show ?case
    using qs_sound_buffer_update [of S "out @ d" s "sb_prepend d (qs_in_buffer s)" out]
    by (simp add: qs_unread_def qs_inv_def sbuf.prepend_inv sbuf.prepend_view)
next
  case (cancel s out)
  then show ?case
    by (auto simp: qs_cancel_def qs_sound_def delivered_def qs_inv_def split: option.splits)
next
  case (finish s out)
  then show ?case
    by (simp add: qs_shutdown_def Let_def qs_sound_def delivered_def qs_inv_def)
next
  case (write_out s out w fin)
  then show ?case
    by (simp add: qs_write_outbound_def Let_def qs_sound_def delivered_def qs_inv_def)
qed

text \<open>Evaluation of the operations on concrete streams.\<close>

lemmas stream_eval = push_inbound_def push_body_def push_contiguous_def check_final_size_def
  append_bytes_def insert_pending_def take_reader_def final_size_reached_def qs_read_some_def
  quic_stream_new_def qs_notify_finished_def qs_is_finished_def MAX_PENDING_INBOUND_def sb_new_def
  sb_append_def sb_read_def sb_compact_def sb_empty_def sb_size_def sb_view_def

section \<open>Properties\<close>

text \<open>
  C2.  In-order delivery: whatever the order, duplication and overlap of the frames a
  peer sends for the octets \<open>S\<close>, and however reads, put-backs and wake-ups interleave, the
  octets handed to the reader followed by the buffered ones are exactly the first
  \<^verbatim>\<open>recv_offset_\<close> octets of \<open>S\<close>, and no final-size error is raised.
\<close>

theorem stream_reassembly:
  assumes "stream_run S s out"
  shows "out @ sb_view (qs_in_buffer s) = take (qs_recv_offset s) S \<and> qs_recv_offset s \<le> length S
    \<and> \<not> qs_final_size_error s"
  using stream_run_sound [OF assms] by (simp add: qs_sound_def delivered_def)

definition sample_run :: quic_stream where
  "sample_run = fst (push_inbound 0 [1, 2] False (fst (push_inbound 1 [2, 3] True (quic_stream_new 4))))"

lemma sample_stream_run: "stream_run [1, 2, 3] sample_run []"
  unfolding sample_run_def
  by (intro stream_run.push stream_run.start) (simp_all add: good_push_def fits_def)

theorem stream_reassembly_witness:
  "[] @ sb_view (qs_in_buffer sample_run) = take (qs_recv_offset sample_run) [1, 2, 3]"
  using stream_reassembly [OF sample_stream_run] by simp

text \<open>
  End of stream: when a read of an open stream reports EOF, the reader has received
  every octet the peer sent.
\<close>

theorem stream_eof_complete:
  assumes "stream_run S s out" and "qs_read_some n s = (d, Some EOF, s')"
  shows "out = S \<and> d = []"
proof -
  have snd: "qs_sound S out s" using stream_run_sound [OF assms(1)] by simp
  have "sb_view (qs_in_buffer s) = []" "d = []" "qs_fin_received s"
    using assms(2) snd by (auto simp: qs_read_some_def qs_sound_def sb_empty_view split: if_splits prod.splits)
  with snd show ?thesis by (simp add: qs_sound_def delivered_def)
qed

theorem stream_eof_complete_witness:
  "\<exists>s out. stream_run [1, 2, 3] s out \<and> fst (snd (qs_read_some 5 s)) = Some EOF \<and> out = [1, 2, 3]"
proof -
  let ?s = "snd (snd (qs_read_some 9 sample_run))"
  have "qs_read_some 9 sample_run = ([1, 2, 3], None, ?s)"
    by (simp add: sample_run_def stream_eval)
  with stream_run.read [OF sample_stream_run] have run: "stream_run [1, 2, 3] ?s ([] @ [1, 2, 3])" by blast
  moreover have "qs_read_some 5 ?s = ([], Some EOF, ?s)"
    by (simp add: sample_run_def stream_eval)
  ultimately show ?thesis using stream_eof_complete [OF run] by (metis append_Nil fst_conv snd_conv)
qed

text \<open>
  Bounded reassembly for every peer, well-behaved or not: after any frame, the chunks
  that wait for a gap are sorted by offset, all beyond the receive offset, and hold at
  most 16 MiB.
\<close>

theorem push_inbound_bounded:
  assumes "qs_inv s"
  shows "qs_inv (fst (push_inbound off d fin s))
    \<and> pending_total (qs_pending_inbound (fst (push_inbound off d fin s))) \<le> 16 * 1024 * 1024"
  using push_inbound_inv [OF assms, of off d fin] by (simp add: qs_inv_def MAX_PENDING_INBOUND_def)

theorem push_inbound_bounded_witness:
  "qs_inv (fst (push_inbound 5 [1] False (quic_stream_new 0)))"
  using push_inbound_bounded [of "quic_stream_new 0" 5 "[1]" False]
  by (simp add: quic_stream_new_def qs_inv_def pending_sorted_def)




end
