(* ===== verification/Quic_Congestion.thy ===== *)
theory Quic_Congestion
  imports Wavex_Prelude "HOL-Library.Signed_Division"
begin

unbundle bit_operations_syntax

text \<open>
  Round-trip estimation and congestion control:
  \<^verbatim>\<open>src/include/wavex/Network/QUIC/CongestionControl.hpp\<close>.  Durations are the signed
  microsecond counts of \<^verbatim>\<open>std::chrono\<close>, whose division truncates; time points are ticks of
  the steady clock; byte counts are naturals.
\<close>

section \<open>Model\<close>

record rtt_stats =
  latest_rtt :: int
  min_rtt :: int
  smoothed_rtt :: int
  rttvar :: int
  first_rtt_sample :: bool

definition rtt_stats_new :: rtt_stats where
  "rtt_stats_new = \<lparr>latest_rtt = 0, min_rtt = 2 ^ 63 - 1, smoothed_rtt = 333000, rttvar = 166500,
     first_rtt_sample = True\<rparr>"

definition rtt_update :: "int \<Rightarrow> int \<Rightarrow> rtt_stats \<Rightarrow> rtt_stats" where
  "rtt_update latest ack_delay r =
     (let r = r\<lparr>latest_rtt := latest, min_rtt := (if min_rtt r > latest then latest else min_rtt r)\<rparr> in
      if first_rtt_sample r then
        r\<lparr>min_rtt := latest, smoothed_rtt := latest, rttvar := latest sdiv 2, first_rtt_sample := False\<rparr>
      else
        let adjusted_rtt = (if latest \<ge> min_rtt r + ack_delay then latest - ack_delay else latest);
            diff = (if smoothed_rtt r > adjusted_rtt then smoothed_rtt r - adjusted_rtt
                    else adjusted_rtt - smoothed_rtt r)
        in r\<lparr>rttvar := (rttvar r * 3 + diff) sdiv 4,
             smoothed_rtt := (smoothed_rtt r * 7 + adjusted_rtt) sdiv 8\<rparr>)"

definition kMaxDatagramSize :: nat where "kMaxDatagramSize = 1200"
definition kInitialWindow :: nat where "kInitialWindow = 14720"
definition kMinimumWindow :: nat where "kMinimumWindow = 2 * kMaxDatagramSize"
definition kPacketThreshold :: nat where "kPacketThreshold = 3"

record congestion_controller =
  recovery_start_time :: int
  bytes_in_flight :: nat
  congestion_window :: nat
  ssthresh :: nat
  cc_rtt_stats :: rtt_stats
  in_recovery :: bool

definition cc_new :: congestion_controller where
  "cc_new = \<lparr>recovery_start_time = 0, bytes_in_flight = 0, congestion_window = kInitialWindow,
     ssthresh = 2 ^ 64 - 1, cc_rtt_stats = rtt_stats_new, in_recovery = False\<rparr>"

definition can_send :: "congestion_controller \<Rightarrow> bool" where
  "can_send cc \<longleftrightarrow> bytes_in_flight cc < congestion_window cc"

definition on_packet_sent :: "nat \<Rightarrow> bool \<Rightarrow> congestion_controller \<Rightarrow> congestion_controller" where
  "on_packet_sent n in_flight cc =
     (if in_flight then cc\<lparr>bytes_in_flight := bytes_in_flight cc + n\<rparr> else cc)"

definition on_packet_acked :: "nat \<Rightarrow> congestion_controller \<Rightarrow> congestion_controller" where
  "on_packet_acked n cc =
     (let cc = cc\<lparr>bytes_in_flight := (if bytes_in_flight cc \<ge> n then bytes_in_flight cc - n else 0)\<rparr> in
      if in_recovery cc then cc
      else if congestion_window cc < ssthresh cc then cc\<lparr>congestion_window := congestion_window cc + n\<rparr>
      else cc\<lparr>congestion_window :=
                congestion_window cc + (kMaxDatagramSize * n) div congestion_window cc\<rparr>)"

definition on_congestion_event :: "int \<Rightarrow> int \<Rightarrow> congestion_controller \<Rightarrow> congestion_controller" where
  "on_congestion_event sent_time event_time cc =
     (if sent_time \<le> recovery_start_time cc then cc
      else let s = max (congestion_window cc div 2) kMinimumWindow
           in cc\<lparr>recovery_start_time := event_time, in_recovery := True, ssthresh := s,
                 congestion_window := s\<rparr>)"

definition exit_recovery :: "congestion_controller \<Rightarrow> congestion_controller" where
  "exit_recovery cc = cc\<lparr>in_recovery := False\<rparr>"

definition cc_update_rtt :: "int \<Rightarrow> int \<Rightarrow> congestion_controller \<Rightarrow> congestion_controller" where
  "cc_update_rtt rtt_sample ack_delay cc =
     cc\<lparr>cc_rtt_stats := rtt_update rtt_sample ack_delay (cc_rtt_stats cc)\<rparr>"

text \<open>
  The delay an ACK frame reports, as \<^verbatim>\<open>on_ack_received\<close> converts it:
  \<^verbatim>\<open>std::chrono::microseconds(ack.ack_delay << 3)\<close>, a 64-bit shift read as a signed count.
\<close>

definition ack_delay_us :: "u64 \<Rightarrow> int" where
  "ack_delay_us d = sint (push_bit 3 d)"

section \<open>Histories\<close>

datatype cc_event =
    Sent nat bool
  | Acked nat
  | Congestion int int
  | RttSample int int
  | ExitRecovery

fun cc_step :: "cc_event \<Rightarrow> congestion_controller \<Rightarrow> congestion_controller" where
  "cc_step (Sent n f) = on_packet_sent n f"
| "cc_step (Acked n) = on_packet_acked n"
| "cc_step (Congestion t e) = on_congestion_event t e"
| "cc_step (RttSample l d) = cc_update_rtt l d"
| "cc_step ExitRecovery = exit_recovery"

definition cc_run :: "cc_event list \<Rightarrow> congestion_controller \<Rightarrow> congestion_controller" where
  "cc_run evs cc = fold cc_step evs cc"

definition cc_inv :: "congestion_controller \<Rightarrow> bool" where
  "cc_inv cc \<longleftrightarrow> kMinimumWindow \<le> congestion_window cc \<and> kMinimumWindow \<le> ssthresh cc"

named_theorems cc_defs \<open>definitions of the congestion controller\<close>

declare on_packet_sent_def [cc_defs] on_packet_acked_def [cc_defs] on_congestion_event_def [cc_defs]
  exit_recovery_def [cc_defs] cc_update_rtt_def [cc_defs]

section \<open>Lemmas\<close>

lemma cc_step_inv: "cc_inv cc \<Longrightarrow> cc_inv (cc_step e cc)"
  by (cases e) (auto simp: cc_inv_def cc_defs Let_def)

lemma cc_run_inv: "cc_inv cc \<Longrightarrow> cc_inv (cc_run evs cc)"
  unfolding cc_run_def by (induction evs arbitrary: cc) (simp_all add: cc_step_inv)

lemma cc_new_inv: "cc_inv cc_new"
  by (simp add: cc_inv_def cc_new_def kMinimumWindow_def kMaxDatagramSize_def kInitialWindow_def)

lemma cc_step_recovery:
  assumes "in_recovery cc" and "cc_inv cc" and "e \<noteq> ExitRecovery"
  shows "in_recovery (cc_step e cc) \<and> congestion_window (cc_step e cc) \<le> congestion_window cc"
  using assms by (cases e) (auto simp: cc_inv_def cc_defs Let_def)

lemma cc_run_recovery:
  "in_recovery cc \<Longrightarrow> cc_inv cc \<Longrightarrow> ExitRecovery \<notin> set evs \<Longrightarrow>
     in_recovery (cc_run evs cc) \<and> congestion_window (cc_run evs cc) \<le> congestion_window cc"
  unfolding cc_run_def
proof (induction evs arbitrary: cc)
  case (Cons e evs)
  then have "in_recovery (cc_step e cc) \<and> congestion_window (cc_step e cc) \<le> congestion_window cc"
    by (intro cc_step_recovery) auto
  with Cons.IH [of "cc_step e cc"] Cons.prems show ?case by (auto simp: cc_step_inv)
qed simp

lemma sdiv_nonneg: "0 \<le> a \<Longrightarrow> 0 < b \<Longrightarrow> (a :: int) sdiv b = a div b"
  by (simp add: signed_divide_int_def sgn_if)

section \<open>Properties\<close>

text \<open>
  The congestion window never falls below the minimum window of two datagrams, in any
  history, so that the division by the window in congestion avoidance is defined, and no
  number of losses stops the sender.
\<close>

theorem cwnd_at_least_minimum:
  "kMinimumWindow \<le> congestion_window (cc_run evs cc_new) \<and> 0 < congestion_window (cc_run evs cc_new)"
  using cc_run_inv [OF cc_new_inv, of evs]
  by (simp add: cc_inv_def kMinimumWindow_def kMaxDatagramSize_def)

text \<open>
  One reduction per recovery period: losses of packets that were sent before the
  period began change nothing, and a new event halves the window down to the minimum and
  makes the threshold equal to it.
\<close>

theorem congestion_event_once:
  assumes "cc_inv cc" and "recovery_start_time cc < t" and "t' \<le> e"
  shows "congestion_window (on_congestion_event t e cc) = max (congestion_window cc div 2) kMinimumWindow
    \<and> ssthresh (on_congestion_event t e cc) = congestion_window (on_congestion_event t e cc)
    \<and> on_congestion_event t' e' (on_congestion_event t e cc) = on_congestion_event t e cc"
  using assms by (simp add: cc_defs Let_def)

theorem congestion_event_once_witness:
  "on_congestion_event 7 20 (on_congestion_event 5 10 cc_new) = on_congestion_event 5 10 cc_new"
  using congestion_event_once [of cc_new 5 7 10 20] cc_new_inv by (simp add: cc_new_def)

text \<open>
  Without a call of \<^verbatim>\<open>exit_recovery\<close>, which no code of the connection makes, the
  first congestion event is final: whatever is acknowledged afterwards, the controller stays
  in recovery and the window never grows again.
\<close>

theorem recovery_is_absorbing:
  assumes "in_recovery cc" and "cc_inv cc" and "ExitRecovery \<notin> set evs"
  shows "in_recovery (cc_run evs cc) \<and> congestion_window (cc_run evs cc) \<le> congestion_window cc"
  using assms by (rule cc_run_recovery)

theorem recovery_is_absorbing_witness:
  "congestion_window (cc_run [Acked 1200, Acked 1200] (on_congestion_event 5 10 cc_new)) \<le> 7360"
  using recovery_is_absorbing [of "on_congestion_event 5 10 cc_new" "[Acked 1200, Acked 1200]"]
    cc_step_inv [OF cc_new_inv, of "Congestion 5 10"]
  by (simp add: cc_defs cc_new_def kInitialWindow_def kMinimumWindow_def kMaxDatagramSize_def)

text \<open>
  The estimator is a weighted mean: with a genuine, non-negative delay and non-negative
  samples, the smoothed round-trip time never exceeds the larger of its old value and the
  sample, stays non-negative, and the minimum is a lower bound of the sample.
\<close>

theorem rtt_update_mean:
  assumes "0 \<le> latest" and "0 \<le> ack_delay" and "0 \<le> smoothed_rtt r" and "0 \<le> rttvar r" and "0 \<le> min_rtt r"
  shows "0 \<le> smoothed_rtt (rtt_update latest ack_delay r)
    \<and> smoothed_rtt (rtt_update latest ack_delay r) \<le> max (smoothed_rtt r) latest
    \<and> min_rtt (rtt_update latest ack_delay r) \<le> latest
    \<and> 0 \<le> rttvar (rtt_update latest ack_delay r)"
proof (cases "first_rtt_sample r")
  case True
  with assms show ?thesis by (simp add: rtt_update_def Let_def sdiv_nonneg)
next
  case False
  let ?m = "if min_rtt r > latest then latest else min_rtt r"
  let ?a = "if latest \<ge> ?m + ack_delay then latest - ack_delay else latest"
  have m: "0 \<le> ?m" "?m \<le> latest" using assms by auto
  then have a: "0 \<le> ?a" "?a \<le> latest" using assms by auto
  have "smoothed_rtt r * 7 + ?a \<le> 8 * max (smoothed_rtt r) latest" using a by auto
  then have "(smoothed_rtt r * 7 + ?a) div 8 \<le> max (smoothed_rtt r) latest" by linarith
  with a m assms False show ?thesis
    by (auto simp: rtt_update_def Let_def sdiv_nonneg pos_imp_zdiv_nonneg_iff)
qed

theorem rtt_update_mean_witness:
  "smoothed_rtt (rtt_update 40000 8 (rtt_update 50000 0 rtt_stats_new)) \<le> 50000"
  using rtt_update_mean [of 40000 8 "rtt_update 50000 0 rtt_stats_new"]
  by (simp add: rtt_update_def rtt_stats_new_def sdiv_nonneg)

text \<open>
  A peer can inflate the estimate through the ACK delay: the encoded delay
  \<open>2\<^sup>6\<^sup>1 - 1000000\<close> is shifted into a negative duration of eight seconds, is subtracted from
  a sample of 50 ms, and lifts the smoothed round-trip time above one second, beyond every
  sample that was ever taken.
\<close>

theorem ack_delay_inflates_rtt:
  "ack_delay_us (2 ^ 61 - 1000000) = - 8000000
   \<and> smoothed_rtt (rtt_update 50000 (ack_delay_us (2 ^ 61 - 1000000)) (rtt_update 50000 0 rtt_stats_new)) = 1050000"
proof -
  have "ack_delay_us (2 ^ 61 - 1000000) = - 8000000"
    by (simp add: ack_delay_us_def push_bit_eq_mult)
  then show ?thesis by (simp add: rtt_update_def rtt_stats_new_def sdiv_nonneg)
qed

end
