(* ===== verification/Quic_Ack.thy ===== *)
theory Quic_Ack
  imports Quic_Frames
begin

text \<open>
  Acknowledgements: \<^verbatim>\<open>QuicConnection::ReceivedPacketTracker\<close> (received packet numbers as a
  bounded list of intervals, the ACK frame built from it) and the decoding of an ACK
  frame's ranges in \<^verbatim>\<open>QuicConnection::on_ack_received\<close>.  Packet numbers are naturals: they
  come from variable-length integers or counters, and \<^verbatim>\<open>pn + 1\<close> does not wrap.
\<close>

section \<open>Model\<close>

type_synonym interval = "nat \<times> nat"

record packet_tracker =
  pt_intervals :: "interval list"
  pt_largest_pn :: nat
  pt_evicted_below :: nat
  pt_has_packets :: bool
  pt_ack_eliciting_pending :: bool

definition tracker_new :: packet_tracker where
  "tracker_new = \<lparr>pt_intervals = [], pt_largest_pn = 0, pt_evicted_below = 0, pt_has_packets = False,
     pt_ack_eliciting_pending = False\<rparr>"

text \<open>
  The insertion into a non-empty list of intervals; \<open>before\<close> and \<open>from_it\<close> are the parts
  in front of and from the iterator.  \<open>None\<close> stands for the cases that return early with
  the list changed in place; a new interval, with \<open>Some\<close>, is subject to the cap.
\<close>

definition interval_insert :: "nat \<Rightarrow> interval list \<Rightarrow> interval list \<times> bool" where
  "interval_insert pn ivs =
     (let before = takeWhile (\<lambda>(lo, hi). hi < pn) ivs;
          from_it = dropWhile (\<lambda>(lo, hi). hi < pn) ivs;
          extend_prev =
            (if before \<noteq> [] \<and> snd (last before) + 1 = pn then
               (case from_it of
                  (lo, hi) # after \<Rightarrow>
                    if pn + 1 = lo then (butlast before @ (fst (last before), hi) # after, False)
                    else (butlast before @ (fst (last before), pn) # from_it, False)
                | [] \<Rightarrow> (butlast before @ [(fst (last before), pn)], False))
             else (before @ (pn, pn) # from_it, True))
      in case from_it of
           (lo, hi) # after \<Rightarrow>
             if lo \<le> pn \<and> pn \<le> hi then (ivs, False)
             else if pn + 1 = lo then
               if before \<noteq> [] \<and> snd (last before) + 1 = pn
               then (butlast before @ (fst (last before), hi) # after, False)
               else (before @ (pn, hi) # after, False)
             else extend_prev
         | [] \<Rightarrow> extend_prev)"

definition add_packet :: "nat \<Rightarrow> bool \<Rightarrow> packet_tracker \<Rightarrow> packet_tracker" where
  "add_packet pn ack_eliciting t =
     (let t = t\<lparr>pt_has_packets := True,
                pt_ack_eliciting_pending := pt_ack_eliciting_pending t \<or> ack_eliciting\<rparr> in
      if pt_intervals t = [] then t\<lparr>pt_intervals := [(pn, pn)], pt_largest_pn := pn\<rparr>
      else let t = t\<lparr>pt_largest_pn := max (pt_largest_pn t) pn\<rparr> in
        case interval_insert pn (pt_intervals t) of
          (ivs, inserted) \<Rightarrow>
            if inserted \<and> length ivs > 64 then
              t\<lparr>pt_evicted_below := max (pt_evicted_below t) (snd (hd ivs) + 1), pt_intervals := tl ivs\<rparr>
            else t\<lparr>pt_intervals := ivs\<rparr>)"

definition tracker_contains :: "packet_tracker \<Rightarrow> nat \<Rightarrow> bool" where
  "tracker_contains t pn =
     (if \<not> pt_has_packets t then False
      else if pt_evicted_below t > 0 \<and> pn < pt_evicted_below t then True
      else list_ex (\<lambda>(lo, hi). pn \<ge> lo \<and> pn \<le> hi) (pt_intervals t))"

definition mark_ack_sent :: "packet_tracker \<Rightarrow> packet_tracker" where
  "mark_ack_sent t = t\<lparr>pt_ack_eliciting_pending := False\<rparr>"

definition needs_ack :: "packet_tracker \<Rightarrow> bool" where
  "needs_ack t \<longleftrightarrow> pt_has_packets t \<and> pt_ack_eliciting_pending t"

definition tracker_reset :: "packet_tracker \<Rightarrow> packet_tracker" where
  "tracker_reset t = tracker_new"

text \<open>The ranges below the first one, from the last interval down.\<close>

fun ack_gaps :: "interval list \<Rightarrow> ack_range list" where
  "ack_gaps (prev # cur # rest) =
     \<lparr>gap = of_nat (if fst prev > snd cur + 2 then fst prev - snd cur - 2 else 0),
      ack_range_len = of_nat (snd cur - fst cur)\<rparr> # ack_gaps (cur # rest)"
| "ack_gaps _ = []"

definition build_ack_frame :: "u64 \<Rightarrow> packet_tracker \<Rightarrow> ack_frame" where
  "build_ack_frame delay t =
     (case rev (pt_intervals t) of
        [] \<Rightarrow> \<lparr>ack_ranges = [\<lparr>gap = 0, ack_range_len = 0\<rparr>],
               largest_acknowledged = of_nat (pt_largest_pn t), ack_delay = delay, ack_ecn = False\<rparr>
      | newest # rest \<Rightarrow>
          \<lparr>ack_ranges = \<lparr>gap = 0, ack_range_len = of_nat (snd newest - fst newest)\<rparr> # ack_gaps (newest # rest),
           largest_acknowledged = of_nat (snd newest), ack_delay = delay, ack_ecn = False\<rparr>)"

text \<open>The decoding loop of \<^verbatim>\<open>on_ack_received\<close>; it stops at a range below packet number 0.\<close>

fun decode_ranges :: "nat \<Rightarrow> ack_range list \<Rightarrow> interval list" where
  "decode_ranges smallest [] = []"
| "decode_ranges smallest (r # rs) =
     (if smallest < unat (gap r) + 2 then []
      else let largest = smallest - unat (gap r) - 2;
               len = unat (ack_range_len r);
               smallest = (if largest \<ge> len then largest - len else 0)
           in (smallest, largest) # decode_ranges smallest rs)"

definition acked_ranges :: "ack_frame \<Rightarrow> interval list" where
  "acked_ranges ack =
     (let largest = unat (largest_acknowledged ack);
          first_range_len = (if ack_ranges ack = [] then 0 else unat (ack_range_len (ack_ranges ack ! 0)));
          smallest = (if largest \<ge> first_range_len then largest - first_range_len else 0)
      in (smallest, largest) # decode_ranges smallest (drop 1 (ack_ranges ack)))"

definition is_acked :: "interval list \<Rightarrow> nat \<Rightarrow> bool" where
  "is_acked ranges pn = list_ex (\<lambda>(min_pn, max_pn). pn \<ge> min_pn \<and> pn \<le> max_pn) ranges"

section \<open>Invariant\<close>

definition ivs_set :: "interval list \<Rightarrow> nat set" where
  "ivs_set ivs = {pn. \<exists>(lo, hi) \<in> set ivs. lo \<le> pn \<and> pn \<le> hi}"

text \<open>Ascending, disjoint, not adjacent.\<close>

definition ivs_wf :: "interval list \<Rightarrow> bool" where
  "ivs_wf ivs \<longleftrightarrow> sorted_wrt (\<lambda>a b. snd a + 1 < fst b) ivs \<and> list_all (\<lambda>a. fst a \<le> snd a) ivs"

definition tracker_inv :: "packet_tracker \<Rightarrow> bool" where
  "tracker_inv t \<longleftrightarrow> ivs_wf (pt_intervals t) \<and> length (pt_intervals t) \<le> 64
     \<and> (pt_has_packets t \<longleftrightarrow> pt_intervals t \<noteq> [])
     \<and> list_all (\<lambda>a. snd a \<le> pt_largest_pn t) (pt_intervals t)"

section \<open>Lemmas\<close>

lemma ivs_set_simps [simp]:
  "ivs_set [] = {}" "ivs_set ((lo, hi) # ivs) = {lo..hi} \<union> ivs_set ivs"
  "ivs_set (xs @ ys) = ivs_set xs \<union> ivs_set ys"
  by (auto simp: ivs_set_def)

lemma ivs_set_Cons: "ivs_set (a # ivs) = {fst a..snd a} \<union> ivs_set ivs"
  by (cases a) simp

lemma list_ex_ivs: "list_ex (\<lambda>(lo, hi). pn \<ge> lo \<and> pn \<le> hi) ivs \<longleftrightarrow> pn \<in> ivs_set ivs"
  by (auto simp: list_ex_iff ivs_set_def)

text \<open>The parts in front of and from the iterator, and the insertion in terms of them.\<close>

lemma interval_insert_parts:
  obtains before from_it where "ivs = before @ from_it" and "list_all (\<lambda>a. snd a < pn) before"
    and "\<And>lo hi after. from_it = (lo, hi) # after \<Longrightarrow> pn \<le> hi"
    and "interval_insert pn ivs =
      (case from_it of
         (lo, hi) # after \<Rightarrow>
           if lo \<le> pn \<and> pn \<le> hi then (ivs, False)
           else if pn + 1 = lo then
             if before \<noteq> [] \<and> snd (last before) + 1 = pn
             then (butlast before @ (fst (last before), hi) # after, False)
             else (before @ (pn, hi) # after, False)
           else if before \<noteq> [] \<and> snd (last before) + 1 = pn
             then (butlast before @ (fst (last before), pn) # from_it, False)
             else (before @ (pn, pn) # from_it, True)
       | [] \<Rightarrow>
           if before \<noteq> [] \<and> snd (last before) + 1 = pn
           then (butlast before @ [(fst (last before), pn)], False)
           else (before @ [(pn, pn)], True))"
proof -
  let ?P = "\<lambda>(lo, hi). hi < pn"
  define before where "before = takeWhile ?P ivs"
  define from_it where "from_it = dropWhile ?P ivs"
  show ?thesis
  proof (rule that)
    show "ivs = before @ from_it" by (simp add: before_def from_it_def)
    show "list_all (\<lambda>a. snd a < pn) before"
      by (auto simp: before_def list_all_iff dest: set_takeWhileD)
    show "pn \<le> hi" if "from_it = (lo, hi) # after" for lo hi after
      using hd_dropWhile [of ?P ivs] that unfolding from_it_def by simp
  qed (unfold interval_insert_def Let_def before_def [symmetric] from_it_def [symmetric],
      auto split: list.splits)
qed

lemma ivs_gap_before:
  assumes "ivs_wf ivs" and "ivs = before @ from_it" and "before = [] \<or> snd (last before) + 1 < pn"
  shows "list_all (\<lambda>a. snd a + 1 < pn) before"
proof (cases before rule: rev_cases)
  case (snoc xs x)
  with assms show ?thesis by (fastforce simp: ivs_wf_def list_all_iff sorted_wrt_append)
qed simp

lemma ivs_gap_after:
  assumes "ivs_wf ivs" and "ivs = before @ from_it" and "from_it = (lo, hi) # after" and "pn + 1 < lo"
  shows "list_all (\<lambda>a. pn + 1 < fst a) from_it"
  using assms by (fastforce simp: ivs_wf_def list_all_iff sorted_wrt_append)

text \<open>The cases of an insertion, with the iterator's neighbours named.\<close>

lemma interval_insert_cases:
  assumes wf: "ivs_wf ivs"
  obtains (inside) "pn \<in> ivs_set ivs" "interval_insert pn ivs = (ivs, False)"
  | (below) before hi after where "ivs = before @ (pn + 1, hi) # after"
      "list_all (\<lambda>a. snd a + 1 < pn) before"
      "interval_insert pn ivs = (before @ (pn, hi) # after, False)"
  | (join) before lo hi after where "0 < pn" "ivs = before @ (lo, pn - 1) # (pn + 1, hi) # after"
      "interval_insert pn ivs = (before @ (lo, hi) # after, False)"
  | (above) before lo after where "0 < pn" "ivs = before @ (lo, pn - 1) # after"
      "list_all (\<lambda>a. pn + 1 < fst a) after"
      "interval_insert pn ivs = (before @ (lo, pn) # after, False)"
  | (fresh) before after where "ivs = before @ after" "interval_insert pn ivs = (before @ (pn, pn) # after, True)"
      "list_all (\<lambda>a. snd a + 1 < pn) before" "list_all (\<lambda>a. pn + 1 < fst a) after"
proof (cases rule: interval_insert_parts [of ivs pn])
  case (1 before from_it)
  note split = 1(1) and lt = 1(2) and hd_ge = 1(3) and ins = 1(4)
  let ?adj = "before \<noteq> [] \<and> snd (last before) + 1 = pn"
  have no_adj: "before = [] \<or> snd (last before) + 1 < pn" if "\<not> ?adj"
    using lt that by (auto simp: list_all_iff) (metis Suc_lessI last_in_set)
  have gap: "list_all (\<lambda>a. snd a + 1 < pn) before" if "\<not> ?adj"
    using ivs_gap_before [OF wf split no_adj [OF that]] .
  have snoc: "before = butlast before @ [(fst (last before), pn - 1)] \<and> 0 < pn" if ?adj
    using that by (metis add_gr_0 append_butlast_last_id diff_add_inverse2 less_one prod.collapse)
  show ?thesis
  proof (cases from_it)
    case Nil
    show ?thesis
    proof (cases ?adj)
      case True
      then show ?thesis using Nil ins split snoc by (intro above [of "butlast before" "fst (last before)" "[]"]) auto
    next
      case False
      then show ?thesis using Nil ins split gap by (intro fresh [of before "[]"]) auto
    qed
  next
    case (Cons a after)
    obtain lo hi where a: "a = (lo, hi)" by fastforce
    note f = Cons [unfolded a]
    have hi: "pn \<le> hi" using hd_ge f by blast
    consider "lo \<le> pn" | "pn + 1 = lo" | "pn + 1 < lo" by linarith
    then show ?thesis
    proof cases
      case 1
      then show ?thesis using f ins hi split by (intro inside) auto
    next
      case 2
      show ?thesis
      proof (cases ?adj)
        case True
        then show ?thesis
          using f 2 ins split snoc by (intro join [of "butlast before" "fst (last before)" hi after]) auto
      next
        case False
        then show ?thesis using f 2 ins split gap by (intro below [of before hi after]) auto
      qed
    next
      case 3
      then have all: "list_all (\<lambda>a. pn + 1 < fst a) from_it" 
        using ivs_gap_after [OF wf split f] by blast
      show ?thesis
      proof (cases ?adj)
        case True
        then show ?thesis
          using f 3 ins split snoc all by (intro above [of "butlast before" "fst (last before)" from_it]) auto
      next
        case False
        then show ?thesis using f 3 ins split all gap by (intro fresh [of before from_it]) auto
      qed
    qed
  qed
qed

lemma ivs_wf_mid:
  "ivs_wf (xs @ a # ys) \<longleftrightarrow> ivs_wf xs \<and> ivs_wf ys \<and> fst a \<le> snd a
     \<and> (\<forall>x \<in> set xs. snd x + 1 < fst a) \<and> (\<forall>y \<in> set ys. snd a + 1 < fst y)
     \<and> (\<forall>x \<in> set xs. \<forall>y \<in> set ys. snd x + 1 < fst y)"
  by (auto simp: ivs_wf_def sorted_wrt_append)

lemma ivs_wf_Nil [simp]: "ivs_wf []"
  by (simp add: ivs_wf_def)

lemma ivs_wf_append:
  "ivs_wf (xs @ ys) \<longleftrightarrow> ivs_wf xs \<and> ivs_wf ys \<and> (\<forall>x \<in> set xs. \<forall>y \<in> set ys. snd x + 1 < fst y)"
  by (auto simp: ivs_wf_def sorted_wrt_append)

lemma ivs_wf_Cons:
  "ivs_wf (a # ys) \<longleftrightarrow> ivs_wf ys \<and> fst a \<le> snd a \<and> (\<forall>y \<in> set ys. snd a + 1 < fst y)"
  using ivs_wf_mid [of "[]" a ys] by simp

lemma interval_insert_ok:
  assumes wf: "ivs_wf ivs" and ins: "interval_insert pn ivs = (ivs', new)"
  shows "ivs_wf ivs' \<and> ivs_set ivs' = insert pn (ivs_set ivs) \<and> ivs' \<noteq> []
    \<and> length ivs' \<le> length ivs + (if new then 1 else 0)"
  using wf
proof (cases rule: interval_insert_cases [where pn = pn])
  case inside
  then show ?thesis using ins wf by auto
next
  case (below before hi after)
  have "ivs_wf (before @ (pn, hi) # after)" and hi: "pn \<le> hi"
    using wf below(2) unfolding below(1) by (auto simp: ivs_wf_mid list_all_iff)
  moreover have "{pn..hi} = insert pn {pn + 1..hi}" using hi by auto
  ultimately show ?thesis using ins below by simp
next
  case (join before lo hi after)
  have "ivs_wf (before @ (lo, hi) # after)" and "lo \<le> pn - 1" "pn + 1 \<le> hi"
    using wf join(1) unfolding join(2) by (auto simp: ivs_wf_mid ivs_wf_Cons)
  moreover from this have "{lo..hi} = insert pn ({lo..pn - 1} \<union> {pn + 1..hi})" using join(1) by auto
  ultimately show ?thesis using ins join by auto
next
  case (above before lo after)
  have "ivs_wf (before @ (lo, pn) # after)" and "lo \<le> pn - 1"
    using wf above(1,3) unfolding above(2) by (auto simp: ivs_wf_mid list_all_iff)
  moreover from this have "{lo..pn} = insert pn {lo..pn - 1}" using above(1) by auto
  ultimately show ?thesis using ins above by auto
next
  case (fresh before after)
  then have "ivs_wf (before @ (pn, pn) # after)"
    using wf unfolding fresh(1) by (auto simp: ivs_wf_append ivs_wf_Cons list_all_iff)
  then show ?thesis using ins fresh by auto
qed

lemma interval_insert_top:
  assumes "ivs_wf ivs" and "interval_insert pn ivs = (ivs', new)" and "list_all (\<lambda>a. snd a \<le> m) ivs"
  shows "list_all (\<lambda>a. snd a \<le> max m pn) ivs'"
proof -
  have "ivs_wf ivs'" and set: "ivs_set ivs' = insert pn (ivs_set ivs)"
    using interval_insert_ok [OF assms(1,2)] by auto
  have "snd a \<le> max m pn" if "a \<in> set ivs'" for a
  proof -
    have "snd a \<in> ivs_set ivs'"
      using that \<open>ivs_wf ivs'\<close>
      by (auto simp: ivs_set_def ivs_wf_def list_all_iff split_beta intro!: bexI [of _ a])
    then have "snd a = pn \<or> snd a \<in> ivs_set ivs" using set by simp
    then show ?thesis using assms(3) by (fastforce simp: ivs_set_def list_all_iff)
  qed
  then show ?thesis by (simp add: list_all_iff)
qed

lemma ivs_wf_tl: "ivs_wf (a # ivs) \<Longrightarrow> ivs_wf ivs"
  by (simp add: ivs_wf_Cons)

text \<open>What an addition does to the intervals, with and without eviction.\<close>

lemma add_packet_cases:
  assumes "tracker_inv t"
  obtains (kept) ivs where "pt_intervals (add_packet pn e t) = ivs"
      "ivs_wf ivs" "ivs \<noteq> []" "ivs_set ivs = insert pn (ivs_set (pt_intervals t))" "length ivs \<le> 64"
      "pt_evicted_below (add_packet pn e t) = pt_evicted_below t"
      "list_all (\<lambda>a. snd a \<le> pt_largest_pn (add_packet pn e t)) ivs"
  | (evicted) a ivs where "pt_intervals (add_packet pn e t) = ivs"
      "ivs_wf (a # ivs)" "ivs_set (a # ivs) = insert pn (ivs_set (pt_intervals t))" "length ivs = 64"
      "pt_evicted_below (add_packet pn e t) = max (pt_evicted_below t) (snd a + 1)"
      "list_all (\<lambda>a. snd a \<le> pt_largest_pn (add_packet pn e t)) ivs"
proof (cases "pt_intervals t = []")
  case True
  then show ?thesis by (intro kept [of "[(pn, pn)]"]) (auto simp: add_packet_def ivs_wf_def)
next
  case False
  obtain ivs new where ins: "interval_insert pn (pt_intervals t) = (ivs, new)" by fastforce
  have wf: "ivs_wf (pt_intervals t)" "length (pt_intervals t) \<le> 64"
    "list_all (\<lambda>a. snd a \<le> pt_largest_pn t) (pt_intervals t)"
    using assms by (auto simp: tracker_inv_def)
  note ok = interval_insert_ok [OF wf(1) ins] and top = interval_insert_top [OF wf(1) ins wf(3)]
  show ?thesis
  proof (cases "new \<and> length ivs > 64")
    case True
    then obtain a rest where r: "ivs = a # rest" by (cases ivs) auto
    show ?thesis
      using False ins ok top True wf(2) r by (intro evicted [of rest a]) (auto simp: add_packet_def Let_def)
  next
    case notev: False
    show ?thesis
      using False ins ok top notev wf(2) by (intro kept [of ivs]) (auto simp: add_packet_def Let_def split: if_splits)
  qed
qed

lemma add_packet_has [simp]: "pt_has_packets (add_packet pn e t)"
  by (simp add: add_packet_def Let_def split: prod.split)

lemma add_packet_inv:
  assumes "tracker_inv t"
  shows "tracker_inv (add_packet pn e t)"
  using assms
proof (cases rule: add_packet_cases [where pn = pn and e = e])
  case (kept ivs)
  then show ?thesis by (simp add: tracker_inv_def)
next
  case (evicted a ivs)
  then show ?thesis by (auto simp: tracker_inv_def dest: ivs_wf_tl)
qed

lemma tracker_contains_iff:
  "tracker_contains t q \<longleftrightarrow> pt_has_packets t \<and> (q < pt_evicted_below t \<or> q \<in> ivs_set (pt_intervals t))"
  by (auto simp: tracker_contains_def list_ex_ivs)

subsection \<open>ACK frames\<close>

lemma unat_of_nat_64: "n < 2 ^ 64 \<Longrightarrow> unat (of_nat n :: u64) = n"
  by (simp add: unat_of_nat)

lemma decode_ack_gaps:
  assumes "ivs_wf (rev (a # ivs))" and "snd a < 2 ^ 64"
  shows "decode_ranges (fst a) (ack_gaps (a # ivs)) = ivs"
  using assms
proof (induction ivs arbitrary: a)
  case (Cons b ivs)
  have wf: "ivs_wf (rev (b # ivs))" and ab: "snd b + 1 < fst a" "fst a \<le> snd a" "fst b \<le> snd b"
    using Cons.prems(1) by (auto simp: ivs_wf_append ivs_wf_Cons)
  then have s: "snd b < 2 ^ 64" using Cons.prems(2) by simp
  obtain k where k: "fst a = snd b + 2 + k"
    using ab(1) by (metis Suc_eq_plus1 add_2_eq_Suc' add_Suc_right le_Suc_ex less_eq_Suc_le)
  have g: "unat (of_nat k :: u64) = k"
    by (rule unat_of_nat_64) (use ab k Cons.prems(2) in linarith)
  have l: "unat (of_nat (snd b - fst b) :: u64) = snd b - fst b"
    by (rule unat_of_nat_64) (use s in linarith)
  show ?case
    using Cons.IH [OF wf s] ab(3) by (simp add: Let_def k g l del: of_nat_diff)
qed simp

lemma acked_ranges_build:
  assumes "ivs_wf (pt_intervals t)" and "pt_intervals t \<noteq> []" and "\<forall>a \<in> set (pt_intervals t). snd a < 2 ^ 64"
  shows "acked_ranges (build_ack_frame d t) = rev (pt_intervals t)"
proof -
  obtain a ivs where r: "rev (pt_intervals t) = a # ivs"
    using assms(2) by (cases "rev (pt_intervals t)") auto
  then have p: "pt_intervals t = rev (a # ivs)" by (metis rev_rev_ident)
  have a: "fst a \<le> snd a" "snd a < 2 ^ 64" using assms p by (auto simp: ivs_wf_append ivs_wf_Cons)
  then have "snd a - fst a < 2 ^ 64" by linarith
  with a show ?thesis
    using decode_ack_gaps [of a ivs] assms(1) p r
    by (simp add: acked_ranges_def build_ack_frame_def Let_def unat_of_nat_64 del: of_nat_diff)
qed

section \<open>Properties\<close>

text \<open>
  The record of received packets is sound for duplicate detection: after any addition,
  the new packet and every packet that was known before are known; nothing else becomes
  known, except numbers below an interval that the cap of 64 ranges evicted; and the
  intervals stay sorted, disjoint, non-adjacent and at most 64.
\<close>

theorem add_packet_contains:
  assumes "tracker_inv t"
  shows "tracker_inv (add_packet pn e t)
    \<and> (tracker_contains t q \<or> q = pn \<longrightarrow> tracker_contains (add_packet pn e t) q)
    \<and> (tracker_contains (add_packet pn e t) q \<longrightarrow>
        tracker_contains t q \<or> q = pn \<or> q < pt_evicted_below (add_packet pn e t))"
proof -
  have inv: "tracker_inv (add_packet pn e t)" using assms by (rule add_packet_inv)
  have has: "pt_has_packets t \<or> ivs_set (pt_intervals t) = {}" using assms by (auto simp: tracker_inv_def)
  have mono: "pt_evicted_below t \<le> pt_evicted_below (add_packet pn e t)
    \<and> insert pn (ivs_set (pt_intervals t)) \<subseteq>
        {..<pt_evicted_below (add_packet pn e t)} \<union> ivs_set (pt_intervals (add_packet pn e t))
    \<and> ivs_set (pt_intervals (add_packet pn e t)) \<subseteq> insert pn (ivs_set (pt_intervals t))"
    using assms
  proof (cases rule: add_packet_cases [where pn = pn and e = e])
    case (kept ivs)
    then show ?thesis by auto
  next
    case (evicted a ivs)
    then show ?thesis unfolding evicted(1,5) evicted(3) [symmetric] by (auto simp: ivs_set_Cons)
  qed
  with has inv show ?thesis by (auto simp: tracker_contains_iff)
qed

theorem add_packet_contains_witness:
  "tracker_contains (add_packet 7 True \<lparr>pt_intervals = [(3, 5)], pt_largest_pn = 5, pt_evicted_below = 2,
     pt_has_packets = True, pt_ack_eliciting_pending = False\<rparr>) 4"
proof -
  let ?t = "\<lparr>pt_intervals = [(3, 5)], pt_largest_pn = 5, pt_evicted_below = 2,
     pt_has_packets = True, pt_ack_eliciting_pending = False\<rparr>"
  have "tracker_inv ?t" by (simp add: tracker_inv_def ivs_wf_def)
  moreover have "tracker_contains ?t 4" by (simp add: tracker_contains_def)
  ultimately show ?thesis using add_packet_contains [of ?t 7 True 4] by blast
qed

text \<open>
  C12.  The ACK frame built from the received packets, decoded by the loop of
  \<^verbatim>\<open>on_ack_received\<close>, names exactly the received intervals, from the newest down.
\<close>

theorem ack_frame_roundtrip:
  assumes "tracker_inv t" and "pt_has_packets t" and "pt_largest_pn t < 2 ^ 62"
  shows "acked_ranges (build_ack_frame d t) = rev (pt_intervals t)
    \<and> (is_acked (acked_ranges (build_ack_frame d t)) pn \<longleftrightarrow> pn \<in> ivs_set (pt_intervals t))"
proof -
  have "acked_ranges (build_ack_frame d t) = rev (pt_intervals t)"
    using assms by (intro acked_ranges_build) (fastforce simp: tracker_inv_def list_all_iff)+
  moreover have "ivs_set (rev ivs) = ivs_set ivs" for ivs by (simp add: ivs_set_def)
  ultimately show ?thesis by (simp add: is_acked_def list_ex_ivs)
qed

theorem ack_frame_roundtrip_witness:
  "acked_ranges (build_ack_frame 0 \<lparr>pt_intervals = [(1, 4), (9, 9)], pt_largest_pn = 9, pt_evicted_below = 0,
     pt_has_packets = True, pt_ack_eliciting_pending = True\<rparr>) = [(9, 9), (1, 4)]"
  using ack_frame_roundtrip [of "\<lparr>pt_intervals = [(1, 4), (9, 9)], pt_largest_pn = 9, pt_evicted_below = 0,
     pt_has_packets = True, pt_ack_eliciting_pending = True\<rparr>" 0 0]
  by (simp add: tracker_inv_def ivs_wf_def)

end
