(* ===== verification/Quic_Conn_Send.thy ===== *)
theory Quic_Conn_Send
  imports Quic_Packet Quic_Frames Quic_Stream Quic_Congestion Quic_Ack
begin

unbundle bit_operations_syntax

text \<open>
  The connection object of \<^verbatim>\<open>src/src/Network/QUIC/QuicConnection.cpp\<close> and its sending side:
  packet numbers, tracking of sent packets, packetisation of stream data under flow
  control, CRYPTO, ACK, DATAGRAM and HANDSHAKE_DONE packets, retransmission, coalescing
  and the anti-amplification limit.  The packet protection of \<^verbatim>\<open>CryptoSuite\<close> (an AEAD of the
  TLS library) is the parameter \<open>protect\<close>, applied to a key set, a header and a payload;
  \<open>None\<close> is its failure.  The clock is the argument \<open>now\<close>.  The hash maps with
  default-inserting access are functions with their default, and the send queues are a
  list in the map's iteration order.
\<close>

section \<open>State\<close>

datatype conn_state = Conn_Initial | Conn_Handshaking | Conn_Connected | Conn_Draining | Conn_Closed

datatype key_level = InitialKeys | HandshakeKeys | OneRttKeys

type_synonym protector = "key_level \<Rightarrow> packet_header \<Rightarrow> bytes \<Rightarrow> bytes option"

record sent_packet =
  sp_time_sent :: int
  sp_packet_number :: nat
  sp_bytes_sent :: nat
  sp_frames :: "frame list"
  sp_packet_type :: packet_type
  sp_ack_eliciting :: bool

record quic_conn =
  c_state :: conn_state
  c_is_server :: bool
  c_tls_initialized :: bool
  c_initial_keys_valid :: bool
  c_handshake_keys_valid :: bool
  c_one_rtt_keys_valid :: bool
  c_version :: u32
  c_local_cid :: connection_id
  c_peer_cid :: connection_id
  c_local_key_phase :: bool
  c_next_pn :: "nat \<Rightarrow> nat"
  c_sent_packets :: "nat \<Rightarrow> sent_packet list"
  c_largest_acked :: "nat \<Rightarrow> nat option"
  c_cc :: congestion_controller
  c_pto_count :: nat
  c_ack_trackers :: "nat \<Rightarrow> packet_tracker"
  c_outbound :: "bytes list"
  c_held :: "bytes list"
  c_streams :: "(nat \<times> quic_stream) list"
  c_send_queues :: "(nat \<times> stream_buffer) list"
  c_send_fin :: "nat \<Rightarrow> bool"
  c_send_offsets :: "nat \<Rightarrow> nat"
  c_stream_data_sent :: "nat \<Rightarrow> nat"
  c_max_data :: nat
  c_max_stream_data :: nat
  c_data_sent :: nat
  c_bytes_received :: nat
  c_bytes_sent :: nat
  c_peer_validated :: bool
  c_max_datagram_size :: nat
  c_local_max_datagram_frame :: nat
  c_peer_max_datagram_frame :: nat
  c_next_bidi_stream_id :: nat
  c_next_uni_stream_id :: nat
  c_next_peer_stream_idx :: "bool \<Rightarrow> nat"
  c_unseen_peer_streams :: "nat set"
  c_max_peer_streams :: "bool \<Rightarrow> nat"
  c_accepted_streams :: "nat list"
  c_stream_acceptor :: bool
  c_on_stream_created :: bool
  c_received_datagrams :: "bytes list"
  c_crypto_send_offset :: "nat \<Rightarrow> nat"
  c_handshake_done_sent :: bool

text \<open>A new connection, with the members' initialisers.\<close>

definition quic_conn_new :: "bool \<Rightarrow> bool \<Rightarrow> connection_id \<Rightarrow> connection_id \<Rightarrow> quic_conn" where
  "quic_conn_new is_server tls local_cid peer_cid =
     \<lparr>c_state = Conn_Initial, c_is_server = is_server, c_tls_initialized = tls, c_initial_keys_valid = True,
      c_handshake_keys_valid = False, c_one_rtt_keys_valid = False, c_version = 1, c_local_cid = local_cid,
      c_peer_cid = peer_cid, c_local_key_phase = False, c_next_pn = (\<lambda>_. 0), c_sent_packets = (\<lambda>_. []),
      c_largest_acked = (\<lambda>_. None), c_cc = cc_new, c_pto_count = 0, c_ack_trackers = (\<lambda>_. tracker_new),
      c_outbound = [], c_held = [], c_streams = [], c_send_queues = [], c_send_fin = (\<lambda>_. False),
      c_send_offsets = (\<lambda>_. 0), c_stream_data_sent = (\<lambda>_. 0), c_max_data = 1024 * 1024,
      c_max_stream_data = 256 * 1024, c_data_sent = 0, c_bytes_received = 0, c_bytes_sent = 0,
      c_peer_validated = False, c_max_datagram_size = 1200, c_local_max_datagram_frame = 65535,
      c_peer_max_datagram_frame = 0, c_next_bidi_stream_id = 0, c_next_uni_stream_id = 0,
      c_next_peer_stream_idx = (\<lambda>_. 0), c_unseen_peer_streams = {}, c_max_peer_streams = (\<lambda>_. 100),
      c_accepted_streams = [], c_stream_acceptor = False, c_on_stream_created = False,
      c_received_datagrams = [], c_crypto_send_offset = (\<lambda>_. 0), c_handshake_done_sent = False\<rparr>"

section \<open>Packets\<close>

definition allocate_next_pn :: "packet_type \<Rightarrow> quic_conn \<Rightarrow> nat \<times> quic_conn" where
  "allocate_next_pn type c =
     (let s = space_index type in (c_next_pn c s, c\<lparr>c_next_pn := (c_next_pn c)(s := c_next_pn c s + 1)\<rparr>))"

definition one_rtt_send_keys :: "quic_conn \<Rightarrow> key_level option" where
  "one_rtt_send_keys c =
     (if c_one_rtt_keys_valid c then Some OneRttKeys
      else if \<not> c_tls_initialized c then Some InitialKeys
      else None)"

definition keys_valid :: "quic_conn \<Rightarrow> key_level \<Rightarrow> bool" where
  "keys_valid c k = (case k of InitialKeys \<Rightarrow> c_initial_keys_valid c
     | HandshakeKeys \<Rightarrow> c_handshake_keys_valid c | OneRttKeys \<Rightarrow> c_one_rtt_keys_valid c)"

text \<open>The header that the sending code fills in for a packet type.\<close>

definition short_header :: "nat \<Rightarrow> quic_conn \<Rightarrow> packet_header" where
  "short_header pn c = packet_header_default\<lparr>ph_is_long := False, ph_type := OneRTT,
     ph_key_phase := c_local_key_phase c, ph_dcid := c_peer_cid c, ph_packet_number := of_nat pn\<rparr>"

definition long_header :: "packet_type \<Rightarrow> nat \<Rightarrow> quic_conn \<Rightarrow> packet_header" where
  "long_header type pn c = packet_header_default\<lparr>ph_is_long := True, ph_type := type,
     ph_version := c_version c, ph_dcid := c_peer_cid c, ph_scid := c_local_cid c,
     ph_packet_number := of_nat pn\<rparr>"

definition track_sent_packet ::
    "packet_type \<Rightarrow> nat \<Rightarrow> nat \<Rightarrow> frame list \<Rightarrow> int \<Rightarrow> quic_conn \<Rightarrow> quic_conn" where
  "track_sent_packet type pn n frames now c =
     (let s = space_index type;
          pkt = \<lparr>sp_time_sent = now, sp_packet_number = pn, sp_bytes_sent = n, sp_frames = frames,
                 sp_packet_type = type, sp_ack_eliciting = (frames \<noteq> [])\<rparr>
      in c\<lparr>c_sent_packets := (c_sent_packets c)(s := c_sent_packets c s @ [pkt]),
           c_cc := on_packet_sent n True (c_cc c)\<rparr>)"

definition initial_overhead :: "packet_header \<Rightarrow> nat" where
  "initial_overhead hdr = 1 + 4 + (1 + cid_length (ph_dcid hdr)) + (1 + cid_length (ph_scid hdr)) + 1 + 2 + 4 + 16"

definition pad_client_initial :: "packet_header \<Rightarrow> bytes \<Rightarrow> bytes" where
  "pad_client_initial hdr payload =
     (if length payload + initial_overhead hdr < 1200
      then payload @ replicate (1200 - initial_overhead hdr - length payload) 0
      else payload)"

definition push_outbound :: "bytes \<Rightarrow> quic_conn \<Rightarrow> quic_conn" where
  "push_outbound pkt c = c\<lparr>c_outbound := c_outbound c @ [pkt]\<rparr>"

section \<open>Stream data\<close>

definition kMaxStreamFramePayload :: nat where
  "kMaxStreamFramePayload = 1150"

text \<open>The flow-control credits and the size of the next chunk.\<close>

definition conn_credit :: "quic_conn \<Rightarrow> nat" where
  "conn_credit c = (if c_max_data c > c_data_sent c then c_max_data c - c_data_sent c else 0)"

definition stream_credit :: "nat \<Rightarrow> quic_conn \<Rightarrow> nat" where
  "stream_credit sid c =
     (if c_max_stream_data c > c_stream_data_sent c sid
      then c_max_stream_data c - c_stream_data_sent c sid else 0)"

definition chunk_length :: "nat \<Rightarrow> stream_buffer \<Rightarrow> quic_conn \<Rightarrow> nat" where
  "chunk_length sid q c =
     (let n = sb_size q;
          n = (if n > kMaxStreamFramePayload then kMaxStreamFramePayload else n);
          n = (if n > conn_credit c then conn_credit c else n)
      in if n > stream_credit sid c then stream_credit sid c else n)"

definition stream_chunk_frame :: "nat \<Rightarrow> stream_buffer \<Rightarrow> quic_conn \<Rightarrow> stream_frame" where
  "stream_chunk_frame sid q c =
     (let n = chunk_length sid q c
      in \<lparr>sf_data = sb_peek n q, sf_stream_id = of_nat sid, sf_offset = of_nat (c_send_offsets c sid),
          sf_fin = (n = sb_size q \<and> c_send_fin c sid), sf_has_offset = c_send_offsets c sid > 0,
          sf_has_length = True\<rparr>)"

text \<open>One turn of the loop that got past its guards, after successful protection.\<close>

definition commit_chunk :: "nat \<Rightarrow> nat \<Rightarrow> stream_frame \<Rightarrow> bytes \<Rightarrow> nat \<Rightarrow> int \<Rightarrow> quic_conn \<Rightarrow> quic_conn" where
  "commit_chunk sid n sf packet pn now c =
     (let c = push_outbound packet (track_sent_packet OneRTT pn (length packet) [StreamFrame sf] now c)
      in c\<lparr>c_send_offsets := (c_send_offsets c)(sid := c_send_offsets c sid + n),
           c_data_sent := c_data_sent c + n,
           c_stream_data_sent := (c_stream_data_sent c)(sid := c_stream_data_sent c sid + n),
           c_send_fin := (if sf_fin sf then (c_send_fin c)(sid := False) else c_send_fin c)\<rparr>)"

lemma sb_consume_decreases: "0 < n \<Longrightarrow> n \<le> sb_size q \<Longrightarrow> sb_size (sb_consume n q) < sb_size q"
  by (auto simp: sb_consume_def sb_size_def Let_def sb_compact_def)

lemma chunk_length_le: "chunk_length sid q c \<le> sb_size q"
  by (simp add: chunk_length_def Let_def)

function flush_stream :: "protector \<Rightarrow> key_level \<Rightarrow> int \<Rightarrow> nat \<Rightarrow> stream_buffer \<Rightarrow> quic_conn
    \<Rightarrow> stream_buffer \<times> quic_conn" where
  "flush_stream protect keys now sid q c =
     (if sb_empty q \<and> \<not> c_send_fin c sid then (q, c)
      else if \<not> sb_empty q \<and> (conn_credit c = 0 \<or> stream_credit sid c = 0) then (q, c)
      else let n = chunk_length sid q c in
        if n = 0 \<and> \<not> sb_empty q then (q, c)
        else let sf = stream_chunk_frame sid q c;
                 (pn, c1) = allocate_next_pn OneRTT c in
          case protect keys (short_header pn c1) (serialize_frame (StreamFrame sf)) of
            None \<Rightarrow> (q, c1)
          | Some packet \<Rightarrow>
              let c2 = commit_chunk sid n sf packet pn now c1; q1 = sb_consume n q in
              if n = 0 \<and> sf_fin sf then (q1, c2) else flush_stream protect keys now sid q1 c2)"
  by pat_completeness auto

termination
proof (relation "measure (\<lambda>(protect, keys, now, sid, q, c). sb_size q)", goal_cases)
  case (2 protect keys now sid q c n sf a pn c1 packet c2 q1)
  have "n \<noteq> 0"
  proof
    assume "n = 0"
    with 2 have "sb_empty q" "c_send_fin c sid" by auto
    with 2 \<open>n = 0\<close> show False by (simp add: stream_chunk_frame_def Let_def sb_empty_def sb_size_def)
  qed
  with 2 show ?case using chunk_length_le [of sid q c] by (simp add: sb_consume_decreases)
qed simp

declare flush_stream.simps [simp del]

text \<open>The loop over all queues; a drained queue whose stream is gone loses its send state.\<close>

fun flush_queues :: "protector \<Rightarrow> key_level \<Rightarrow> int \<Rightarrow> (nat \<times> stream_buffer) list \<Rightarrow> quic_conn
    \<Rightarrow> (nat \<times> stream_buffer) list \<times> quic_conn" where
  "flush_queues protect keys now [] c = ([], c)"
| "flush_queues protect keys now ((sid, q) # qs) c =
     (case flush_stream protect keys now sid q c of
        (q, c) \<Rightarrow>
          if sb_empty q \<and> \<not> c_send_fin c sid \<and> map_of (c_streams c) sid = None then
            flush_queues protect keys now qs
              (c\<lparr>c_send_fin := (c_send_fin c)(sid := False), c_send_offsets := (c_send_offsets c)(sid := 0),
                 c_stream_data_sent := (c_stream_data_sent c)(sid := 0)\<rparr>)
          else case flush_queues protect keys now qs c of (qs, c) \<Rightarrow> ((sid, q) # qs, c))"

definition flush_stream_send_queues :: "protector \<Rightarrow> int \<Rightarrow> quic_conn \<Rightarrow> quic_conn" where
  "flush_stream_send_queues protect now c =
     (if c_state c = Conn_Closed then c
      else case one_rtt_send_keys c of
             None \<Rightarrow> c
           | Some keys \<Rightarrow>
               (case flush_queues protect keys now (c_send_queues c) c of
                  (qs, c) \<Rightarrow> c\<lparr>c_send_queues := qs\<rparr>))"

text \<open>\<^verbatim>\<open>stream_send_queues_[id].append(data)\<close>: a missing queue is created.\<close>

fun queue_append :: "nat \<Rightarrow> bytes \<Rightarrow> (nat \<times> stream_buffer) list \<Rightarrow> (nat \<times> stream_buffer) list" where
  "queue_append sid d [] = [(sid, sb_append d sb_new)]"
| "queue_append sid d ((k, q) # qs) =
     (if k = sid then (k, sb_append d q) # qs else (k, q) # queue_append sid d qs)"

definition queue_stream_data :: "protector \<Rightarrow> int \<Rightarrow> nat \<Rightarrow> bytes \<Rightarrow> bool \<Rightarrow> quic_conn \<Rightarrow> quic_conn" where
  "queue_stream_data protect now sid d fin c =
     (let c = c\<lparr>c_send_queues := queue_append sid d (c_send_queues c)\<rparr>;
          c = (if fin then c\<lparr>c_send_fin := (c_send_fin c)(sid := True)\<rparr> else c)
      in flush_stream_send_queues protect now c)"

section \<open>Other packets\<close>

text \<open>
  \<^verbatim>\<open>queue_crypto_frame\<close>, one chunk at a time.  The write level is the packet type; the send offset of
  a level advances even when no keys are there.
\<close>

definition crypto_keys :: "packet_type \<Rightarrow> quic_conn \<Rightarrow> key_level option" where
  "crypto_keys level c =
     (case level of
        Initial \<Rightarrow> Some InitialKeys
      | Handshake \<Rightarrow> if c_handshake_keys_valid c then Some HandshakeKeys else None
      | _ \<Rightarrow> one_rtt_send_keys c)"

definition crypto_wants_ack :: "packet_type \<Rightarrow> packet_tracker \<Rightarrow> bool" where
  "crypto_wants_ack level t =
     (if level = Initial \<or> level = Handshake then pt_has_packets t else pt_has_packets t \<and> needs_ack t)"

text \<open>Protect with the given keys, if they are there and valid; track and queue the packet.\<close>

definition emit_tracked :: "protector \<Rightarrow> key_level option \<Rightarrow> packet_header \<Rightarrow> bytes \<Rightarrow> packet_type \<Rightarrow> nat
    \<Rightarrow> frame \<Rightarrow> int \<Rightarrow> quic_conn \<Rightarrow> quic_conn" where
  "emit_tracked protect keys hdr payload type pn f now c =
     (case keys of
        None \<Rightarrow> c
      | Some k \<Rightarrow>
          if \<not> keys_valid c k then c
          else case protect k hdr payload of
                 None \<Rightarrow> c
               | Some packet \<Rightarrow> push_outbound packet (track_sent_packet type pn (length packet) [f] now c))"

definition queue_crypto_chunk :: "protector \<Rightarrow> int \<Rightarrow> packet_type \<Rightarrow> bytes \<Rightarrow> quic_conn \<Rightarrow> quic_conn" where
  "queue_crypto_chunk protect now level chunk c =
     (let s = space_index level;
          (pn, c) = allocate_next_pn level c;
          hdr = (if level = Initial \<or> level = Handshake then long_header level pn c else short_header pn c);
          cf = CryptoFrame (of_nat (c_crypto_send_offset c s)) chunk;
          c = c\<lparr>c_crypto_send_offset := (c_crypto_send_offset c)(s := c_crypto_send_offset c s + length chunk)\<rparr>;
          ack = crypto_wants_ack level (c_ack_trackers c s);
          payload = (if ack then serialize_frame (AckFrame (build_ack_frame 0 (c_ack_trackers c s))) else [])
                    @ serialize_frame cf;
          c = (if ack then c\<lparr>c_ack_trackers := (c_ack_trackers c)(s := mark_ack_sent (c_ack_trackers c s))\<rparr> else c);
          payload = (if level = Initial then pad_client_initial hdr payload else payload)
      in emit_tracked protect (crypto_keys level c) hdr payload level pn cf now c)"

text \<open>The splitting loop; empty data still sends one empty chunk.\<close>

function queue_crypto_frame :: "protector \<Rightarrow> int \<Rightarrow> packet_type \<Rightarrow> bytes \<Rightarrow> quic_conn \<Rightarrow> quic_conn" where
  "queue_crypto_frame protect now level d c =
     (if length d \<le> 1150 then queue_crypto_chunk protect now level d c
      else queue_crypto_frame protect now level (drop 1150 d)
             (queue_crypto_chunk protect now level (take 1150 d) c))"
  by pat_completeness auto

termination by (relation "measure (\<lambda>(protect, now, level, d, c). length d)") auto

declare queue_crypto_frame.simps [simp del]

definition ack_packet_type :: "packet_type \<Rightarrow> packet_type" where
  "ack_packet_type type = (if type = OneRTT then OneRTT else if type = Handshake then Handshake else Initial)"

text \<open>The ACK payload of a space, marked as sent, protected and queued.\<close>

definition emit_ack :: "protector \<Rightarrow> key_level \<Rightarrow> packet_type \<Rightarrow> packet_header \<Rightarrow> quic_conn \<Rightarrow> quic_conn" where
  "emit_ack protect k type hdr c =
     (let s = space_index type;
          payload = serialize_frame (AckFrame (build_ack_frame 0 (c_ack_trackers c s)));
          c = c\<lparr>c_ack_trackers := (c_ack_trackers c)(s := mark_ack_sent (c_ack_trackers c s))\<rparr>;
          payload = (if \<not> c_is_server c \<and> type = Initial then pad_client_initial hdr payload else payload)
      in case protect k hdr payload of None \<Rightarrow> c | Some packet \<Rightarrow> push_outbound packet c)"

definition send_ack_for_space :: "protector \<Rightarrow> packet_type \<Rightarrow> quic_conn \<Rightarrow> quic_conn" where
  "send_ack_for_space protect type c =
     (if \<not> pt_has_packets (c_ack_trackers c (space_index type)) then c
      else let (pn, c) = allocate_next_pn (ack_packet_type type) c;
               hdr = (if ack_packet_type type = OneRTT then short_header pn c
                      else long_header (ack_packet_type type) pn c) in
        case crypto_keys (ack_packet_type type) c of
          None \<Rightarrow> c
        | Some k \<Rightarrow> if \<not> keys_valid c k then c else emit_ack protect k type hdr c)"

definition max_datagram_payload :: "quic_conn \<Rightarrow> nat" where
  "max_datagram_payload c =
     (if c_peer_max_datagram_frame c = 0 then 0
      else let overhead = 1 + cid_length (c_peer_cid c) + 4 + 16 + 1 + 2; mtu = c_max_datagram_size c in
        if mtu \<le> overhead then 0
        else min (mtu - overhead)
               (if c_peer_max_datagram_frame c > 3 then c_peer_max_datagram_frame c - 3 else 0))"

text \<open>The common tail of the 1-RTT senders: number, protect, track, queue.\<close>

definition send_one_rtt :: "protector \<Rightarrow> key_level \<Rightarrow> int \<Rightarrow> frame \<Rightarrow> quic_conn \<Rightarrow> bool \<times> quic_conn" where
  "send_one_rtt protect keys now f c =
     (let (pn, c) = allocate_next_pn OneRTT c in
      case protect keys (short_header pn c) (serialize_frame f) of
        None \<Rightarrow> (False, c)
      | Some packet \<Rightarrow> (True, push_outbound packet (track_sent_packet OneRTT pn (length packet) [f] now c)))"

definition send_datagram :: "protector \<Rightarrow> int \<Rightarrow> bytes \<Rightarrow> quic_conn \<Rightarrow> bool \<times> quic_conn" where
  "send_datagram protect now payload c =
     (if c_state c = Conn_Closed \<or> c_peer_max_datagram_frame c = 0 then (False, c)
      else if length payload > max_datagram_payload c then (False, c)
      else case one_rtt_send_keys c of
             None \<Rightarrow> (False, c)
           | Some keys \<Rightarrow> send_one_rtt protect keys now (DatagramFrame payload) c)"

definition send_handshake_done :: "protector \<Rightarrow> int \<Rightarrow> quic_conn \<Rightarrow> quic_conn" where
  "send_handshake_done protect now c =
     (if \<not> c_is_server c \<or> c_handshake_done_sent c then c
      else case one_rtt_send_keys c of
             None \<Rightarrow> c
           | Some keys \<Rightarrow> snd (send_one_rtt protect keys now HandshakeDoneFrame (c\<lparr>c_handshake_done_sent := True\<rparr>)))"

text \<open>
  \<^verbatim>\<open>retransmit_frame\<close>: CRYPTO in its packet type, STREAM and HANDSHAKE_DONE in 1-RTT packets,
  everything else is not resent.
\<close>

definition retransmit_crypto :: "protector \<Rightarrow> int \<Rightarrow> packet_type \<Rightarrow> frame \<Rightarrow> quic_conn \<Rightarrow> quic_conn" where
  "retransmit_crypto protect now type f c =
     (if type = Initial \<or> type = Handshake then
        let (pn, c) = allocate_next_pn type c;
            hdr = long_header type pn c;
            payload = (if type = Initial then pad_client_initial hdr (serialize_frame f) else serialize_frame f)
        in emit_tracked protect (crypto_keys type c) hdr payload type pn f now c
      else case one_rtt_send_keys c of
             None \<Rightarrow> c
           | Some k \<Rightarrow>
               let (pn, c) = allocate_next_pn OneRTT c
               in emit_tracked protect (Some k) (short_header pn c) (serialize_frame f) OneRTT pn f now c)"

definition retransmit_frame :: "protector \<Rightarrow> int \<Rightarrow> frame \<times> packet_type \<Rightarrow> quic_conn \<Rightarrow> quic_conn" where
  "retransmit_frame protect now ft c =
     (case fst ft of
        CryptoFrame off d \<Rightarrow> retransmit_crypto protect now (snd ft) (CryptoFrame off d) c
      | StreamFrame sf \<Rightarrow>
          (case one_rtt_send_keys c of
             None \<Rightarrow> c
           | Some keys \<Rightarrow> snd (send_one_rtt protect keys now (StreamFrame sf) c))
      | HandshakeDoneFrame \<Rightarrow>
          (case one_rtt_send_keys c of
             None \<Rightarrow> snd (allocate_next_pn OneRTT c)
           | Some keys \<Rightarrow> snd (send_one_rtt protect keys now HandshakeDoneFrame c))
      | _ \<Rightarrow> c)"

section \<open>Datagrams\<close>

definition pkt_is_long :: "bytes \<Rightarrow> bool" where
  "pkt_is_long pkt \<longleftrightarrow> pkt ! 0 AND 0x80 \<noteq> 0"

text \<open>
  The coalescing loop of \<^verbatim>\<open>poll_outgoing_datagrams\<close>: limit, queued packets, the datagram under
  construction and whether it ends with a short-header packet; the datagrams in order.
\<close>

fun coalesce :: "nat \<Rightarrow> bytes list \<Rightarrow> bytes \<Rightarrow> bool \<Rightarrow> bytes list" where
  "coalesce limit [] cur ends_short = (if cur \<noteq> [] then [cur] else [])"
| "coalesce limit (pkt # pkts) cur ends_short =
     (if pkt = [] then coalesce limit pkts cur ends_short
      else if cur \<noteq> [] \<and> \<not> ends_short \<and> length cur + length pkt \<le> limit
      then coalesce limit pkts (cur @ pkt) (ends_short \<or> \<not> pkt_is_long pkt)
      else (if cur \<noteq> [] then [cur] else []) @ coalesce limit pkts pkt (\<not> pkt_is_long pkt))"

text \<open>The budget loop: datagrams let through, datagrams held, octets sent.\<close>

fun amplify :: "bool \<Rightarrow> nat \<Rightarrow> bytes list \<Rightarrow> bytes list \<Rightarrow> bytes list \<Rightarrow> nat \<Rightarrow> bytes list \<times> bytes list \<times> nat" where
  "amplify validated received [] out held sent = (out, held, sent)"
| "amplify validated received (d # ds) out held sent =
     (if \<not> validated \<and> (held \<noteq> [] \<or> sent + length d > 3 * received)
      then amplify validated received ds out (held @ [d]) sent
      else amplify validated received ds (out @ [d]) held (sent + length d))"

definition poll_outgoing_datagrams :: "quic_conn \<Rightarrow> bytes list \<times> quic_conn" where
  "poll_outgoing_datagrams c =
     (let datagrams = coalesce (c_max_datagram_size c) (c_outbound c) [] False;
          c = c\<lparr>c_outbound := []\<rparr> in
      if c_is_server c \<and> c_tls_initialized c then
        case amplify (c_peer_validated c) (c_bytes_received c) (c_held c @ datagrams) [] [] (c_bytes_sent c) of
          (out, held, sent) \<Rightarrow> (out, c\<lparr>c_held := held, c_bytes_sent := sent\<rparr>)
      else (datagrams, c\<lparr>c_bytes_sent := c_bytes_sent c + sum_list (map length datagrams)\<rparr>))"

end
