(* ===== verification/Quic_Conn_Recv.thy ===== *)
theory Quic_Conn_Recv
  imports Quic_Conn_Send "HOL-Library.AList"
begin

unbundle bit_operations_syntax

text \<open>
  The receiving side of a connection, from \<^verbatim>\<open>src/src/Network/QUIC/QuicConnection.cpp\<close>:
  acknowledgements and loss detection, the processing of frames, the table of streams and
  the end of the connection.  The open streams are an association list; requests that
  a stream makes of its connection are carried out in the order in which the code makes them,
  under the connection's recursive mutex.
\<close>

section \<open>Loss detection\<close>

definition loss_time_threshold :: "quic_conn \<Rightarrow> int" where
  "loss_time_threshold c =
     (max (smoothed_rtt (cc_rtt_stats (c_cc c))) (latest_rtt (cc_rtt_stats (c_cc c))) * 9) sdiv 8"

definition packet_is_lost :: "nat \<Rightarrow> int \<Rightarrow> int \<Rightarrow> sent_packet \<Rightarrow> bool" where
  "packet_is_lost largest_acked threshold now pkt \<longleftrightarrow>
     \<not> sp_packet_number pkt > largest_acked
     \<and> (largest_acked \<ge> sp_packet_number pkt + kPacketThreshold \<or> now \<ge> sp_time_sent pkt + threshold)"

definition detect_lost_packets :: "protector \<Rightarrow> int \<Rightarrow> nat \<Rightarrow> nat \<Rightarrow> quic_conn \<Rightarrow> quic_conn" where
  "detect_lost_packets protect now space largest_acked c =
     (let pkts = c_sent_packets c space;
          is_lost = packet_is_lost largest_acked (loss_time_threshold c) now;
          lost = filter is_lost pkts;
          lost_frames = concat (map (\<lambda>pkt. map (\<lambda>f. (f, sp_packet_type pkt)) (sp_frames pkt)) lost);
          c = c\<lparr>c_cc := fold (\<lambda>pkt. on_congestion_event (sp_time_sent pkt) now) lost (c_cc c),
                c_sent_packets := (c_sent_packets c)(space := filter (\<lambda>pkt. \<not> is_lost pkt) pkts)\<rparr>
      in fold (retransmit_frame protect now) lost_frames c)"

definition ack_packet :: "ack_frame \<Rightarrow> int \<Rightarrow> sent_packet \<Rightarrow> congestion_controller \<Rightarrow> congestion_controller" where
  "ack_packet ack now pkt cc =
     (let cc = on_packet_acked (sp_bytes_sent pkt) cc in
      if sp_packet_number pkt = unat (largest_acknowledged ack)
      then cc_update_rtt (now - sp_time_sent pkt) (ack_delay_us (ack_delay ack)) cc
      else cc)"

definition on_ack_received :: "protector \<Rightarrow> int \<Rightarrow> packet_type \<Rightarrow> ack_frame \<Rightarrow> quic_conn \<Rightarrow> quic_conn" where
  "on_ack_received protect now type ack c =
     (let s = space_index type; pkts = c_sent_packets c s in
      if pkts = [] then c
      else let acked = (\<lambda>pkt. is_acked (acked_ranges ack) (sp_packet_number pkt));
               largest = unat (largest_acknowledged ack);
               c1 = c\<lparr>c_cc := fold (ack_packet ack now) (filter acked pkts) (c_cc c),
                      c_sent_packets := (c_sent_packets c)(s := filter (\<lambda>pkt. \<not> acked pkt) pkts)\<rparr> in
        if filter acked pkts = [] then c1
        else let c2 = c1\<lparr>c_pto_count := 0, c_largest_acked :=
                   (case c_largest_acked c s of
                      None \<Rightarrow> (c_largest_acked c)(s := Some largest)
                    | Some l \<Rightarrow> if largest > l then (c_largest_acked c)(s := Some largest) else c_largest_acked c)\<rparr>
             in flush_stream_send_queues protect now (detect_lost_packets protect now s largest c2))"

text \<open>When the loss timer fires, if it is armed at all.\<close>

definition probe_candidates :: "quic_conn \<Rightarrow> sent_packet list" where
  "probe_candidates c = filter (\<lambda>pkt. sp_ack_eliciting pkt \<and> sp_frames pkt \<noteq> [])
     (c_sent_packets c 0 @ c_sent_packets c 1 @ c_sent_packets c 2)"

definition pto_duration :: "quic_conn \<Rightarrow> int" where
  "pto_duration c =
     (let r = cc_rtt_stats (c_cc c)
      in (smoothed_rtt r + max (rttvar r * 4) 1000) * 2 ^ min (c_pto_count c) 10)"

definition loss_timer_deadline :: "int \<Rightarrow> quic_conn \<Rightarrow> int option" where
  "loss_timer_deadline now c =
     (if c_state c = Conn_Closed then None
      else case map sp_time_sent (probe_candidates c) of
             [] \<Rightarrow> None
           | t # ts \<Rightarrow> Some (max now (fold min ts t + pto_duration c)))"

text \<open>The first packet of a list that still has frames: its frames, and the list without them.\<close>

fun take_probe :: "sent_packet list \<Rightarrow> (frame \<times> packet_type) list \<times> sent_packet list" where
  "take_probe [] = ([], [])"
| "take_probe (pkt # pkts) =
     (if sp_frames pkt \<noteq> [] then (map (\<lambda>f. (f, sp_packet_type pkt)) (sp_frames pkt), pkt\<lparr>sp_frames := []\<rparr> # pkts)
      else case take_probe pkts of (fs, pkts) \<Rightarrow> (fs, pkt # pkts))"

fun take_probe_spaces :: "nat list \<Rightarrow> quic_conn \<Rightarrow> (frame \<times> packet_type) list \<times> quic_conn" where
  "take_probe_spaces [] c = ([], c)"
| "take_probe_spaces (s # ss) c =
     (case take_probe (c_sent_packets c s) of
        (fs, pkts) \<Rightarrow>
          let c = c\<lparr>c_sent_packets := (c_sent_packets c)(s := pkts)\<rparr>
          in if fs \<noteq> [] then (fs, c) else take_probe_spaces ss c)"

definition on_loss_detection_timeout :: "protector \<Rightarrow> int \<Rightarrow> quic_conn \<Rightarrow> quic_conn" where
  "on_loss_detection_timeout protect now c =
     (if c_state c = Conn_Closed then c
      else case take_probe_spaces [0, 1, 2] c of
             (fs, c) \<Rightarrow>
               let c = fold (retransmit_frame protect now) fs c in c\<lparr>c_pto_count := c_pto_count c + 1\<rparr>)"

section \<open>Streams\<close>

definition find_stream :: "nat \<Rightarrow> quic_conn \<Rightarrow> quic_stream option" where
  "find_stream sid c = map_of (c_streams c) sid"

definition put_stream :: "nat \<Rightarrow> quic_stream \<Rightarrow> quic_conn \<Rightarrow> quic_conn" where
  "put_stream sid s c = c\<lparr>c_streams := AList.update sid s (c_streams c)\<rparr>"

definition erase_stream :: "nat \<Rightarrow> quic_conn \<Rightarrow> quic_conn" where
  "erase_stream sid c = c\<lparr>c_streams := AList.delete sid (c_streams c)\<rparr>"

definition create_stream :: "bool \<Rightarrow> quic_conn \<Rightarrow> nat \<times> quic_conn" where
  "create_stream bidirectional c =
     (let srv = (if c_is_server c then 1 else 0);
          sid = (if bidirectional then c_next_bidi_stream_id c * 4 + srv
                 else c_next_uni_stream_id c * 4 + 2 + srv);
          c = (if bidirectional then c\<lparr>c_next_bidi_stream_id := c_next_bidi_stream_id c + 1\<rparr>
               else c\<lparr>c_next_uni_stream_id := c_next_uni_stream_id c + 1\<rparr>)
      in (sid, put_stream sid (quic_stream_new sid) c))"

definition get_or_create_stream :: "nat \<Rightarrow> quic_conn \<Rightarrow> quic_stream \<times> quic_conn" where
  "get_or_create_stream sid c =
     (case find_stream sid c of
        Some s \<Rightarrow> (s, c)
      | None \<Rightarrow> (quic_stream_new sid, put_stream sid (quic_stream_new sid) c))"

text \<open>
  A closed stream's own requests: its FIN is queued; its second notification finds the
  stream gone, because it was erased before it was closed.
\<close>

definition close_request :: "protector \<Rightarrow> int \<Rightarrow> stream_event \<Rightarrow> quic_conn \<Rightarrow> quic_conn" where
  "close_request protect now ev c =
     (case ev of QueueStreamData sid d fin \<Rightarrow> queue_stream_data protect now sid d fin c | _ \<Rightarrow> c)"

definition close_stream :: "protector \<Rightarrow> int \<Rightarrow> nat \<Rightarrow> quic_conn \<Rightarrow> quic_conn" where
  "close_stream protect now sid c =
     (case find_stream sid c of
        None \<Rightarrow> c
      | Some s \<Rightarrow> fold (close_request protect now) (snd (qs_close s))
                    (flush_stream_send_queues protect now (erase_stream sid c)))"

definition stream_request :: "protector \<Rightarrow> int \<Rightarrow> stream_event \<Rightarrow> quic_conn \<Rightarrow> quic_conn" where
  "stream_request protect now ev c =
     (case ev of
        QueueStreamData sid d fin \<Rightarrow> queue_stream_data protect now sid d fin c
      | CloseStream sid \<Rightarrow> close_stream protect now sid c
      | ReadReady h ec n \<Rightarrow> c)"

section \<open>The end of a connection\<close>

definition close_packet_keys :: "quic_conn \<Rightarrow> key_level" where
  "close_packet_keys c =
     (case one_rtt_send_keys c of
        Some k \<Rightarrow> k
      | None \<Rightarrow> if c_handshake_keys_valid c then HandshakeKeys else InitialKeys)"

definition close_packet_type :: "quic_conn \<Rightarrow> packet_type" where
  "close_packet_type c =
     (case one_rtt_send_keys c of
        Some k \<Rightarrow> OneRTT
      | None \<Rightarrow> if c_handshake_keys_valid c then Handshake else Initial)"

definition send_connection_close :: "protector \<Rightarrow> u64 \<Rightarrow> bytes \<Rightarrow> quic_conn \<Rightarrow> quic_conn" where
  "send_connection_close protect err reason c =
     (let payload = serialize_frame (ConnectionCloseFrame reason err 0 False);
          keys = close_packet_keys c;
          type = close_packet_type c;
          (pn, c) = allocate_next_pn type c;
          hdr = (if type = OneRTT then short_header pn c else long_header type pn c);
          payload = (if \<not> c_is_server c \<and> type = Initial then pad_client_initial hdr payload else payload)
      in if \<not> keys_valid c keys then c
         else case protect keys hdr payload of None \<Rightarrow> c | Some packet \<Rightarrow> push_outbound packet c)"

definition terminate_conn :: "protector \<Rightarrow> int \<Rightarrow> bool \<Rightarrow> u64 \<Rightarrow> bytes \<Rightarrow> quic_conn \<Rightarrow> quic_conn" where
  "terminate_conn protect now send_close err reason c =
     (if c_state c = Conn_Closed then c
      else let c = c\<lparr>c_state := Conn_Closed\<rparr>;
               c = (if send_close then send_connection_close protect err reason c else c);
               open_streams = map snd (c_streams c);
               c = c\<lparr>c_streams := [], c_send_offsets := (\<lambda>_. 0), c_stream_data_sent := (\<lambda>_. 0),
                     c_send_queues := [], c_send_fin := (\<lambda>_. False)\<rparr>
           in fold (\<lambda>s. fold (close_request protect now) (snd (qs_close s))) open_streams c)"

definition PROTOCOL_VIOLATION :: u64 where "PROTOCOL_VIOLATION = 0x0a"
definition STREAM_STATE_ERROR :: u64 where "STREAM_STATE_ERROR = 0x05"
definition STREAM_LIMIT_ERROR :: u64 where "STREAM_LIMIT_ERROR = 0x04"

definition conn_close :: "protector \<Rightarrow> int \<Rightarrow> u64 \<Rightarrow> string \<Rightarrow> quic_conn \<Rightarrow> quic_conn" where
  "conn_close protect now err reason c = terminate_conn protect now True err (bytes_of reason) c"

section \<open>Frames\<close>

definition frame_allowed_in :: "frame \<Rightarrow> packet_type \<Rightarrow> bool" where
  "frame_allowed_in f type =
     (if type = OneRTT then True
      else if type = ZeroRTT then
        (case f of AckFrame _ \<Rightarrow> False | CryptoFrame _ _ \<Rightarrow> False | NewTokenFrame _ \<Rightarrow> False
           | HandshakeDoneFrame \<Rightarrow> False | _ \<Rightarrow> True)
      else
        (case f of PaddingFrame _ \<Rightarrow> True | PingFrame \<Rightarrow> True | AckFrame _ \<Rightarrow> True | CryptoFrame _ _ \<Rightarrow> True
           | ConnectionCloseFrame _ _ _ app \<Rightarrow> \<not> app
           | _ \<Rightarrow> False))"

definition stream_is_bidi :: "u64 \<Rightarrow> bool" where
  "stream_is_bidi sid \<longleftrightarrow> sid AND 0x02 = 0"

definition stream_peer_initiated :: "bool \<Rightarrow> u64 \<Rightarrow> bool" where
  "stream_peer_initiated is_server sid \<longleftrightarrow> (sid AND 0x01 \<noteq> 0) = (\<not> is_server)"

datatype admission = Ignore | LimitError | Admit quic_conn

text \<open>Whether a STREAM frame for an unknown, peer-initiated stream may open it.\<close>

definition admit_peer_stream :: "u64 \<Rightarrow> quic_conn \<Rightarrow> admission" where
  "admit_peer_stream sid c =
     (let bidi = stream_is_bidi sid;
          idx = unat (drop_bit 2 sid);
          next = c_next_peer_stream_idx c bidi in
      if idx < next then
        if unat sid \<in> c_unseen_peer_streams c
        then Admit (c\<lparr>c_unseen_peer_streams := c_unseen_peer_streams c - {unat sid}\<rparr>)
        else Ignore
      else if idx \<ge> c_max_peer_streams c bidi then LimitError
      else Admit (c\<lparr>c_unseen_peer_streams := c_unseen_peer_streams c
                      \<union> set (map (\<lambda>i. i * 4 + unat (sid AND 0x03)) [next..<idx]),
                    c_next_peer_stream_idx := (c_next_peer_stream_idx c)(bidi := idx + 1)\<rparr>))"

definition kMaxAcceptQueueSize :: nat where "kMaxAcceptQueueSize = 128"
definition kMaxQueuedDatagrams :: nat where "kMaxQueuedDatagrams = 1024"

definition open_peer_stream :: "nat \<Rightarrow> quic_conn \<Rightarrow> quic_conn" where
  "open_peer_stream sid c =
     (let c = put_stream sid (quic_stream_new sid) c in
      if c_stream_acceptor c then c\<lparr>c_stream_acceptor := False\<rparr>
      else if \<not> c_on_stream_created c \<and> length (c_accepted_streams c) < kMaxAcceptQueueSize
      then c\<lparr>c_accepted_streams := c_accepted_streams c @ [sid]\<rparr>
      else c)"

text \<open>Delivery to a stream, followed by what the stream asks for.\<close>

definition deliver_stream :: "protector \<Rightarrow> int \<Rightarrow> stream_frame \<Rightarrow> quic_stream \<Rightarrow> quic_conn \<Rightarrow> quic_conn" where
  "deliver_stream protect now f s c =
     (case push_inbound (unat (sf_offset f)) (sf_data f) (sf_fin f) s of
        (s, evs) \<Rightarrow> fold (stream_request protect now) evs (put_stream (unat (sf_stream_id f)) s c))"

definition process_stream_frame ::
    "protector \<Rightarrow> int \<Rightarrow> stream_frame \<Rightarrow> quic_conn \<Rightarrow> quic_conn \<times> nat list" where
  "process_stream_frame protect now f c =
     (let sid = sf_stream_id f; peer = stream_peer_initiated (c_is_server c) sid in
      if \<not> peer \<and> \<not> stream_is_bidi sid
      then (conn_close protect now STREAM_STATE_ERROR ''STREAM frame on send-only stream'' c, [])
      else case find_stream (unat sid) c of
             Some s \<Rightarrow> (deliver_stream protect now f s c, [])
           | None \<Rightarrow>
               if \<not> peer then (c, [])
               else case admit_peer_stream sid c of
                      Ignore \<Rightarrow> (c, [])
                    | LimitError \<Rightarrow> (conn_close protect now STREAM_LIMIT_ERROR ''Stream limit exceeded'' c, [])
                    | Admit c1 \<Rightarrow>
                        (deliver_stream protect now f (quic_stream_new (unat sid))
                           (open_peer_stream (unat sid) c1), [unat sid]))"

definition close_found_stream :: "protector \<Rightarrow> int \<Rightarrow> nat \<Rightarrow> quic_conn \<Rightarrow> quic_conn" where
  "close_found_stream protect now sid c =
     (case find_stream sid c of
        None \<Rightarrow> c
      | Some s \<Rightarrow> (case qs_close s of (s, evs) \<Rightarrow> fold (stream_request protect now) evs (put_stream sid s c)))"

definition process_datagram_frame :: "protector \<Rightarrow> int \<Rightarrow> bytes \<Rightarrow> quic_conn \<Rightarrow> quic_conn" where
  "process_datagram_frame protect now d c =
     (if c_local_max_datagram_frame c = 0 \<or> length d > c_local_max_datagram_frame c
      then conn_close protect now PROTOCOL_VIOLATION ''unexpected DATAGRAM frame'' c
      else if length (c_received_datagrams c) < kMaxQueuedDatagrams
      then c\<lparr>c_received_datagrams := c_received_datagrams c @ [d]\<rparr>
      else c)"

definition process_frame ::
    "protector \<Rightarrow> int \<Rightarrow> packet_type \<Rightarrow> frame \<Rightarrow> quic_conn \<Rightarrow> quic_conn \<times> nat list" where
  "process_frame protect now type f c =
     (case f of
        DatagramFrame d \<Rightarrow> (process_datagram_frame protect now d c, [])
      | AckFrame a \<Rightarrow> (on_ack_received protect now type a c, [])
      | StreamFrame sf \<Rightarrow> process_stream_frame protect now sf c
      | MaxDataFrame m \<Rightarrow>
          (if unat m > c_max_data c then flush_stream_send_queues protect now (c\<lparr>c_max_data := unat m\<rparr>) else c, [])
      | MaxStreamDataFrame sid m \<Rightarrow>
          (if unat m > c_max_stream_data c
           then flush_stream_send_queues protect now (c\<lparr>c_max_stream_data := unat m\<rparr>) else c, [])
      | ResetStreamFrame sid err fin \<Rightarrow> (close_found_stream protect now (unat sid) c, [])
      | StopSendingFrame sid err \<Rightarrow> (close_found_stream protect now (unat sid) c, [])
      | ConnectionCloseFrame reason err ft app \<Rightarrow> (terminate_conn protect now False 0 [] c, [])
      | _ \<Rightarrow> (c, []))"

fun process_frames ::
    "protector \<Rightarrow> int \<Rightarrow> packet_type \<Rightarrow> frame list \<Rightarrow> quic_conn \<Rightarrow> quic_conn \<times> nat list" where
  "process_frames protect now type [] c = (c, [])"
| "process_frames protect now type (f # fs) c =
     (case process_frame protect now type f c of
        (c, new1) \<Rightarrow> (case process_frames protect now type fs c of (c, new2) \<Rightarrow> (c, new1 @ new2)))"

end
