(* ===== verification/Quic_Conn_Send_Proofs.thy ===== *)
theory Quic_Conn_Send_Proofs
  imports Quic_Conn_Send
begin

text \<open>
  What the sending side of a connection guarantees: flow-control limits, the integrity of
  the STREAM frames that the packetiser cuts out of a send queue, loss-free and
  order-preserving coalescing of packets into datagrams, and the anti-amplification limit.
\<close>

section \<open>The packetiser\<close>

text \<open>A rule for invariants of the packetising loop: number allocation and one committed chunk.\<close>

lemma flush_stream_invariant:
  assumes "I q c"
    and alloc: "\<And>q c. I q c \<Longrightarrow> I q (snd (allocate_next_pn OneRTT c))"
    and step: "\<And>q c packet pn c1 n. I q c \<Longrightarrow> allocate_next_pn OneRTT c = (pn, c1) \<Longrightarrow>
      n = chunk_length sid q c \<Longrightarrow> n \<noteq> 0 \<or> sb_empty q \<Longrightarrow>
      I (sb_consume n q) (commit_chunk sid n (stream_chunk_frame sid q c) packet pn now c1)"
  shows "I (fst (flush_stream protect keys now sid q c)) (snd (flush_stream protect keys now sid q c))"
  using assms
proof (induction protect keys now sid q c rule: flush_stream.induct)
  case (1 protect keys now sid q c)
  note I = "1.prems"(1) and alloc = "1.prems"(2) and step = "1.prems"(3)
  obtain pn c1 where a: "allocate_next_pn OneRTT c = (pn, c1)" by fastforce
  then have I1: "I q c1" using alloc [OF I] by simp
  let ?n = "chunk_length sid q c" and ?sf = "stream_chunk_frame sid q c"
  show ?case
  proof (cases "(sb_empty q \<and> \<not> c_send_fin c sid)
      \<or> (\<not> sb_empty q \<and> (conn_credit c = 0 \<or> stream_credit sid c = 0)) \<or> (?n = 0 \<and> \<not> sb_empty q)")
    case True
    then show ?thesis using I by (subst (1 2) flush_stream.simps) (auto simp: Let_def)
  next
    case go: False
    show ?thesis
    proof (cases "protect keys (short_header pn c1) (serialize_frame (StreamFrame ?sf))")
      case None
      then show ?thesis using go a I1 by (subst (1 2) flush_stream.simps) (auto simp: Let_def)
    next
      case (Some packet)
      have s: "I (sb_consume ?n q) (commit_chunk sid ?n ?sf packet pn now c1)"
        by (rule step [OF I a refl]) (use go in auto)
      show ?thesis
      proof (cases "?n = 0 \<and> sf_fin ?sf")
        case True
        then show ?thesis using go a Some s by (subst (1 2) flush_stream.simps) (auto simp: Let_def)
      next
        case False
        have "I (fst (flush_stream protect keys now sid (sb_consume ?n q) (commit_chunk sid ?n ?sf packet pn now c1)))
          (snd (flush_stream protect keys now sid (sb_consume ?n q) (commit_chunk sid ?n ?sf packet pn now c1)))"
          using go False a Some by (intro "1.IH" [OF _ _ refl _ refl _ refl _ _ _ _ s alloc step]) auto
        then show ?thesis using go a Some False by (subst (1 2) flush_stream.simps) (auto simp: Let_def)
      qed
    qed
  qed
qed

lemma allocate_next_pn_fields:
  assumes "allocate_next_pn type c = (pn, c1)"
  shows "c_data_sent c1 = c_data_sent c" "c_max_data c1 = c_max_data c"
    "c_stream_data_sent c1 = c_stream_data_sent c" "c_max_stream_data c1 = c_max_stream_data c"
    "c_send_offsets c1 = c_send_offsets c" "c_sent_packets c1 = c_sent_packets c"
    "c_send_fin c1 = c_send_fin c" "pn = c_next_pn c (space_index type)"
    "c_next_pn c1 = (c_next_pn c)(space_index type := pn + 1)"
    "c_streams c1 = c_streams c" "c_outbound c1 = c_outbound c"
  using assms by (auto simp: allocate_next_pn_def Let_def)

lemma commit_chunk_fields:
  "c_data_sent (commit_chunk sid n sf packet pn now c) = c_data_sent c + n"
  "c_max_data (commit_chunk sid n sf packet pn now c) = c_max_data c"
  "c_stream_data_sent (commit_chunk sid n sf packet pn now c)
     = (c_stream_data_sent c)(sid := c_stream_data_sent c sid + n)"
  "c_max_stream_data (commit_chunk sid n sf packet pn now c) = c_max_stream_data c"
  "c_send_offsets (commit_chunk sid n sf packet pn now c) = (c_send_offsets c)(sid := c_send_offsets c sid + n)"
  "c_sent_packets (commit_chunk sid n sf packet pn now c) = (c_sent_packets c)(2 := c_sent_packets c 2
     @ [\<lparr>sp_time_sent = now, sp_packet_number = pn, sp_bytes_sent = length packet, sp_frames = [StreamFrame sf],
         sp_packet_type = OneRTT, sp_ack_eliciting = True\<rparr>])"
  "c_send_fin (commit_chunk sid n sf packet pn now c) = (c_send_fin c)(sid := c_send_fin c sid \<and> \<not> sf_fin sf)"
  "c_next_pn (commit_chunk sid n sf packet pn now c) = c_next_pn c"
  "c_streams (commit_chunk sid n sf packet pn now c) = c_streams c"
  by (auto simp: commit_chunk_def push_outbound_def track_sent_packet_def Let_def)

text \<open>Flow control: what was sent stays within what the peer allowed.\<close>

definition flow_ok :: "quic_conn \<Rightarrow> bool" where
  "flow_ok c \<longleftrightarrow> c_data_sent c \<le> c_max_data c \<and> (\<forall>sid. c_stream_data_sent c sid \<le> c_max_stream_data c)"

lemma chunk_length_credit: "chunk_length sid q c \<le> conn_credit c" "chunk_length sid q c \<le> stream_credit sid c"
  by (simp_all add: chunk_length_def Let_def)

lemma flush_stream_flow:
  assumes "flow_ok c"
  shows "flow_ok (snd (flush_stream protect keys now sid q c))"
proof (rule flush_stream_invariant [where I = "\<lambda>q c. flow_ok c"])
  show "flow_ok c" by fact
next
  fix q :: stream_buffer and c packet pn c1 n
  assume c: "flow_ok c" and a: "allocate_next_pn OneRTT c = (pn, c1)" and n: "n = chunk_length sid q c"
  have "n \<le> conn_credit c" "n \<le> stream_credit sid c" using chunk_length_credit n by auto
  then have "c_data_sent c + n \<le> c_max_data c" "c_stream_data_sent c sid + n \<le> c_max_stream_data c"
    using c by (auto simp: conn_credit_def stream_credit_def flow_ok_def split: if_splits)
  with c show "flow_ok (commit_chunk sid n (stream_chunk_frame sid q c) packet pn now c1)"
    by (simp add: flow_ok_def commit_chunk_fields allocate_next_pn_fields [OF a])
qed (auto simp: flow_ok_def allocate_next_pn_def Let_def)

lemma flush_queues_flow: "flow_ok c \<Longrightarrow> flow_ok (snd (flush_queues protect keys now qs c))"
proof (induction qs arbitrary: c)
  case (Cons a qs)
  obtain sid q where a: "a = (sid, q)" by fastforce
  obtain q1 c1 where f: "flush_stream protect keys now sid q c = (q1, c1)" by fastforce
  have c1: "flow_ok c1" using flush_stream_flow [OF Cons.prems, of protect keys now sid q] f by simp
  have "flow_ok (c1\<lparr>c_send_fin := x, c_send_offsets := y, c_stream_data_sent := (c_stream_data_sent c1)(sid := 0)\<rparr>)"
    for x y using c1 by (simp add: flow_ok_def)
  with Cons.IH c1 show ?case
    by (auto simp: a f split: prod.split) (metis snd_conv)+
qed simp

lemma flush_stream_send_queues_flow: "flow_ok c \<Longrightarrow> flow_ok (flush_stream_send_queues protect now c)"
  using flush_queues_flow [of c protect _ now "c_send_queues c"]
  by (auto simp: flush_stream_send_queues_def flow_ok_def split: option.split prod.split) (metis snd_conv)+

text \<open>
  Integrity: \<open>S\<close> is everything the application queues on the stream.  The offset counts the
  octets already cut off, the queue holds the rest, and every frame of the packets sent
  since the first \<open>k\<close> is a piece of \<open>S\<close>, with FIN at its end only.
\<close>

definition sends_stream :: "bytes \<Rightarrow> nat \<Rightarrow> nat \<Rightarrow> stream_buffer \<Rightarrow> quic_conn \<Rightarrow> bool" where
  "sends_stream S sid k q c \<longleftrightarrow>
     sb_inv q \<and> c_send_offsets c sid \<le> length S \<and> sb_view q = drop (c_send_offsets c sid) S
     \<and> k \<le> length (c_sent_packets c 2)
     \<and> (\<forall>pkt \<in> set (drop k (c_sent_packets c 2)). \<exists>sf. sp_frames pkt = [StreamFrame sf]
          \<and> sf_stream_id sf = of_nat sid \<and> stream_frame_ok sf
          \<and> good_push S (unat (sf_offset sf)) (sf_data sf) (sf_fin sf))"

lemma stream_chunk_frame_good:
  assumes "sb_inv q" and "c_send_offsets c sid \<le> length S" and "sb_view q = drop (c_send_offsets c sid) S"
    and "length S < 2 ^ 62" and "sid < 2 ^ 62"
  defines "sf \<equiv> stream_chunk_frame sid q c"
  shows "stream_frame_ok sf \<and> good_push S (unat (sf_offset sf)) (sf_data sf) (sf_fin sf)
    \<and> length (sf_data sf) = chunk_length sid q c"
proof -
  let ?o = "c_send_offsets c sid" and ?n = "chunk_length sid q c"
  have n: "?n \<le> length S - ?o" using chunk_length_le [of sid q c] assms(3) by (simp add: sb_size_view)
  have u: "unat (of_nat ?o :: u64) = ?o" "unat (of_nat sid :: u64) = sid"
    using assms by (simp_all add: unat_of_nat)
  have d: "sf_data sf = take ?n (drop ?o S)"
    by (simp add: sf_def stream_chunk_frame_def Let_def sb_peek_view assms(3))
  have "sf_fin sf \<Longrightarrow> ?n = length S - ?o"
    by (simp add: sf_def stream_chunk_frame_def Let_def sb_size_view assms(3))
  then show ?thesis
    using n assms(2,4,5) u d
    by (cases "?o = 0") (auto simp: good_push_def fits_def stream_frame_ok_def varint_ok_def lv_ok_def sf_def
        stream_chunk_frame_def Let_def)
qed

lemma flush_stream_sends:
  assumes "sends_stream S sid k q c" and "length S < 2 ^ 62" and "sid < 2 ^ 62"
  shows "sends_stream S sid k (fst (flush_stream protect keys now sid q c)) (snd (flush_stream protect keys now sid q c))"
  using assms(1)
proof (rule flush_stream_invariant)
  show "sends_stream S sid k q (snd (allocate_next_pn OneRTT c))" if "sends_stream S sid k q c" for q c
    using that by (simp add: sends_stream_def allocate_next_pn_def Let_def)
next
  fix q c packet pn c1 n
  assume I: "sends_stream S sid k q c" and a: "allocate_next_pn OneRTT c = (pn, c1)"
    and n: "n = chunk_length sid q c"
  let ?sf = "stream_chunk_frame sid q c"
  have good: "stream_frame_ok ?sf \<and> good_push S (unat (sf_offset ?sf)) (sf_data ?sf) (sf_fin ?sf)"
    using stream_chunk_frame_good [of q c sid S] I assms by (simp add: sends_stream_def)
  have len: "n \<le> length S - c_send_offsets c sid"
    using chunk_length_le [of sid q c] I n by (simp add: sb_size_view sends_stream_def)
  have id: "sf_stream_id ?sf = of_nat sid" by (simp add: stream_chunk_frame_def Let_def)
  show "sends_stream S sid k (sb_consume n q) (commit_chunk sid n ?sf packet pn now c1)"
    using I good id len
    by (auto simp: sends_stream_def commit_chunk_fields allocate_next_pn_fields [OF a]
        sbuf.consume_inv sbuf.consume_view add.commute)
qed

section \<open>Packet numbers\<close>

text \<open>In every space the tracked packets carry strictly increasing numbers below the next one.\<close>

definition pn_inv :: "quic_conn \<Rightarrow> bool" where
  "pn_inv c \<longleftrightarrow> (\<forall>s. sorted_wrt (<) (map sp_packet_number (c_sent_packets c s))
     \<and> (\<forall>pkt \<in> set (c_sent_packets c s). sp_packet_number pkt < c_next_pn c s))"

text \<open>A number that was just allocated and not used yet.\<close>

definition pn_fresh :: "packet_type \<Rightarrow> nat \<Rightarrow> quic_conn \<Rightarrow> bool" where
  "pn_fresh type pn c \<longleftrightarrow> pn < c_next_pn c (space_index type)
     \<and> (\<forall>pkt \<in> set (c_sent_packets c (space_index type)). sp_packet_number pkt < pn)"

lemma pn_inv_updates [simp]:
  "pn_inv (c\<lparr>c_crypto_send_offset := x1\<rparr>) = pn_inv c" "pn_fresh t pn (c\<lparr>c_crypto_send_offset := x1\<rparr>) = pn_fresh t pn c"
  "pn_inv (c\<lparr>c_ack_trackers := x2\<rparr>) = pn_inv c" "pn_fresh t pn (c\<lparr>c_ack_trackers := x2\<rparr>) = pn_fresh t pn c"
  "pn_inv (c\<lparr>c_handshake_done_sent := x3\<rparr>) = pn_inv c" "pn_inv (push_outbound pkt c) = pn_inv c"
  "pn_inv (c\<lparr>c_send_fin := x4\<rparr>) = pn_inv c" "pn_inv (c\<lparr>c_send_offsets := x5\<rparr>) = pn_inv c"
  "pn_inv (c\<lparr>c_stream_data_sent := x6\<rparr>) = pn_inv c" "pn_inv (c\<lparr>c_data_sent := x7\<rparr>) = pn_inv c"
  "pn_inv (c\<lparr>c_send_queues := x8\<rparr>) = pn_inv c"
  by (simp_all add: pn_inv_def pn_fresh_def push_outbound_def)

lemma allocate_pn_inv: "pn_inv c \<Longrightarrow> allocate_next_pn type c = (pn, c1) \<Longrightarrow> pn_inv c1 \<and> pn_fresh type pn c1"
  by (auto simp: pn_inv_def pn_fresh_def allocate_next_pn_def Let_def less_Suc_eq)

lemma track_pn_inv: "pn_inv c \<Longrightarrow> pn_fresh type pn c \<Longrightarrow> pn_inv (track_sent_packet type pn n fs now c)"
  by (auto simp: pn_inv_def pn_fresh_def track_sent_packet_def Let_def sorted_wrt_append)

lemma commit_chunk_pn_inv:
  assumes "pn_inv c" and "allocate_next_pn OneRTT c = (pn, c1)"
  shows "pn_inv (commit_chunk sid n sf packet pn now c1)"
  using allocate_pn_inv [OF assms] by (simp add: commit_chunk_def Let_def track_pn_inv)

lemma flush_stream_pn_inv: "pn_inv c \<Longrightarrow> pn_inv (snd (flush_stream protect keys now sid q c))"
  by (rule flush_stream_invariant [where I = "\<lambda>q c. pn_inv c"])
    (auto intro: commit_chunk_pn_inv dest: allocate_pn_inv [OF _ prod.collapse [symmetric]])

lemma flush_queues_pn_inv: "pn_inv c \<Longrightarrow> pn_inv (snd (flush_queues protect keys now qs c))"
proof (induction qs arbitrary: c)
  case (Cons a qs)
  obtain sid q where a: "a = (sid, q)" by fastforce
  obtain q1 c1 where f: "flush_stream protect keys now sid q c = (q1, c1)" by fastforce
  have c1: "pn_inv c1" using flush_stream_pn_inv [OF Cons.prems, of protect keys now sid q] f by simp
  have "pn_inv (c1\<lparr>c_send_fin := x, c_send_offsets := y, c_stream_data_sent := z\<rparr>)" for x y z
    using c1 by (simp add: pn_inv_def)
  with Cons.IH c1 show ?case
    by (auto simp: a f split: prod.split) (metis snd_conv)+
qed simp

lemma flush_stream_send_queues_pn_inv: "pn_inv c \<Longrightarrow> pn_inv (flush_stream_send_queues protect now c)"
  using flush_queues_pn_inv [of c protect _ now "c_send_queues c"]
  by (auto simp: flush_stream_send_queues_def pn_inv_def split: option.split prod.split) (metis snd_conv)+

lemma send_one_rtt_pn_inv: "pn_inv c \<Longrightarrow> pn_inv (snd (send_one_rtt protect keys now f c))"
  by (auto simp: send_one_rtt_def Let_def track_pn_inv split: prod.split option.split dest: allocate_pn_inv)

lemma emit_tracked_pn_inv:
  "pn_inv c \<Longrightarrow> pn_fresh type pn c \<Longrightarrow> pn_inv (emit_tracked protect keys hdr payload type pn f now c)"
  by (auto simp: emit_tracked_def track_pn_inv split: option.split)

lemma queue_crypto_chunk_pn_inv:
  assumes "pn_inv c"
  shows "pn_inv (queue_crypto_chunk protect now level chunk c)"
proof -
  obtain pn c1 where a: "allocate_next_pn level c = (pn, c1)" by fastforce
  note allocate_pn_inv [OF assms a]
  then show ?thesis unfolding queue_crypto_chunk_def Let_def a prod.case
    by (intro emit_tracked_pn_inv) simp_all
qed

lemma queue_crypto_frame_pn_inv: "pn_inv c \<Longrightarrow> pn_inv (queue_crypto_frame protect now level d c)"
  by (induction protect now level d c rule: queue_crypto_frame.induct)
    (subst queue_crypto_frame.simps, simp add: queue_crypto_chunk_pn_inv)

lemma retransmit_crypto_pn_inv:
  assumes "pn_inv c"
  shows "pn_inv (retransmit_crypto protect now type f c)"
proof -
  obtain pn c1 where a: "allocate_next_pn type c = (pn, c1)" by fastforce
  obtain pn2 c2 where b: "allocate_next_pn OneRTT c = (pn2, c2)" by fastforce
  show ?thesis
    using allocate_pn_inv [OF assms a] allocate_pn_inv [OF assms b] assms
    unfolding retransmit_crypto_def Let_def a b prod.case
    by (auto simp: emit_tracked_pn_inv split: option.split)
qed

lemma allocate_snd_pn_inv: "pn_inv c \<Longrightarrow> pn_inv (snd (allocate_next_pn type c))"
  using allocate_pn_inv [of c type "fst (allocate_next_pn type c)" "snd (allocate_next_pn type c)"] by simp

lemma retransmit_frame_pn_inv:
  assumes "pn_inv c"
  shows "pn_inv (retransmit_frame protect now ft c)"
  using retransmit_crypto_pn_inv [OF assms] send_one_rtt_pn_inv [OF assms] allocate_snd_pn_inv [OF assms] assms
  unfolding retransmit_frame_def by (auto split: frame.split option.split)

lemma emit_ack_pn_inv: "pn_inv c \<Longrightarrow> pn_inv (emit_ack protect k type hdr c)"
  by (simp add: emit_ack_def Let_def split: option.split)

lemma send_ack_pn_inv:
  assumes "pn_inv c"
  shows "pn_inv (send_ack_for_space protect type c)"
proof -
  obtain pn c1 where a: "allocate_next_pn (ack_packet_type type) c = (pn, c1)" by fastforce
  then have "pn_inv c1" using allocate_pn_inv [OF assms a] by simp
  with assms a show ?thesis
    by (simp add: send_ack_for_space_def Let_def emit_ack_pn_inv split: option.split)
qed

lemma queue_stream_data_pn_inv: "pn_inv c \<Longrightarrow> pn_inv (queue_stream_data protect now sid d fin c)"
  by (simp add: queue_stream_data_def Let_def flush_stream_send_queues_pn_inv)

section \<open>Datagrams\<close>

text \<open>
  A grouping of the queued packets: every group becomes a datagram, only its last packet
  may have a short header, and a group of several packets respects the limit.
\<close>

definition group_ok :: "nat \<Rightarrow> bytes list \<Rightarrow> bool" where
  "group_ok limit g \<longleftrightarrow> g \<noteq> [] \<and> [] \<notin> set g \<and> (\<forall>p \<in> set (butlast g). pkt_is_long p)
     \<and> (length g > 1 \<longrightarrow> length (concat g) \<le> limit)"

lemma coalesce_groups:
  assumes "cur = concat g" and "g = [] \<or> group_ok limit g" and "ends_short = (g \<noteq> [] \<and> \<not> pkt_is_long (last g))"
  shows "\<exists>groups. coalesce limit pkts cur ends_short = map concat groups
    \<and> concat groups = g @ filter (\<lambda>p. p \<noteq> []) pkts \<and> (\<forall>g' \<in> set groups. group_ok limit g')"
  using assms
proof (induction pkts arbitrary: cur g ends_short)
  case Nil
  show ?case
  proof (cases "g = []")
    case True
    with Nil show ?thesis by (intro exI [of _ "[]"]) simp
  next
    case False
    then have "concat g \<noteq> []" using Nil by (cases g) (auto simp: group_ok_def)
    with Nil False show ?thesis by (intro exI [of _ "[g]"]) auto
  qed
next
  case (Cons pkt pkts)
  have ne: "cur \<noteq> [] \<longleftrightarrow> g \<noteq> []" using Cons.prems by (cases g) (auto simp: group_ok_def)
  consider (skip) "pkt = []" | (join) "pkt \<noteq> []" "g \<noteq> []" "\<not> ends_short" "length cur + length pkt \<le> limit"
    | (start) "pkt \<noteq> []" "\<not> (g \<noteq> [] \<and> \<not> ends_short \<and> length cur + length pkt \<le> limit)" by blast
  then show ?case
  proof cases
    case skip
    with Cons.IH [OF Cons.prems] show ?thesis by simp
  next
    case join
    have "\<forall>p \<in> set g. pkt_is_long p"
      using Cons.prems join by (metis append_butlast_last_id group_ok_def in_set_conv_decomp_last
          set_ConsD set_append UnE list.set(1) empty_iff)
    then have "group_ok limit (g @ [pkt])"
      using Cons.prems join by (auto simp: group_ok_def)
    from Cons.IH [of "cur @ pkt" "g @ [pkt]" "ends_short \<or> \<not> pkt_is_long pkt"] this Cons.prems join ne
    show ?thesis by auto
  next
    case start
    have "group_ok limit [pkt]" using start by (simp add: group_ok_def)
    from Cons.IH [of pkt "[pkt]" "\<not> pkt_is_long pkt"] this obtain groups where
      r: "coalesce limit pkts pkt (\<not> pkt_is_long pkt) = map concat groups"
        "concat groups = [pkt] @ filter (\<lambda>p. p \<noteq> []) pkts" "\<forall>g' \<in> set groups. group_ok limit g'" by auto
    show ?thesis
    proof (cases "g = []")
      case True
      with r start ne Cons.prems show ?thesis by (intro exI [of _ groups]) auto
    next
      case False
      with r start ne Cons.prems show ?thesis by (intro exI [of _ "g # groups"]) auto
    qed
  qed
qed

lemma amplify_spec:
  assumes "amplify validated received ds out held sent = (out', held', sent')"
    and "held \<noteq> [] \<longrightarrow> \<not> validated"
  shows "out' @ held' = (if held = [] then out @ ds else out @ held @ ds)
    \<and> sent' + sum_list (map length out) = sent + sum_list (map length out')
    \<and> (\<not> validated \<longrightarrow> sent \<le> 3 * received \<longrightarrow> sent' \<le> 3 * received)
    \<and> (validated \<longrightarrow> held' = held)"
  using assms
proof (induction ds arbitrary: out held sent)
  case (Cons d ds)
  show ?case
  proof (cases "\<not> validated \<and> (held \<noteq> [] \<or> sent + length d > 3 * received)")
    case True
    with Cons.prems Cons.IH [of out "held @ [d]" sent] show ?thesis by auto
  next
    case False
    with Cons.prems Cons.IH [of "out @ [d]" held "sent + length d"] show ?thesis by (cases validated) auto
  qed
qed auto

lemma conn_new_flow: "flow_ok (quic_conn_new srv tls l p)"
  by (simp add: flow_ok_def quic_conn_new_def)

lemma conn_new_pn_inv: "pn_inv (quic_conn_new srv tls l p)"
  by (simp add: pn_inv_def quic_conn_new_def)

section \<open>Properties\<close>





text \<open>
  C8.  Coalescing loses, repeats and reorders nothing: the datagrams are the queued non-empty
  packets in order, cut into groups; inside a datagram only the last packet may have a
  short header; and a datagram of several packets is at most the datagram size.
\<close>

theorem coalesce_faithful:
  "\<exists>groups. coalesce limit pkts [] False = map concat groups
     \<and> concat groups = filter (\<lambda>p. p \<noteq> []) pkts \<and> (\<forall>g \<in> set groups. group_ok limit g)"
  using coalesce_groups [of "[]" "[]" limit False pkts] by simp

theorem coalesce_faithful_witness:
  "\<exists>groups. coalesce 5 [[0xc0, 1], [0xc0, 2], [0x40]] [] False = map concat groups
     \<and> concat groups = [[0xc0, 1], [0xc0, 2], [0x40]] \<and> (\<forall>g \<in> set groups. group_ok 5 g)"
  using coalesce_faithful [of 5 "[[0xc0, 1], [0xc0, 2], [0x40]]"] by simp



end
