(* ===== verification/Quic_Conn_Recv_Proofs.thy ===== *)
theory Quic_Conn_Recv_Proofs
  imports Quic_Conn_Recv Quic_Conn_Send_Proofs
begin

text \<open>
  What the receiving side of a connection guarantees: a peer's stream is dispatched at most
  once and within the advertised limits, STREAM frames that are lost are sent again, packet
  numbers stay unique through acknowledgement, loss and termination, and the frames
  that Initial and Handshake packets may carry cannot touch streams.
\<close>

section \<open>Frame rules\<close>

text \<open>The part of the state that admits streams; only \<^verbatim>\<open>admit_peer_stream\<close> changes it.\<close>

definition peer_table :: "quic_conn \<Rightarrow> (bool \<Rightarrow> nat) \<times> nat set \<times> (bool \<Rightarrow> nat) \<times> bool" where
  "peer_table c = (c_next_peer_stream_idx c, c_unseen_peer_streams c, c_max_peer_streams c, c_is_server c)"

lemma peer_table_updates [simp]:
  "peer_table (c\<lparr>c_send_queues := x1\<rparr>) = peer_table c" "peer_table (c\<lparr>c_send_fin := x2\<rparr>) = peer_table c"
  "peer_table (c\<lparr>c_streams := x3\<rparr>) = peer_table c" "peer_table (c\<lparr>c_state := x4\<rparr>) = peer_table c"
  "peer_table (c\<lparr>c_send_offsets := x5\<rparr>) = peer_table c" "peer_table (c\<lparr>c_stream_data_sent := x6\<rparr>) = peer_table c"
  "peer_table (c\<lparr>c_sent_packets := x7\<rparr>) = peer_table c" "peer_table (c\<lparr>c_cc := x8\<rparr>) = peer_table c"
  "peer_table (c\<lparr>c_pto_count := x9\<rparr>) = peer_table c" "peer_table (c\<lparr>c_largest_acked := x10\<rparr>) = peer_table c"
  "peer_table (c\<lparr>c_received_datagrams := x11\<rparr>) = peer_table c" "peer_table (c\<lparr>c_max_data := x12\<rparr>) = peer_table c"
  "peer_table (c\<lparr>c_max_stream_data := x13\<rparr>) = peer_table c" "peer_table (c\<lparr>c_stream_acceptor := x14\<rparr>) = peer_table c"
  "peer_table (c\<lparr>c_accepted_streams := x15\<rparr>) = peer_table c" "peer_table (c\<lparr>c_data_sent := x16\<rparr>) = peer_table c"
  "peer_table (push_outbound pkt c) = peer_table c"
  "peer_table (track_sent_packet t pn n fs now c) = peer_table c"
  "peer_table (snd (allocate_next_pn t c)) = peer_table c"
  by (simp_all add: peer_table_def push_outbound_def track_sent_packet_def allocate_next_pn_def Let_def)

lemma allocate_peer_table: "allocate_next_pn t c = (pn, c1) \<Longrightarrow> peer_table c1 = peer_table c"
  using peer_table_updates(19) [of t c] by simp

lemma emit_tracked_peer_table [simp]: "peer_table (emit_tracked protect k hdr p t pn f now c) = peer_table c"
  by (simp add: emit_tracked_def split: option.split)

lemma send_one_rtt_peer_table [simp]: "peer_table (snd (send_one_rtt protect k now f c)) = peer_table c"
  by (auto simp: send_one_rtt_def allocate_peer_table split: option.split prod.split)

lemma retransmit_frame_peer_table [simp]: "peer_table (retransmit_frame protect now ft c) = peer_table c"
  by (auto simp: retransmit_frame_def retransmit_crypto_def allocate_peer_table Let_def split: frame.split option.split prod.split)

lemma flush_stream_peer_table [simp]: "peer_table (snd (flush_stream protect k now sid q c)) = peer_table c"
  by (rule flush_stream_invariant [where I = "\<lambda>q c'. peer_table c' = peer_table c"])
    (auto simp: commit_chunk_def Let_def dest: allocate_peer_table)

lemma flush_queues_peer_table [simp]: "peer_table (snd (flush_queues protect k now qs c)) = peer_table c"
proof (induction qs arbitrary: c)
  case (Cons a qs)
  obtain sid q where a: "a = (sid, q)" by fastforce
  obtain q1 c1 where f: "flush_stream protect k now sid q c = (q1, c1)" by fastforce
  then have "peer_table c1 = peer_table c" using flush_stream_peer_table [of protect k now sid q c] by simp
  with Cons.IH show ?case by (auto simp: a f split: prod.split) (metis snd_conv)+
qed simp

lemma flush_queues_peer_table_pair:
  "flush_queues protect k now qs c = (qs', c') \<Longrightarrow> peer_table c' = peer_table c"
  using flush_queues_peer_table [of protect k now qs c] by simp

lemma flush_peer_table [simp]: "peer_table (flush_stream_send_queues protect now c) = peer_table c"
  by (auto simp: flush_stream_send_queues_def split: option.split prod.split dest: flush_queues_peer_table_pair)

lemma queue_stream_data_peer_table [simp]: "peer_table (queue_stream_data protect now sid d fin c) = peer_table c"
  by (simp add: queue_stream_data_def Let_def)

lemma fold_peer_table: "(\<And>x c. peer_table (f x c) = peer_table c) \<Longrightarrow> peer_table (fold f xs c) = peer_table c"
  by (induction xs arbitrary: c) simp_all

lemma close_request_peer_table [simp]: "peer_table (close_request protect now ev c) = peer_table c"
  by (simp add: close_request_def split: stream_event.split)

lemma close_stream_peer_table [simp]: "peer_table (close_stream protect now sid c) = peer_table c"
  by (simp add: close_stream_def erase_stream_def fold_peer_table split: option.split)

lemma stream_request_peer_table [simp]: "peer_table (stream_request protect now ev c) = peer_table c"
  by (simp add: stream_request_def split: stream_event.split)

lemma send_connection_close_peer_table [simp]:
  "peer_table (send_connection_close protect err reason c) = peer_table c"
  by (auto simp: send_connection_close_def allocate_peer_table Let_def split: option.split prod.split)

lemma terminate_peer_table [simp]: "peer_table (terminate_conn protect now sc err reason c) = peer_table c"
  by (simp add: terminate_conn_def Let_def fold_peer_table)

lemma deliver_stream_peer_table [simp]: "peer_table (deliver_stream protect now f s c) = peer_table c"
  by (simp add: deliver_stream_def put_stream_def fold_peer_table split: prod.split)

lemma on_ack_peer_table [simp]: "peer_table (on_ack_received protect now type ack c) = peer_table c"
  by (simp add: on_ack_received_def detect_lost_packets_def Let_def fold_peer_table)

lemma open_peer_stream_peer_table [simp]: "peer_table (open_peer_stream sid c) = peer_table c"
  by (simp add: open_peer_stream_def put_stream_def Let_def)

lemma close_found_stream_peer_table [simp]: "peer_table (close_found_stream protect now sid c) = peer_table c"
  by (simp add: close_found_stream_def put_stream_def fold_peer_table split: option.split prod.split)

section \<open>Peer streams\<close>

text \<open>
  \<open>opened\<close> are the streams of the peer dispatched so far: each is below the high-water mark
  of its kind and not waiting to be seen; the marks respect the limits; and what waits to be
  seen is below the marks and was opened by the peer.
\<close>

definition sid_idx :: "nat \<Rightarrow> nat" where "sid_idx sid = sid div 4"
definition sid_bidi :: "nat \<Rightarrow> bool" where "sid_bidi sid = (sid div 2 mod 2 = 0)"

definition opened_ok :: "(bool \<Rightarrow> nat) \<Rightarrow> nat set \<Rightarrow> quic_conn \<Rightarrow> bool" where
  "opened_ok m opened c \<longleftrightarrow>
     (\<forall>sid \<in> opened. sid_idx sid < c_next_peer_stream_idx c (sid_bidi sid) \<and> sid \<notin> c_unseen_peer_streams c)
     \<and> (\<forall>sid \<in> c_unseen_peer_streams c. sid_idx sid < c_next_peer_stream_idx c (sid_bidi sid))
     \<and> c_max_peer_streams c = m \<and> (\<forall>b. c_next_peer_stream_idx c b \<le> m b)"

lemma opened_ok_table: "peer_table c = peer_table c' \<Longrightarrow> opened_ok m opened c = opened_ok m opened c'"
  by (auto simp: opened_ok_def peer_table_def)

lemma stream_is_bidi_iff: "stream_is_bidi sid \<longleftrightarrow> sid_bidi (unat sid)"
proof -
  have "sid AND 0x02 = 0 \<longleftrightarrow> \<not> bit sid 1"
    using and_exp_eq_0_iff_not_bit [of sid 1] by simp
  also have "bit sid 1 \<longleftrightarrow> bit (unat sid) 1" by (simp add: bit_unsigned_iff)
  also have "\<dots> \<longleftrightarrow> odd (unat sid div 2)" by (simp add: bit_iff_odd)
  finally show ?thesis by (simp add: stream_is_bidi_def sid_bidi_def even_iff_mod_2_eq_zero)
qed

lemma sid_parts:
  assumes "r < 4"
  shows "sid_idx (i * 4 + r) = i" and "sid_bidi (i * 4 + r) = sid_bidi r"
  using assms unfolding sid_idx_def sid_bidi_def by presburger+

lemma admit_peer_stream_ok:
  assumes "opened_ok m opened c" and "admit_peer_stream sid c = Admit c1"
  shows "unat sid \<notin> opened \<and> opened_ok m (insert (unat sid) opened) c1"
proof -
  let ?b = "sid_bidi (unat sid)" and ?i = "sid_idx (unat sid)" and ?r = "unat sid mod 4"
  have idx: "unat (drop_bit 2 sid) = ?i" by (simp add: unat_drop_bit sid_idx_def)
  have low: "unat (sid AND 0x03) = ?r" by (simp add: octet_simps)
  have b: "sid_bidi ?r = ?b" by (simp add: sid_bidi_def) presburger
  consider (seen) "?i < c_next_peer_stream_idx c ?b" "unat sid \<in> c_unseen_peer_streams c"
      "c1 = c\<lparr>c_unseen_peer_streams := c_unseen_peer_streams c - {unat sid}\<rparr>"
    | (new) "c_next_peer_stream_idx c ?b \<le> ?i" "?i < c_max_peer_streams c ?b"
      "c1 = c\<lparr>c_unseen_peer_streams := c_unseen_peer_streams c
          \<union> set (map (\<lambda>i. i * 4 + ?r) [c_next_peer_stream_idx c ?b..<?i]),
        c_next_peer_stream_idx := (c_next_peer_stream_idx c)(?b := ?i + 1)\<rparr>"
    using assms(2)
    by (auto simp: admit_peer_stream_def Let_def stream_is_bidi_iff idx low split: if_splits)
  then show ?thesis
  proof cases
    case seen
    with assms(1) show ?thesis by (auto simp: opened_ok_def)
  next
    case new
    let ?next = "c_next_peer_stream_idx c" and ?U = "c_unseen_peer_streams c"
    let ?new = "set (map (\<lambda>i. i * 4 + ?r) [?next ?b..<?i])"
    have inv: "\<And>x. x \<in> opened \<Longrightarrow> sid_idx x < ?next (sid_bidi x) \<and> x \<notin> ?U"
      "\<And>x. x \<in> ?U \<Longrightarrow> sid_idx x < ?next (sid_bidi x)" "\<And>b. ?next b \<le> m b" "c_max_peer_streams c = m"
      using assms(1) by (auto simp: opened_ok_def)
    have fresh: "?next ?b \<le> sid_idx x \<and> sid_idx x < ?i \<and> sid_bidi x = ?b" if "x \<in> ?new" for x
      using that b by (auto simp: sid_parts)
    have notin: "x \<notin> ?new" if "x \<in> insert (unat sid) opened" for x
      using that fresh [of x] inv(1) [of x] by (auto simp del: set_map set_upt)
    have sid: "unat sid \<notin> opened" "unat sid \<notin> ?U"
      using inv(1,2) [of "unat sid"] new(1) by auto
    let ?next' = "(?next)(?b := ?i + 1)"
    have up: "?next b' \<le> ?next' b'" for b' using new(1) by simp
    have o: "sid_idx x < ?next' (sid_bidi x) \<and> x \<notin> ?U \<union> ?new" if "x \<in> insert (unat sid) opened" for x
    proof (cases "x = unat sid")
      case True
      then show ?thesis using sid(2) notin [OF that] by simp
    next
      case False
      with that have "x \<in> opened" by simp
      then show ?thesis using inv(1) [of x] notin [OF that] up [of "sid_bidi x"] by (simp del: set_map set_upt fun_upd_apply)
    qed
    have u: "sid_idx x < ?next' (sid_bidi x)" if "x \<in> ?U \<union> ?new" for x
    proof (cases "x \<in> ?U")
      case True
      then show ?thesis using inv(2) [of x] up [of "sid_bidi x"] by (simp del: fun_upd_apply)
    next
      case False
      with that fresh [of x] have "sid_bidi x = ?b" "sid_idx x < ?i" by blast+
      then show ?thesis by simp
    qed
    have lim: "?next' b' \<le> m b'" for b'
      using new(2) inv(3) [of b'] inv(4) by (cases "b' = ?b") simp_all
    have fields: "c_next_peer_stream_idx c1 = ?next'" "c_unseen_peer_streams c1 = ?U \<union> ?new"
      "c_max_peer_streams c1 = m"
      using inv(4) by (simp_all add: new(3) del: set_map set_upt)
    show ?thesis
      unfolding opened_ok_def fields using o u lim sid(1) by blast
  qed
qed

lemma process_stream_frame_opened:
  assumes "opened_ok m opened c" and "process_stream_frame protect now f c = (c', new)"
  shows "distinct new \<and> set new \<inter> opened = {} \<and> opened_ok m (opened \<union> set new) c'"
proof (cases "peer_table c' = peer_table c \<and> new = []")
  case True
  with assms(1) show ?thesis using opened_ok_table [of c' c m opened] by simp
next
  case False
  then obtain c1 where "admit_peer_stream (sf_stream_id f) c = Admit c1" "new = [unat (sf_stream_id f)]"
      "peer_table c' = peer_table c1"
    using assms(2)
    by (auto simp: process_stream_frame_def Let_def conn_close_def
        split: if_splits option.splits admission.splits)
  with admit_peer_stream_ok [OF assms(1)] opened_ok_table [of c' c1] show ?thesis by simp
qed

lemma process_frame_opened:
  assumes "opened_ok m opened c" and "process_frame protect now type f c = (c', new)"
  shows "distinct new \<and> set new \<inter> opened = {} \<and> opened_ok m (opened \<union> set new) c'"
proof (cases "is_StreamFrame f")
  case True
  with assms process_stream_frame_opened [OF assms(1)] show ?thesis
    by (cases f) (auto simp: process_frame_def)
next
  case False
  then have "peer_table c' = peer_table c \<and> new = []"
    using assms(2)
    by (cases f) (auto simp: process_frame_def process_datagram_frame_def conn_close_def)
  with assms(1) show ?thesis using opened_ok_table [of c' c m opened] by simp
qed

lemma process_frames_opened:
  "opened_ok m opened c \<Longrightarrow> process_frames protect now type fs c = (c', new) \<Longrightarrow>
     distinct new \<and> set new \<inter> opened = {} \<and> opened_ok m (opened \<union> set new) c'"
proof (induction fs arbitrary: c opened new)
  case (Cons f fs)
  obtain c1 new1 where p1: "process_frame protect now type f c = (c1, new1)" by fastforce
  obtain c2 new2 where p2: "process_frames protect now type fs c1 = (c2, new2)" by fastforce
  note q1 = process_frame_opened [OF Cons.prems(1) p1]
  note q2 = Cons.IH [of "opened \<union> set new1" c1 new2]
  show ?case using Cons.prems(2) q1 q2 p1 p2 by (auto simp: Un_assoc)
qed simp

section \<open>Reliability\<close>

text \<open>Sending only adds to the tracked packets.\<close>

definition sent_grows :: "quic_conn \<Rightarrow> quic_conn \<Rightarrow> bool" where
  "sent_grows c c' \<longleftrightarrow> (\<forall>s. set (c_sent_packets c s) \<subseteq> set (c_sent_packets c' s))"

lemma sent_grows_refl [simp]: "sent_grows c c"
  by (simp add: sent_grows_def)

lemma sent_grows_trans: "sent_grows c c1 \<Longrightarrow> sent_grows c1 c2 \<Longrightarrow> sent_grows c c2"
  by (fastforce simp: sent_grows_def)

lemma sent_grows_track:
  "sent_grows c c1 \<Longrightarrow> sent_grows c (push_outbound pkt (track_sent_packet t pn n fs now c1))"
  by (fastforce simp: sent_grows_def push_outbound_def track_sent_packet_def Let_def)

lemma allocate_sent_grows: "allocate_next_pn t c = (pn, c1) \<Longrightarrow> sent_grows c c1"
  by (auto simp: sent_grows_def allocate_next_pn_def Let_def)

lemma send_one_rtt_sent_grows: "sent_grows c (snd (send_one_rtt protect k now f c))"
  by (auto simp: send_one_rtt_def Let_def allocate_sent_grows sent_grows_track split: option.split prod.split)

lemma emit_tracked_sent_grows: "sent_grows c c1 \<Longrightarrow> sent_grows c (emit_tracked protect k hdr p t pn f now c1)"
  by (simp add: emit_tracked_def sent_grows_track split: option.split)

lemma retransmit_crypto_sent_grows: "sent_grows c (retransmit_crypto protect now t f c)"
proof -
  obtain pn c1 where a: "allocate_next_pn t c = (pn, c1)" by fastforce
  obtain pn2 c2 where b: "allocate_next_pn OneRTT c = (pn2, c2)" by fastforce
  show ?thesis
    unfolding retransmit_crypto_def Let_def a b prod.case
    using allocate_sent_grows [OF a] allocate_sent_grows [OF b]
    by (auto simp: emit_tracked_sent_grows split: option.split)
qed

lemma retransmit_frame_sent_grows: "sent_grows c (retransmit_frame protect now ft c)"
proof -
  have "sent_grows c (snd (allocate_next_pn OneRTT c))"
    using allocate_sent_grows [OF prod.collapse [symmetric]] .
  then show ?thesis
    unfolding retransmit_frame_def
    using retransmit_crypto_sent_grows send_one_rtt_sent_grows by (auto split: frame.split option.split)
qed

lemma fold_sent_grows: "(\<And>x c. sent_grows c (f x c)) \<Longrightarrow> sent_grows c (fold f xs c)"
  by (induction xs arbitrary: c) (auto intro: sent_grows_trans)

lemma flush_stream_sent_grows: "sent_grows c (snd (flush_stream protect k now sid q c))"
  by (rule flush_stream_invariant [where I = "\<lambda>q c'. sent_grows c c'"])
    (auto simp: sent_grows_def commit_chunk_fields allocate_next_pn_def Let_def)

lemma flush_queues_sent_grows: "sent_grows c (snd (flush_queues protect k now qs c))"
proof (induction qs arbitrary: c)
  case (Cons a qs)
  obtain sid q where a: "a = (sid, q)" by fastforce
  obtain q1 c1 where f: "flush_stream protect k now sid q c = (q1, c1)" by fastforce
  have g: "sent_grows c c1" using flush_stream_sent_grows [of c protect k now sid q] f by simp
  have "sent_grows c (c1\<lparr>c_send_fin := x, c_send_offsets := y, c_stream_data_sent := z\<rparr>)" for x y z
    using g by (simp add: sent_grows_def)
  then show ?case using g Cons.IH sent_grows_trans
    by (auto simp: a f split: prod.split) (metis snd_conv)+
qed simp

lemma flush_sent_grows: "sent_grows c (flush_stream_send_queues protect now c)"
proof -
  have "sent_grows c c'" if "flush_queues protect k now (c_send_queues c) c = (qs, c')" for k qs c'
    using flush_queues_sent_grows [of c protect k now "c_send_queues c"] that by simp
  then show ?thesis
    by (auto simp: flush_stream_send_queues_def sent_grows_def split: option.split prod.split)
qed

text \<open>A STREAM frame that some tracked 1-RTT packet will have resent if it is lost.\<close>

definition tracked_stream :: "stream_frame \<Rightarrow> quic_conn \<Rightarrow> bool" where
  "tracked_stream sf c \<longleftrightarrow> (\<exists>pkt \<in> set (c_sent_packets c 2). StreamFrame sf \<in> set (sp_frames pkt))"

lemma tracked_stream_grows: "tracked_stream sf c \<Longrightarrow> sent_grows c c' \<Longrightarrow> tracked_stream sf c'"
  by (auto simp: tracked_stream_def sent_grows_def)

lemma retransmit_tracks:
  assumes "one_rtt_send_keys c \<noteq> None" and "\<And>k h p. protect k h p \<noteq> None"
  shows "tracked_stream sf (retransmit_frame protect now (StreamFrame sf, t) c)"
proof -
  obtain k where k: "one_rtt_send_keys c = Some k" using assms(1) by auto
  obtain pn c1 where a: "allocate_next_pn OneRTT c = (pn, c1)" by fastforce
  obtain pkt where p: "protect k (short_header pn c1) (serialize_frame (StreamFrame sf)) = Some pkt"
    using assms(2) by fastforce
  show ?thesis
    using k a p
    by (simp add: retransmit_frame_def send_one_rtt_def tracked_stream_def push_outbound_def
        track_sent_packet_def Let_def del: serialize_frame.simps)
qed

definition key_state :: "quic_conn \<Rightarrow> bool \<times> bool" where
  "key_state c = (c_one_rtt_keys_valid c, c_tls_initialized c)"

lemma key_state_updates [simp]:
  "key_state (push_outbound pkt c) = key_state c" "key_state (track_sent_packet t pn n fs now c) = key_state c"
  "key_state (snd (allocate_next_pn t c)) = key_state c"
  by (simp_all add: key_state_def push_outbound_def track_sent_packet_def allocate_next_pn_def Let_def)

lemma allocate_key_state: "allocate_next_pn t c = (pn, c1) \<Longrightarrow> key_state c1 = key_state c"
  using key_state_updates(3) [of t c] by simp

lemma emit_tracked_key_state [simp]: "key_state (emit_tracked protect k hdr p t pn f now c) = key_state c"
  by (simp add: emit_tracked_def split: option.split)

lemma send_one_rtt_key_state [simp]: "key_state (snd (send_one_rtt protect k now f c)) = key_state c"
  by (auto simp: send_one_rtt_def allocate_key_state split: option.split prod.split)

lemma retransmit_key_state [simp]: "key_state (retransmit_frame protect now ft c) = key_state c"
  by (auto simp: retransmit_frame_def retransmit_crypto_def allocate_key_state Let_def split: frame.split option.split prod.split)

lemma one_rtt_keys_key_state: "key_state c = key_state c' \<Longrightarrow> one_rtt_send_keys c = one_rtt_send_keys c'"
  by (simp add: key_state_def one_rtt_send_keys_def)

lemma fold_retransmit_tracks:
  assumes "(StreamFrame sf, t) \<in> set fs" and "one_rtt_send_keys c \<noteq> None" and "\<And>k h p. protect k h p \<noteq> None"
  shows "tracked_stream sf (fold (retransmit_frame protect now) fs c)"
  using assms(1,2)
proof (induction fs arbitrary: c)
  case (Cons x fs)
  have keys: "one_rtt_send_keys (retransmit_frame protect now x c) \<noteq> None"
    using Cons.prems(2) one_rtt_keys_key_state [of "retransmit_frame protect now x c" c] by simp
  show ?case
  proof (cases "x = (StreamFrame sf, t)")
    case True
    have "tracked_stream sf (retransmit_frame protect now x c)"
      unfolding True by (rule retransmit_tracks [OF Cons.prems(2)]) (rule assms(3))
    then show ?thesis
      using tracked_stream_grows fold_sent_grows [where f = "retransmit_frame protect now"] retransmit_frame_sent_grows
      by fastforce
  next
    case False
    with Cons.prems Cons.IH [of "retransmit_frame protect now x c"] keys show ?thesis by simp
  qed
qed simp

lemma detect_lost_tracks:
  assumes "tracked_stream sf c" and "one_rtt_send_keys c \<noteq> None" and "\<And>k h p. protect k h p \<noteq> None"
  shows "tracked_stream sf (detect_lost_packets protect now space largest c)"
proof -
  let ?lost = "packet_is_lost largest (loss_time_threshold c) now"
  let ?pkts = "c_sent_packets c space"
  let ?fs = "concat (map (\<lambda>pkt. map (\<lambda>f. (f, sp_packet_type pkt)) (sp_frames pkt)) (filter ?lost ?pkts))"
  define c1 where "c1 = c\<lparr>c_cc := fold (\<lambda>pkt. on_congestion_event (sp_time_sent pkt) now) (filter ?lost ?pkts) (c_cc c),
      c_sent_packets := (c_sent_packets c)(space := filter (\<lambda>pkt. \<not> ?lost pkt) ?pkts)\<rparr>"
  have d: "detect_lost_packets protect now space largest c = fold (retransmit_frame protect now) ?fs c1"
    by (simp add: detect_lost_packets_def Let_def c1_def)
  have keys: "one_rtt_send_keys c1 \<noteq> None"
    using assms(2) one_rtt_keys_key_state [of c1 c] by (simp add: c1_def key_state_def)
  obtain pkt where p: "pkt \<in> set (c_sent_packets c 2)" "StreamFrame sf \<in> set (sp_frames pkt)"
    using assms(1) by (auto simp: tracked_stream_def)
  show ?thesis
  proof (cases "space = 2 \<and> ?lost pkt")
    case True
    then have "(StreamFrame sf, sp_packet_type pkt) \<in> set ?fs" using p by auto
    then show ?thesis unfolding d by (rule fold_retransmit_tracks [OF _ keys]) (rule assms(3))
  next
    case False
    then have "tracked_stream sf c1" using p by (auto simp: tracked_stream_def c1_def)
    then show ?thesis
      unfolding d by (rule tracked_stream_grows) (rule fold_sent_grows [OF retransmit_frame_sent_grows])
  qed
qed

lemma one_rtt_keys_updates [simp]:
  "one_rtt_send_keys (c\<lparr>c_cc := x1\<rparr>) = one_rtt_send_keys c"
  "one_rtt_send_keys (c\<lparr>c_sent_packets := x2\<rparr>) = one_rtt_send_keys c"
  "one_rtt_send_keys (c\<lparr>c_pto_count := x3\<rparr>) = one_rtt_send_keys c"
  "one_rtt_send_keys (c\<lparr>c_largest_acked := x4\<rparr>) = one_rtt_send_keys c"
  by (simp_all add: one_rtt_send_keys_def)

text \<open>An acknowledgement drops a frame only with a packet that carried it.\<close>

definition ack_covers :: "stream_frame \<Rightarrow> packet_type \<Rightarrow> ack_frame \<Rightarrow> quic_conn \<Rightarrow> bool" where
  "ack_covers sf type ack c \<longleftrightarrow> space_index type = 2
     \<and> (\<exists>pkt \<in> set (c_sent_packets c 2). StreamFrame sf \<in> set (sp_frames pkt)
          \<and> is_acked (acked_ranges ack) (sp_packet_number pkt))"

lemma on_ack_tracks:
  assumes "tracked_stream sf c" and "\<not> ack_covers sf type ack c" and "one_rtt_send_keys c \<noteq> None"
    and "\<And>k h p. protect k h p \<noteq> None"
  shows "tracked_stream sf (on_ack_received protect now type ack c)"
proof -
  define acked :: "sent_packet \<Rightarrow> bool" where "acked = (\<lambda>pkt. is_acked (acked_ranges ack) (sp_packet_number pkt))"
  let ?s = "space_index type"
  have keep: "tracked_stream sf (c\<lparr>c_cc := cc, c_sent_packets :=
      (c_sent_packets c)(?s := filter (\<lambda>pkt. \<not> acked pkt) (c_sent_packets c ?s))\<rparr>)" for cc
    using assms(1,2) by (fastforce simp: tracked_stream_def ack_covers_def acked_def)
  have keep': "tracked_stream sf (c\<lparr>c_sent_packets :=
      (c_sent_packets c)(?s := filter (\<lambda>pkt. \<not> acked pkt) (c_sent_packets c ?s))\<rparr>)"
    using keep [of "c_cc c"] by simp
  have more: "tracked_stream sf (c'\<lparr>c_pto_count := n, c_largest_acked := l\<rparr>) = tracked_stream sf c'" for c' n l
    by (simp add: tracked_stream_def)
  have flush: "tracked_stream sf c' \<Longrightarrow> tracked_stream sf (flush_stream_send_queues protect now c')" for c'
    using tracked_stream_grows flush_sent_grows by blast
  have lost: "tracked_stream sf c' \<Longrightarrow> one_rtt_send_keys c' \<noteq> None
      \<Longrightarrow> tracked_stream sf (detect_lost_packets protect now ?s l c')" for c' l
    by (rule detect_lost_tracks) (use assms(4) in auto)
  show ?thesis
    unfolding on_ack_received_def Let_def acked_def [symmetric]
    using assms(1,3) keep keep' by (auto intro!: flush lost simp: more)
qed

lemma take_probe_tracks:
  assumes "take_probe pkts = (fs, pkts')" and "pkt \<in> set pkts" and "f \<in> set (sp_frames pkt)"
  shows "(\<exists>t. (f, t) \<in> set fs) \<or> (\<exists>pkt \<in> set pkts'. f \<in> set (sp_frames pkt))"
  using assms
proof (induction pkts arbitrary: fs pkts')
  case (Cons p ps)
  obtain fs1 ps1 where r: "take_probe ps = (fs1, ps1)" by fastforce
  from Cons.prems Cons.IH [OF r] r show ?case by (cases "sp_frames p = []") (auto simp: image_iff)
qed simp

lemma take_probe_spaces_tracks:
  assumes "take_probe_spaces ss c = (fs, c')" and "tracked_stream sf c"
  shows "(\<exists>t. (StreamFrame sf, t) \<in> set fs) \<or> tracked_stream sf c'"
  using assms
proof (induction ss arbitrary: c fs c')
  case (Cons s ss)
  obtain fs1 pkts1 where r: "take_probe (c_sent_packets c s) = (fs1, pkts1)" by fastforce
  let ?c1 = "c\<lparr>c_sent_packets := (c_sent_packets c)(s := pkts1)\<rparr>"
  have one: "(\<exists>t. (StreamFrame sf, t) \<in> set fs1) \<or> tracked_stream sf ?c1"
    using Cons.prems(2) take_probe_tracks [OF r] by (cases "s = 2") (auto simp: tracked_stream_def)
  show ?case
  proof (cases "fs1 = []")
    case True
    with one have "tracked_stream sf ?c1" by simp
    with True Cons.prems(1) r show ?thesis using Cons.IH [of ?c1 fs c'] by simp
  next
    case False
    with one Cons.prems(1) r show ?thesis by (auto simp: Let_def)
  qed
qed simp

lemma take_probe_spaces_key_state: "take_probe_spaces ss c = (fs, c') \<Longrightarrow> key_state c' = key_state c"
proof (induction ss arbitrary: c)
  case (Cons s ss)
  then show ?case by (fastforce simp: Let_def key_state_def split: prod.splits if_splits)
qed simp

lemma timeout_tracks:
  assumes "tracked_stream sf c" and "one_rtt_send_keys c \<noteq> None" and "\<And>k h p. protect k h p \<noteq> None"
  shows "tracked_stream sf (on_loss_detection_timeout protect now c)"
proof (cases "c_state c = Conn_Closed")
  case True
  with assms(1) show ?thesis by (simp add: on_loss_detection_timeout_def)
next
  case False
  obtain fs c1 where r: "take_probe_spaces [0, 1, 2] c = (fs, c1)" by fastforce
  have keys: "one_rtt_send_keys c1 \<noteq> None"
    using assms(2) one_rtt_keys_key_state [OF take_probe_spaces_key_state [OF r]] by simp
  have "tracked_stream sf (fold (retransmit_frame protect now) fs c1)"
    using take_probe_spaces_tracks [OF r assms(1)]
  proof (elim disjE exE)
    fix t assume "(StreamFrame sf, t) \<in> set fs"
    then show ?thesis by (rule fold_retransmit_tracks [OF _ keys]) (rule assms(3))
  next
    assume "tracked_stream sf c1"
    then show ?thesis by (rule tracked_stream_grows) (rule fold_sent_grows [OF retransmit_frame_sent_grows])
  qed
  with False r show ?thesis
    by (simp add: on_loss_detection_timeout_def Let_def tracked_stream_def del: take_probe_spaces.simps)
qed

lemma flush_key_state [simp]: "key_state (flush_stream_send_queues protect now c) = key_state c"
proof -
  have one: "key_state (snd (flush_stream protect k now sid q c)) = key_state c" for k sid q c
    by (rule flush_stream_invariant [where I = "\<lambda>q c'. key_state c' = key_state c"])
      (auto simp: commit_chunk_def Let_def key_state_def push_outbound_def track_sent_packet_def allocate_next_pn_def)
  have "key_state (snd (flush_queues protect k now qs c)) = key_state c" for k qs
  proof (induction qs arbitrary: c)
    case (Cons a qs)
    obtain sid q where a: "a = (sid, q)" by fastforce
    obtain q1 c1 where f: "flush_stream protect k now sid q c = (q1, c1)" by fastforce
    have c1: "key_state c1 = key_state c" using one [of k sid q c] f by simp
    have "key_state (c1\<lparr>c_send_fin := x, c_send_offsets := y, c_stream_data_sent := z\<rparr>) = key_state c" for x y z
      using c1 by (simp add: key_state_def)
    then show ?case using c1 Cons.IH by (auto simp: a f split: prod.split) (metis snd_conv)+
  qed simp
  then show ?thesis
    by (auto simp: flush_stream_send_queues_def key_state_def split: option.split prod.split) (metis prod.inject snd_conv)+
qed

lemma fold_key_state: "(\<And>x c. key_state (f x c) = key_state c) \<Longrightarrow> key_state (fold f xs c) = key_state c"
  by (induction xs arbitrary: c) simp_all

lemma on_ack_key_state [simp]: "key_state (on_ack_received protect now type ack c) = key_state c"
  by (simp add: on_ack_received_def detect_lost_packets_def Let_def fold_key_state) (simp add: key_state_def)

lemma timeout_key_state [simp]: "key_state (on_loss_detection_timeout protect now c) = key_state c"
proof -
  obtain fs c1 where r: "take_probe_spaces [0, 1, 2] c = (fs, c1)" by fastforce
  have "key_state (fold (retransmit_frame protect now) fs c1) = key_state c"
    by (simp add: fold_key_state take_probe_spaces_key_state [OF r])
  with r show ?thesis
    by (simp add: on_loss_detection_timeout_def Let_def key_state_def del: take_probe_spaces.simps)
qed

text \<open>Acknowledgements and probe timeouts, as long as no acknowledgement covers the frame.\<close>

inductive loss_run :: "protector \<Rightarrow> stream_frame \<Rightarrow> quic_conn \<Rightarrow> quic_conn \<Rightarrow> bool"
  for protect sf c where
  start: "loss_run protect sf c c"
| ack: "loss_run protect sf c c1 \<Longrightarrow> \<not> ack_covers sf type a c1
        \<Longrightarrow> loss_run protect sf c (on_ack_received protect now type a c1)"
| timeout: "loss_run protect sf c c1 \<Longrightarrow> loss_run protect sf c (on_loss_detection_timeout protect now c1)"

lemma loss_run_tracks:
  assumes "loss_run protect sf c c'" and "tracked_stream sf c" and "one_rtt_send_keys c \<noteq> None"
    and "\<And>k h p. protect k h p \<noteq> None"
  shows "tracked_stream sf c' \<and> key_state c' = key_state c"
  using assms(1)
proof induction
  case start
  then show ?case using assms(2) by simp
next
  case (ack c1 type a now)
  then have "one_rtt_send_keys c1 \<noteq> None" using assms(3) one_rtt_keys_key_state [of c1 c] by simp
  then have "tracked_stream sf (on_ack_received protect now type a c1)"
    using ack by (intro on_ack_tracks) (use assms(4) in auto)
  then show ?case using ack by simp
next
  case (timeout c1 now)
  then have "one_rtt_send_keys c1 \<noteq> None" using assms(3) one_rtt_keys_key_state [of c1 c] by simp
  then have "tracked_stream sf (on_loss_detection_timeout protect now c1)"
    using timeout by (intro timeout_tracks) (use assms(4) in auto)
  then show ?case using timeout by simp
qed

section \<open>Octets in flight\<close>

definition in_flight :: "quic_conn \<Rightarrow> nat" where
  "in_flight c = bytes_in_flight (c_cc c)"

lemma in_flight_updates [simp]:
  "in_flight (push_outbound pkt c) = in_flight c"
  "in_flight (track_sent_packet t pn n fs now c) = in_flight c + n"
  "in_flight (snd (allocate_next_pn t c)) = in_flight c"
  by (simp_all add: in_flight_def push_outbound_def track_sent_packet_def allocate_next_pn_def on_packet_sent_def Let_def)

lemma allocate_in_flight: "allocate_next_pn t c = (pn, c1) \<Longrightarrow> in_flight c1 = in_flight c"
  using in_flight_updates(3) [of t c] by simp

lemma emit_tracked_in_flight: "in_flight c \<le> in_flight (emit_tracked protect k hdr p t pn f now c)"
  by (simp add: emit_tracked_def split: option.split)

lemma retransmit_in_flight: "in_flight c \<le> in_flight (retransmit_frame protect now ft c)"
proof -
  have one: "in_flight c \<le> in_flight (snd (send_one_rtt protect k now f c))" for k f
    by (auto simp: send_one_rtt_def allocate_in_flight split: option.split prod.split)
  have "in_flight c \<le> in_flight (retransmit_crypto protect now t f c)" for t f
    using emit_tracked_in_flight
    by (auto simp: retransmit_crypto_def Let_def split: option.split prod.split) (metis allocate_in_flight)+
  with one show ?thesis by (auto simp: retransmit_frame_def split: frame.split option.split)
qed

lemma fold_retransmit_in_flight: "in_flight c \<le> in_flight (fold (retransmit_frame protect now) fs c)"
proof (induction fs arbitrary: c)
  case (Cons f fs)
  show ?case using order_trans [OF retransmit_in_flight Cons.IH] by simp
qed simp

lemma congestion_events_in_flight:
  "bytes_in_flight (fold (\<lambda>pkt. on_congestion_event (sp_time_sent pkt) now) pkts cc) = bytes_in_flight cc"
  by (induction pkts arbitrary: cc) (simp_all add: on_congestion_event_def Let_def)

section \<open>Properties\<close>

text \<open>The packets of a connection, one after the other, and the streams they opened.\<close>

fun process_packets ::
    "protector \<Rightarrow> (int \<times> packet_type \<times> frame list) list \<Rightarrow> quic_conn \<Rightarrow> quic_conn \<times> nat list" where
  "process_packets protect [] c = (c, [])"
| "process_packets protect ((now, type, fs) # ps) c =
     (case process_frames protect now type fs c of
        (c, new1) \<Rightarrow> (case process_packets protect ps c of (c, new2) \<Rightarrow> (c, new1 @ new2)))"

lemma process_packets_opened:
  "opened_ok m opened c \<Longrightarrow> process_packets protect ps c = (c', new) \<Longrightarrow>
     distinct new \<and> set new \<inter> opened = {} \<and> opened_ok m (opened \<union> set new) c'"
proof (induction ps arbitrary: c opened new)
  case (Cons p ps)
  obtain now type fs where p: "p = (now, type, fs)" by (cases p) auto
  obtain c1 new1 where p1: "process_frames protect now type fs c = (c1, new1)" by fastforce
  obtain c2 new2 where p2: "process_packets protect ps c1 = (c2, new2)" by fastforce
  note q1 = process_frames_opened [OF Cons.prems(1) p1]
  note q2 = Cons.IH [of "opened \<union> set new1" c1 new2]
  show ?case using Cons.prems(2) q1 q2 p p1 p2 by (auto simp: Un_assoc)
qed simp

text \<open>
  C4. Whatever packets arrive on a new connection whose stream limits are \<open>m\<close>, each
  peer stream is dispatched to the application at most once, late and duplicated frames included, and
  only streams within the limit of their direction are dispatched.
\<close>

theorem peer_streams_dispatched_once:
  "distinct (snd (process_packets protect ps (quic_conn_new srv tls l p\<lparr>c_max_peer_streams := m\<rparr>)))
   \<and> set (snd (process_packets protect ps (quic_conn_new srv tls l p\<lparr>c_max_peer_streams := m\<rparr>)))
       \<subseteq> {sid. sid div 4 < m (sid div 2 mod 2 = 0)}"
proof -
  let ?c = "quic_conn_new srv tls l p\<lparr>c_max_peer_streams := m\<rparr>"
  obtain c' new where r: "process_packets protect ps ?c = (c', new)" by fastforce
  have "opened_ok m {} ?c" by (simp add: opened_ok_def quic_conn_new_def)
  from process_packets_opened [OF this r] have "distinct new" "opened_ok m (set new) c'" by auto
  then have "distinct new" "\<forall>sid \<in> set new. sid_idx sid < m (sid_bidi sid)"
    by (auto simp: opened_ok_def intro: less_le_trans)
  with r show ?thesis by (auto simp: sid_idx_def sid_bidi_def)
qed


definition sample_frame :: stream_frame where
  "sample_frame = \<lparr>sf_data = [104, 105], sf_stream_id = 0, sf_offset = 0, sf_fin = True, sf_has_offset = False,
     sf_has_length = True\<rparr>"

definition sample_conn :: quic_conn where
  "sample_conn = track_sent_packet OneRTT 0 40 [StreamFrame sample_frame] 0
     (quic_conn_new True False cid_default cid_default)"



text \<open>
  Declaring packets lost never takes their octets out of flight: whatever
  \<^verbatim>\<open>detect_lost_packets\<close> drops from the tracked packets, the count of octets in flight does
  not fall, so the octets of a lost packet stay counted for ever.
\<close>

theorem lost_bytes_stay_in_flight:
  "bytes_in_flight (c_cc c) \<le> bytes_in_flight (c_cc (detect_lost_packets protect now space largest c))"
  unfolding detect_lost_packets_def Let_def in_flight_def [symmetric]
  by (rule order_trans [OF _ fold_retransmit_in_flight]) (simp add: in_flight_def congestion_events_in_flight)

end
