(* ===== verification/Quic_End_To_End.thy ===== *)
theory Quic_End_To_End
  imports Quic_Conn_Recv_Proofs
begin

text \<open>
  From \<^verbatim>\<open>queue_stream_data\<close> on one connection to \<^verbatim>\<open>read_some\<close> on a stream of the other: what
  packetisation, frame serialisation, frame parsing and reassembly guarantee together, over a
  network that loses, repeats and reorders packets.  Packet protection is transparent: the
  receiver works on payloads the sender produced.
\<close>

section \<open>The sender\<close>

text \<open>
  The octets \<open>S\<close>, ended by FIN, are written to one stream of a new connection; later the
  peer may raise its limits, which flushes again.
\<close>

inductive sending :: "protector \<Rightarrow> nat \<Rightarrow> bytes \<Rightarrow> quic_conn \<Rightarrow> bool" for protect sid S where
  write_all: "sending protect sid S (queue_stream_data protect now sid S True (quic_conn_new srv tls l p))"
| max_data: "sending protect sid S c
             \<Longrightarrow> sending protect sid S (fst (process_frame protect now type (MaxDataFrame m) c))"
| max_stream_data: "sending protect sid S c
             \<Longrightarrow> sending protect sid S (fst (process_frame protect now type (MaxStreamDataFrame i m) c))"

definition good_packets :: "bytes \<Rightarrow> nat \<Rightarrow> quic_conn \<Rightarrow> bool" where
  "good_packets S sid c \<longleftrightarrow> (\<forall>pkt \<in> set (c_sent_packets c 2). \<exists>sf. sp_frames pkt = [StreamFrame sf]
     \<and> sf_stream_id sf = of_nat sid \<and> stream_frame_ok sf
     \<and> good_push S (unat (sf_offset sf)) (sf_data sf) (sf_fin sf))"

definition sending_inv :: "bytes \<Rightarrow> nat \<Rightarrow> quic_conn \<Rightarrow> bool" where
  "sending_inv S sid c \<longleftrightarrow> good_packets S sid c
     \<and> (c_send_queues c = [] \<or> (\<exists>q. c_send_queues c = [(sid, q)] \<and> sends_stream S sid 0 q c))"

lemma sends_stream_good: "sends_stream S sid 0 q c \<Longrightarrow> good_packets S sid c"
  by (simp add: sends_stream_def good_packets_def)

lemma flush_sending_inv:
  assumes "sending_inv S sid c" and "length S < 2 ^ 62" and "sid < 2 ^ 62"
  shows "sending_inv S sid (flush_stream_send_queues protect now c)"
proof (cases "c_send_queues c = []")
  case True
  with assms(1) show ?thesis
    by (auto simp: flush_stream_send_queues_def sending_inv_def good_packets_def split: option.split)
next
  case False
  with assms(1) obtain q where q: "c_send_queues c = [(sid, q)]" "sends_stream S sid 0 q c"
    by (auto simp: sending_inv_def)
  have one: "sending_inv S sid (c2\<lparr>c_send_queues := qs\<rparr>)"
    if "flush_queues protect k now [(sid, q)] c = (qs, c2)" for k qs c2
  proof -
    obtain q1 c1 where f: "flush_stream protect k now sid q c = (q1, c1)" by fastforce
    have s: "sends_stream S sid 0 q1 c1" using flush_stream_sends [OF q(2) assms(2,3), of protect k now] f by simp
    then have "good_packets S sid c1" by (rule sends_stream_good)
    with that f s show ?thesis
      by (auto simp: sending_inv_def good_packets_def sends_stream_def split: if_splits)
  qed
  show ?thesis
    using assms(1) one q(1) by (auto simp: flush_stream_send_queues_def split: option.split prod.split)
qed

lemma queue_sending_inv:
  assumes "length S < 2 ^ 62" and "sid < 2 ^ 62"
  shows "sending_inv S sid (queue_stream_data protect now sid S True (quic_conn_new srv tls l p))"
proof -
  let ?c = "quic_conn_new srv tls l p"
  let ?c1 = "?c\<lparr>c_send_queues := [(sid, sb_append S sb_new)], c_send_fin := (c_send_fin ?c)(sid := True)\<rparr>"
  have "sb_inv sb_new" "sb_view sb_new = []" by (simp_all add: sb_inv_def sb_view_def sb_new_def)
  then have "sending_inv S sid ?c1"
    by (auto simp: sending_inv_def good_packets_def sends_stream_def quic_conn_new_def sbuf.append_view sbuf.append_inv)
  then show ?thesis
    using flush_sending_inv [OF _ assms] by (simp add: queue_stream_data_def Let_def) (simp add: quic_conn_new_def)
qed

lemma sending_sound:
  assumes "sending protect sid S c" and "length S < 2 ^ 62" and "sid < 2 ^ 62"
  shows "sending_inv S sid c"
  using assms(1)
proof induction
  case (write_all now srv tls l p)
  show ?case by (rule queue_sending_inv [OF assms(2,3)])
next
  case (max_data c now type m)
  then have "sending_inv S sid (c\<lparr>c_max_data := unat m\<rparr>)"
    by (auto simp: sending_inv_def good_packets_def sends_stream_def)
  with max_data show ?case using flush_sending_inv [OF _ assms(2,3)] by (simp add: process_frame_def)
next
  case (max_stream_data c now type i m)
  then have "sending_inv S sid (c\<lparr>c_max_stream_data := unat m\<rparr>)"
    by (auto simp: sending_inv_def good_packets_def sends_stream_def)
  with max_stream_data show ?case using flush_sending_inv [OF _ assms(2,3)] by (simp add: process_frame_def)
qed

section \<open>The receiver\<close>

definition packet_payload :: "sent_packet \<Rightarrow> bytes" where
  "packet_payload pkt = concat (map serialize_frame (sp_frames pkt))"

text \<open>The STREAM frames of a payload that are for the stream, delivered in order.\<close>

definition push_frame :: "nat \<Rightarrow> frame \<Rightarrow> quic_stream \<Rightarrow> quic_stream" where
  "push_frame sid f s =
     (case f of
        StreamFrame sf \<Rightarrow>
          if unat (sf_stream_id sf) = sid then fst (push_inbound (unat (sf_offset sf)) (sf_data sf) (sf_fin sf) s) else s
      | _ \<Rightarrow> s)"

definition receive_payload :: "nat \<Rightarrow> bytes \<Rightarrow> quic_stream \<Rightarrow> quic_stream" where
  "receive_payload sid p s = fold (push_frame sid) (fst (parse_frames p)) s"

text \<open>Payloads arrive in any order, any number of times or never; the application reads between them.\<close>

inductive receiving :: "nat \<Rightarrow> sent_packet set \<Rightarrow> quic_stream \<Rightarrow> bytes \<Rightarrow> bool" for sid pkts where
  fresh: "receiving sid pkts (quic_stream_new sid) []"
| arrive: "receiving sid pkts s out \<Longrightarrow> pkt \<in> pkts \<Longrightarrow> receiving sid pkts (receive_payload sid (packet_payload pkt) s) out"
| read: "receiving sid pkts s out \<Longrightarrow> qs_read_some n s = (d, ec, s') \<Longrightarrow> receiving sid pkts s' (out @ d)"

lemma receiving_stream_run:
  assumes "receiving sid (set (c_sent_packets c 2)) s out" and "good_packets S sid c" and "sid < 2 ^ 62"
  shows "stream_run S s out"
  using assms(1)
proof induction
  case (arrive s out pkt)
  then obtain sf where sf: "sp_frames pkt = [StreamFrame sf]" "sf_stream_id sf = of_nat sid" "stream_frame_ok sf"
    "good_push S (unat (sf_offset sf)) (sf_data sf) (sf_fin sf)"
    using assms(2) by (auto simp: good_packets_def)
  have "frames_ok [StreamFrame sf]" using sf(3) by simp
  then have "parse_frames (packet_payload pkt) = ([StreamFrame sf], True)"
    using parse_frames_from_serialize [of "[StreamFrame sf]" 0]
    by (simp add: packet_payload_def sf(1) parse_frames_def del: serialize_frame.simps)
  moreover have "unat (of_nat sid :: u64) = sid" using assms(3) by (simp add: unat_of_nat)
  ultimately show ?case
    using stream_run.push [OF arrive.IH sf(4)] sf(2) by (simp add: receive_payload_def push_frame_def)
qed (auto intro: stream_run.intros)

section \<open>Properties\<close>


text \<open>A write of three octets whose single packet arrives twice before the read.\<close>

definition e2e_conn :: quic_conn where
  "e2e_conn = queue_stream_data (\<lambda>k h p. Some p) 0 4 [1, 2, 3] True (quic_conn_new True False cid_default cid_default)"

definition e2e_stream :: quic_stream where
  "e2e_stream = (let p = packet_payload (hd (c_sent_packets e2e_conn 2))
                 in receive_payload 4 p (receive_payload 4 p (quic_stream_new 4)))"

lemma e2e_sent: "map sp_frames (c_sent_packets e2e_conn 2) =
    [[StreamFrame \<lparr>sf_data = [1, 2, 3], sf_stream_id = 4, sf_offset = 0, sf_fin = True, sf_has_offset = False,
       sf_has_length = True\<rparr>]]"
  by (simp add: e2e_conn_def queue_stream_data_def quic_conn_new_def Let_def flush_stream_send_queues_def
      one_rtt_send_keys_def flush_stream.simps sb_append_def sb_new_def sb_empty_def sb_size_def sb_peek_def sb_consume_def sb_view_def sb_compact_def chunk_length_def conn_credit_def stream_credit_def
      kMaxStreamFramePayload_def stream_chunk_frame_def allocate_next_pn_def commit_chunk_def
      push_outbound_def track_sent_packet_def del: serialize_frame.simps)


end
