(* ===== verification/Flat_Map.thy ===== *)
theory Flat_Map
  imports Wavex_Prelude
begin

text \<open>
  \<^verbatim>\<open>src/include/wavex/Base/FlatMap.hpp\<close>: the insertion-ordered key-value container of headers,
  query and path parameters.  The first sixteen pairs are in an inline array and the others in an
  overflow vector; lookups scan.  The model keeps the array, the vector and the size; the
  abstraction is the list of live pairs.  Case-sensitive and case-insensitive access satisfy
  the same contract, the locale \<open>kv_map\<close>, for two notions of equal keys.
\<close>

section \<open>Model\<close>

definition InlineCap :: nat where "InlineCap = 16"

record flat_map =
  fm_inline :: "(string \<times> string) list"
  fm_overflow :: "(string \<times> string) list"
  fm_size :: nat

definition fm_new :: flat_map where
  "fm_new = \<lparr>fm_inline = replicate InlineCap ([], []), fm_overflow = [], fm_size = 0\<rparr>"

definition fm_empty :: "flat_map \<Rightarrow> bool" where
  "fm_empty m \<longleftrightarrow> fm_size m = 0"

definition fm_pair_at :: "flat_map \<Rightarrow> nat \<Rightarrow> string \<times> string" where
  "fm_pair_at m idx = (if idx < InlineCap then fm_inline m ! idx else fm_overflow m ! (idx - InlineCap))"

text \<open>Assignment through \<^verbatim>\<open>mutable_pair_at\<close>.\<close>

definition fm_set_pair :: "nat \<Rightarrow> string \<times> string \<Rightarrow> flat_map \<Rightarrow> flat_map" where
  "fm_set_pair idx p m =
     (if idx < InlineCap then m\<lparr>fm_inline := (fm_inline m)[idx := p]\<rparr>
      else m\<lparr>fm_overflow := (fm_overflow m)[idx - InlineCap := p]\<rparr>)"

text \<open>\<^verbatim>\<open>std::tolower\<close> in the C locale, and the comparison loop of \<^verbatim>\<open>find_ci\<close>.\<close>

definition c_tolower :: "char \<Rightarrow> char" where
  "c_tolower c = (if 65 \<le> code c \<and> code c \<le> 90 then char_of (code c + 32) else c)"

definition ci_eq :: "string \<Rightarrow> string \<Rightarrow> bool" where
  "ci_eq a b \<longleftrightarrow> length a = length b \<and> list_all2 (\<lambda>x y. c_tolower x = c_tolower y) a b"

definition fm_find :: "string \<Rightarrow> flat_map \<Rightarrow> nat option" where
  "fm_find key m = List.find (\<lambda>i. fst (fm_pair_at m i) = key) [0..<fm_size m]"

definition fm_find_ci :: "string \<Rightarrow> flat_map \<Rightarrow> nat option" where
  "fm_find_ci key m = List.find (\<lambda>i. ci_eq (fst (fm_pair_at m i)) key) [0..<fm_size m]"

definition fm_contains :: "string \<Rightarrow> flat_map \<Rightarrow> bool" where
  "fm_contains key m \<longleftrightarrow> fm_find key m \<noteq> None"

definition fm_get :: "string \<Rightarrow> flat_map \<Rightarrow> string" where
  "fm_get key m = (case fm_find key m of Some i \<Rightarrow> snd (fm_pair_at m i) | None \<Rightarrow> [])"

text \<open>\<open>None\<close> is \<^verbatim>\<open>std::out_of_range\<close>.\<close>

definition fm_at :: "string \<Rightarrow> flat_map \<Rightarrow> string option" where
  "fm_at key m = (case fm_find key m of None \<Rightarrow> None | Some i \<Rightarrow> Some (snd (fm_pair_at m i)))"

definition fm_append :: "string \<Rightarrow> string \<Rightarrow> flat_map \<Rightarrow> flat_map" where
  "fm_append key v m =
     (let m = (if fm_size m < InlineCap then m\<lparr>fm_inline := (fm_inline m)[fm_size m := (key, v)]\<rparr>
               else m\<lparr>fm_overflow := fm_overflow m @ [(key, v)]\<rparr>)
      in m\<lparr>fm_size := fm_size m + 1\<rparr>)"

definition fm_insert_or_assign :: "string \<Rightarrow> string \<Rightarrow> flat_map \<Rightarrow> flat_map" where
  "fm_insert_or_assign key v m =
     (case fm_find key m of
        Some i \<Rightarrow> fm_set_pair i (fst (fm_pair_at m i), v) m
      | None \<Rightarrow> fm_append key v m)"

definition fm_insert_or_assign_ci :: "string \<Rightarrow> string \<Rightarrow> flat_map \<Rightarrow> flat_map" where
  "fm_insert_or_assign_ci key v m =
     (case fm_find_ci key m of
        Some i \<Rightarrow> fm_set_pair i (fst (fm_pair_at m i), v) m
      | None \<Rightarrow> fm_append key v m)"

text \<open>\<^verbatim>\<open>operator[]\<close>: the index of the referenced pair and the map it is in.\<close>

definition fm_index :: "string \<Rightarrow> flat_map \<Rightarrow> nat \<times> flat_map" where
  "fm_index key m =
     (case fm_find key m of
        Some i \<Rightarrow> (i, m)
      | None \<Rightarrow> let m = fm_insert_or_assign key [] m in (fm_size m - 1, m))"

definition fm_erase_at :: "nat \<Rightarrow> flat_map \<Rightarrow> flat_map" where
  "fm_erase_at idx m =
     (if idx \<ge> fm_size m then m
      else let m = fold (\<lambda>i m. fm_set_pair i (fm_pair_at m (i + 1)) m) [idx..<fm_size m - 1] m
           in m\<lparr>fm_size := fm_size m - 1, fm_overflow := butlast (fm_overflow m)\<rparr>)"

definition fm_erase :: "string \<Rightarrow> flat_map \<Rightarrow> bool \<times> flat_map" where
  "fm_erase key m = (case fm_find key m of None \<Rightarrow> (False, m) | Some i \<Rightarrow> (True, fm_erase_at i m))"

definition fm_erase_ci :: "string \<Rightarrow> flat_map \<Rightarrow> bool \<times> flat_map" where
  "fm_erase_ci key m = (case fm_find_ci key m of None \<Rightarrow> (False, m) | Some i \<Rightarrow> (True, fm_erase_at i m))"

definition fm_clear :: "flat_map \<Rightarrow> flat_map" where
  "fm_clear m = m\<lparr>fm_size := 0, fm_overflow := []\<rparr>"

section \<open>Abstraction\<close>

text \<open>The representation is sound when the pairs beyond the inline ones are in the vector.\<close>

definition fm_inv :: "flat_map \<Rightarrow> bool" where
  "fm_inv m \<longleftrightarrow> length (fm_inline m) = InlineCap \<and> length (fm_overflow m) = fm_size m - InlineCap"

definition fm_entries :: "flat_map \<Rightarrow> (string \<times> string) list" where
  "fm_entries m = map (fm_pair_at m) [0..<fm_size m]"

text \<open>Operations on the list of pairs, for a notion of equal keys.\<close>

definition es_lookup :: "(string \<Rightarrow> string \<Rightarrow> bool) \<Rightarrow> string \<Rightarrow> (string \<times> string) list \<Rightarrow> string option" where
  "es_lookup eqk k es = map_option snd (List.find (\<lambda>p. eqk (fst p) k) es)"

fun es_put :: "(string \<Rightarrow> string \<Rightarrow> bool) \<Rightarrow> string \<Rightarrow> string \<Rightarrow> (string \<times> string) list \<Rightarrow> (string \<times> string) list" where
  "es_put eqk k v [] = [(k, v)]"
| "es_put eqk k v (p # ps) = (if eqk (fst p) k then (fst p, v) # ps else p # es_put eqk k v ps)"

fun es_del :: "(string \<Rightarrow> string \<Rightarrow> bool) \<Rightarrow> string \<Rightarrow> (string \<times> string) list \<Rightarrow> (string \<times> string) list" where
  "es_del eqk k [] = []"
| "es_del eqk k (p # ps) = (if eqk (fst p) k then ps else p # es_del eqk k ps)"

fun es_distinct :: "(string \<Rightarrow> string \<Rightarrow> bool) \<Rightarrow> (string \<times> string) list \<Rightarrow> bool" where
  "es_distinct eqk [] = True"
| "es_distinct eqk (p # ps) = ((\<forall>q \<in> set ps. \<not> eqk (fst p) (fst q)) \<and> es_distinct eqk ps)"

lemma fm_new_inv [simp]: "fm_inv fm_new" and fm_new_entries [simp]: "fm_entries fm_new = []"
  by (simp_all add: fm_inv_def fm_new_def fm_entries_def)

lemma fm_entries_length [simp]: "length (fm_entries m) = fm_size m"
  by (simp add: fm_entries_def)

lemma fm_entries_nth: "i < fm_size m \<Longrightarrow> fm_entries m ! i = fm_pair_at m i"
  by (simp add: fm_entries_def)

lemma fm_set_pair_inv [simp]: "fm_inv (fm_set_pair i p m) = fm_inv m"
  and fm_set_pair_size [simp]: "fm_size (fm_set_pair i p m) = fm_size m"
  by (simp_all add: fm_inv_def fm_set_pair_def)

lemma fm_set_pair_at:
  assumes "fm_inv m" and "i < fm_size m" and "j < fm_size m"
  shows "fm_pair_at (fm_set_pair i p m) j = (if i = j then p else fm_pair_at m j)"
  using assms by (auto simp: fm_inv_def fm_set_pair_def fm_pair_at_def nth_list_update)

lemma fm_set_pair_entries:
  assumes "fm_inv m" and "i < fm_size m"
  shows "fm_entries (fm_set_pair i p m) = (fm_entries m)[i := p]"
  using assms by (intro nth_equalityI) (auto simp: fm_entries_nth fm_set_pair_at nth_list_update)

lemma fm_append_spec:
  assumes "fm_inv m"
  shows "fm_inv (fm_append k v m)" and "fm_entries (fm_append k v m) = fm_entries m @ [(k, v)]"
proof -
  show "fm_inv (fm_append k v m)" using assms by (auto simp: fm_inv_def fm_append_def)
  have at: "fm_pair_at (fm_append k v m) j = (if j = fm_size m then (k, v) else fm_pair_at m j)"
    if "j \<le> fm_size m" for j
    using assms that by (auto simp: fm_inv_def fm_append_def fm_pair_at_def nth_append)
  have "fm_size (fm_append k v m) = fm_size m + 1" by (simp add: fm_append_def Let_def)
  with at show "fm_entries (fm_append k v m) = fm_entries m @ [(k, v)]"
    by (auto simp: fm_entries_def)
qed

text \<open>The shifting loop of \<^verbatim>\<open>erase_at\<close>.\<close>

lemma fm_shift_spec:
  assumes "fm_inv m" and "idx \<le> k" and "k < fm_size m"
  defines "r \<equiv> fold (\<lambda>i m. fm_set_pair i (fm_pair_at m (i + 1)) m) [idx..<k] m"
  shows "fm_inv r \<and> fm_size r = fm_size m
    \<and> (\<forall>j < fm_size m. fm_pair_at r j = (if idx \<le> j \<and> j < k then fm_pair_at m (j + 1) else fm_pair_at m j))"
  using assms(2,3) unfolding r_def
proof (induction k rule: dec_induct)
  case (step n)
  let ?r = "fold (\<lambda>i m. fm_set_pair i (fm_pair_at m (i + 1)) m) [idx..<n] m"
  have IH: "fm_inv ?r" "fm_size ?r = fm_size m"
    "\<And>j. j < fm_size m \<Longrightarrow> fm_pair_at ?r j = (if idx \<le> j \<and> j < n then fm_pair_at m (j + 1) else fm_pair_at m j)"
    using step by auto
  have f: "fold (\<lambda>i m. fm_set_pair i (fm_pair_at m (i + 1)) m) [idx..<Suc n] m = fm_set_pair n (fm_pair_at ?r (n + 1)) ?r"
    using step(1) by simp
  show ?case
    unfolding f using IH step by (auto simp: fm_set_pair_at)
qed (auto simp: assms(1))

lemma fm_erase_at_spec:
  assumes "fm_inv m" and "idx < fm_size m"
  shows "fm_inv (fm_erase_at idx m)"
    and "fm_entries (fm_erase_at idx m) = take idx (fm_entries m) @ drop (idx + 1) (fm_entries m)"
proof -
  define r where "r = fold (\<lambda>i m. fm_set_pair i (fm_pair_at m (i + 1)) m) [idx..<fm_size m - 1] m"
  have r: "fm_inv r" "fm_size r = fm_size m"
    "\<And>j. j < fm_size m \<Longrightarrow> fm_pair_at r j = (if idx \<le> j \<and> j < fm_size m - 1 then fm_pair_at m (j + 1) else fm_pair_at m j)"
    using fm_shift_spec [OF assms(1), of idx "fm_size m - 1"] assms(2) by (auto simp: r_def)
  have e: "fm_erase_at idx m = r\<lparr>fm_size := fm_size m - 1, fm_overflow := butlast (fm_overflow r)\<rparr>"
    using assms(2) r(2) by (simp add: fm_erase_at_def r_def Let_def)
  show "fm_inv (fm_erase_at idx m)" using r(1,2) by (simp add: e fm_inv_def)
  have at: "fm_pair_at (fm_erase_at idx m) j = fm_pair_at r j" if "j < fm_size m - 1" for j
    using that r(1,2) by (auto simp: e fm_pair_at_def fm_inv_def nth_butlast)
  have sz: "fm_size (fm_erase_at idx m) = fm_size m - 1" by (simp add: e)
  show "fm_entries (fm_erase_at idx m) = take idx (fm_entries m) @ drop (idx + 1) (fm_entries m)"
  proof (rule nth_equalityI)
    fix j assume "j < length (fm_entries (fm_erase_at idx m))"
    then have j: "j < fm_size m - 1" by (simp add: sz)
    show "fm_entries (fm_erase_at idx m) ! j = (take idx (fm_entries m) @ drop (idx + 1) (fm_entries m)) ! j"
      using j assms(2) by (auto simp: fm_entries_nth sz at r(3) nth_append)
  qed (use assms(2) in \<open>simp add: sz\<close>)
qed

section \<open>Scans\<close>

definition fm_scan :: "(string \<Rightarrow> bool) \<Rightarrow> flat_map \<Rightarrow> nat option" where
  "fm_scan P m = List.find (\<lambda>i. P (fst (fm_pair_at m i))) [0..<fm_size m]"

lemma fm_scan_None: "fm_scan P m = None \<Longrightarrow> p \<in> set (fm_entries m) \<Longrightarrow> \<not> P (fst p)"
  by (auto simp: fm_scan_def find_None_iff fm_entries_def)

lemma fm_scan_Some:
  assumes "fm_scan P m = Some i"
  shows "i < fm_size m" and "P (fst (fm_entries m ! i))" and "j < i \<Longrightarrow> \<not> P (fst (fm_entries m ! j))"
  using assms by (auto simp: fm_scan_def find_Some_iff fm_entries_nth)

lemma es_put_None: "(\<And>p. p \<in> set es \<Longrightarrow> \<not> eqk (fst p) k) \<Longrightarrow> es_put eqk k v es = es @ [(k, v)]"
  by (induction es) auto

lemma es_del_None: "(\<And>p. p \<in> set es \<Longrightarrow> \<not> eqk (fst p) k) \<Longrightarrow> es_del eqk k es = es"
  by (induction es) auto

lemma es_lookup_None: "(\<And>p. p \<in> set es \<Longrightarrow> \<not> eqk (fst p) k) \<Longrightarrow> es_lookup eqk k es = None"
  by (auto simp: es_lookup_def find_None_iff)

lemma es_ops_Some:
  assumes "i < length es" and "eqk (fst (es ! i)) k" and "\<And>j. j < i \<Longrightarrow> \<not> eqk (fst (es ! j)) k"
  shows "es_put eqk k v es = es[i := (fst (es ! i), v)]"
    and "es_del eqk k es = take i es @ drop (i + 1) es"
    and "es_lookup eqk k es = Some (snd (es ! i))"
proof -
  have split: "es = take i es @ es ! i # drop (i + 1) es" using assms(1) by (simp add: id_take_nth_drop)
  have pre: "\<not> eqk (fst p) k" if "p \<in> set (take i es)" for p
    using that assms by (auto simp: in_set_conv_nth)
  have put: "es_put eqk k v (xs @ p # ys) = xs @ (fst p, v) # ys" and
    del: "es_del eqk k (xs @ p # ys) = xs @ ys" and
    look: "es_lookup eqk k (xs @ p # ys) = Some (snd p)"
    if "\<And>q. q \<in> set xs \<Longrightarrow> \<not> eqk (fst q) k" "eqk (fst p) k" for xs p ys
    using that by (induction xs) (auto simp: es_lookup_def)
  show "es_put eqk k v es = es[i := (fst (es ! i), v)]"
    using put [OF pre assms(2)] assms(1) split upd_conv_take_nth_drop [OF assms(1)] by (metis Suc_eq_plus1)
  show "es_del eqk k es = take i es @ drop (i + 1) es" using del [OF pre assms(2)] split by metis
  show "es_lookup eqk k es = Some (snd (es ! i))" using look [OF pre assms(2)] split by metis
qed

text \<open>Each operation is its counterpart on the list of pairs.\<close>

lemma scan_put:
  fixes eqk :: "string \<Rightarrow> string \<Rightarrow> bool" and k v :: string
  assumes "fm_inv m"
  defines "r \<equiv> (case fm_scan (\<lambda>q. eqk q k) m of
       Some i \<Rightarrow> fm_set_pair i (fst (fm_pair_at m i), v) m | None \<Rightarrow> fm_append k v m)"
  shows "fm_inv r \<and> fm_entries r = es_put eqk k v (fm_entries m)"
proof (cases "fm_scan (\<lambda>q. eqk q k) m")
  case None
  then show ?thesis
    using fm_append_spec [OF assms(1)] es_put_None [of "fm_entries m" eqk k v] fm_scan_None [OF None] by (simp add: r_def)
next
  case (Some i)
  note s = fm_scan_Some [OF Some]
  then show ?thesis
    using Some assms(1) es_ops_Some(1) [of i "fm_entries m" eqk k v]
    by (simp add: r_def fm_set_pair_entries fm_entries_nth)
qed

lemma scan_del:
  fixes eqk :: "string \<Rightarrow> string \<Rightarrow> bool" and k :: string
  assumes "fm_inv m"
  defines "r \<equiv> (case fm_scan (\<lambda>q. eqk q k) m of None \<Rightarrow> (False, m) | Some i \<Rightarrow> (True, fm_erase_at i m))"
  shows "fm_inv (snd r) \<and> fm_entries (snd r) = es_del eqk k (fm_entries m)
    \<and> fst r = (es_lookup eqk k (fm_entries m) \<noteq> None)"
proof (cases "fm_scan (\<lambda>q. eqk q k) m")
  case None
  then show ?thesis
    using assms(1) es_del_None [of "fm_entries m" eqk k] es_lookup_None [of "fm_entries m" eqk k] fm_scan_None [OF None]
    by (simp add: r_def)
next
  case (Some i)
  note s = fm_scan_Some [OF Some]
  then show ?thesis
    using Some assms(1) es_ops_Some(2,3) [of i "fm_entries m" eqk k] fm_erase_at_spec [OF assms(1) s(1)] by (simp add: r_def)
qed

lemma scan_lookup:
  "map_option (\<lambda>i. snd (fm_pair_at m i)) (fm_scan (\<lambda>q. eqk q k) m) = es_lookup eqk k (fm_entries m)"
proof (cases "fm_scan (\<lambda>q. eqk q k) m")
  case None
  then show ?thesis using es_lookup_None [of "fm_entries m" eqk k] fm_scan_None [OF None] by simp
next
  case (Some i)
  note s = fm_scan_Some [OF Some]
  then show ?thesis using Some es_ops_Some(3) [of i "fm_entries m" eqk k] by (simp add: fm_entries_nth)
qed

lemma find_scan: "fm_find k = fm_scan (\<lambda>q. q = k)" "fm_find_ci k = fm_scan (\<lambda>q. ci_eq q k)"
  by (simp_all add: fun_eq_iff fm_find_def fm_find_ci_def fm_scan_def)

section \<open>The contract\<close>

text \<open>A key-value store whose keys are compared with \<open>eqk\<close>, as its clients use it.\<close>

locale kv_map =
  fixes eqk :: "string \<Rightarrow> string \<Rightarrow> bool"
    and inv :: "'m \<Rightarrow> bool"
    and lookup :: "string \<Rightarrow> 'm \<Rightarrow> string option"
    and put :: "string \<Rightarrow> string \<Rightarrow> 'm \<Rightarrow> 'm"
    and del :: "string \<Rightarrow> 'm \<Rightarrow> 'm"
  assumes eqk_refl: "eqk k k"
    and eqk_sym: "eqk k k' \<Longrightarrow> eqk k' k"
    and eqk_trans: "eqk k k' \<Longrightarrow> eqk k' k'' \<Longrightarrow> eqk k k''"
    and put_inv: "inv m \<Longrightarrow> inv (put k v m)"
    and del_inv: "inv m \<Longrightarrow> inv (del k m)"
    and lookup_put: "inv m \<Longrightarrow> lookup k' (put k v m) = (if eqk k k' then Some v else lookup k' m)"
    and lookup_del: "inv m \<Longrightarrow> lookup k' (del k m) = (if eqk k k' then None else lookup k' m)"
    and lookup_cong: "inv m \<Longrightarrow> eqk k k' \<Longrightarrow> lookup k m = lookup k' m"
begin

lemma put_all_inv: "inv m \<Longrightarrow> inv (fold (\<lambda>(k, v). put k v) ps m)"
  by (induction ps arbitrary: m) (auto simp: put_inv)

text \<open>After any number of assignments a lookup returns the last one for its key.\<close>

lemma lookup_put_all:
  "inv m \<Longrightarrow> lookup k (fold (\<lambda>(k, v). put k v) ps m) =
     (case List.find (\<lambda>p. eqk (fst p) k) (rev ps) of Some p \<Rightarrow> Some (snd p) | None \<Rightarrow> lookup k m)"
proof (induction ps rule: rev_induct)
  case (snoc p ps)
  obtain k1 v1 where p: "p = (k1, v1)" by fastforce
  show ?case using snoc.IH [OF snoc.prems] put_all_inv [OF snoc.prems, of ps] by (simp add: p lookup_put)
qed simp

lemma del_put_lookup: "inv m \<Longrightarrow> lookup k' (del k (put k v m)) = (if eqk k k' then None else lookup k' m)"
  by (simp add: put_inv lookup_put lookup_del)

end

text \<open>Keys are equal when they have the same normal form.\<close>

lemma es_lookup_put:
  assumes "\<And>a b. eqk a b \<longleftrightarrow> f a = f b"
  shows "es_lookup eqk k' (es_put eqk k v es) = (if eqk k k' then Some v else es_lookup eqk k' es)"
  by (induction es) (auto simp: es_lookup_def assms)

lemma es_lookup_del:
  assumes "\<And>a b. eqk a b \<longleftrightarrow> f a = f b" and "es_distinct eqk es"
  shows "es_lookup eqk k' (es_del eqk k es) = (if eqk k k' then None else es_lookup eqk k' es)"
  using assms(2)
proof (induction es)
  case (Cons p ps)
  have "es_lookup eqk k' ps = None" if "f (fst p) = f k'"
    using Cons.prems that by (intro es_lookup_None) (auto simp: assms(1))
  with Cons show ?case by (auto simp: es_lookup_def assms(1))
qed (simp add: es_lookup_def)

lemma es_put_keys: "q \<in> set (es_put eqk k v es) \<Longrightarrow> fst q = k \<or> fst q \<in> fst ` set es"
  by (induction es) (auto split: if_splits)

lemma es_put_distinct:
  assumes "\<And>a b. eqk a b \<longleftrightarrow> f a = f b"
  shows "es_distinct eqk es \<Longrightarrow> es_distinct eqk (es_put eqk k v es)"
proof (induction es)
  case (Cons p ps)
  have "\<not> eqk (fst p) (fst q)" if "\<not> eqk (fst p) k" "q \<in> set (es_put eqk k v ps)" for q
    using es_put_keys [OF that(2)] that(1) Cons.prems by auto
  with Cons show ?case by simp
qed simp

lemma es_del_subset: "q \<in> set (es_del eqk k es) \<Longrightarrow> q \<in> set es"
  by (induction es) (auto split: if_splits)

lemma es_del_distinct: "es_distinct eqk es \<Longrightarrow> es_distinct eqk (es_del eqk k es)"
  by (induction es) (auto dest: es_del_subset)

lemma ci_eq_refl [simp]: "ci_eq a a"
  by (simp add: ci_eq_def list_all2_refl)

lemma ci_eq_iff: "ci_eq a b \<longleftrightarrow> map c_tolower a = map c_tolower b"
  by (auto simp: ci_eq_def list_all2_conv_all_nth list_eq_iff_nth_eq)

lemma es_lookup_cong:
  assumes "\<And>a b. eqk a b \<longleftrightarrow> f a = f b" and "eqk k k'"
  shows "es_lookup eqk k es = es_lookup eqk k' es"
  using assms by (simp add: es_lookup_def)

definition fm_ok :: "(string \<Rightarrow> string \<Rightarrow> bool) \<Rightarrow> flat_map \<Rightarrow> bool" where
  "fm_ok eqk m \<longleftrightarrow> fm_inv m \<and> es_distinct eqk (fm_entries m)"

definition fm_lookup_ci :: "string \<Rightarrow> flat_map \<Rightarrow> string option" where
  "fm_lookup_ci key m = map_option (\<lambda>i. snd (fm_pair_at m i)) (fm_find_ci key m)"

lemma fm_at_lookup: "fm_at k m = es_lookup (=) k (fm_entries m)"
  using scan_lookup [of m "(=)" k] by (cases "fm_find k m") (simp_all add: fm_at_def find_scan)

lemma fm_lookup_ci_lookup: "fm_lookup_ci k m = es_lookup ci_eq k (fm_entries m)"
  using scan_lookup [of m ci_eq k] by (simp add: fm_lookup_ci_def find_scan)

lemmas fm_insert_spec = scan_put [where eqk = "(=)", folded find_scan(1), folded fm_insert_or_assign_def]
lemmas fm_insert_ci_spec = scan_put [where eqk = ci_eq, folded find_scan(2), folded fm_insert_or_assign_ci_def]
lemmas fm_erase_spec = scan_del [where eqk = "(=)", folded find_scan(1), folded fm_erase_def]
lemmas fm_erase_ci_spec = scan_del [where eqk = ci_eq, folded find_scan(2), folded fm_erase_ci_def]

lemma eq_iff_id: "a = b \<longleftrightarrow> id a = id b"
  by simp

lemmas fm_cs_laws = es_lookup_put [OF eq_iff_id] es_lookup_del [OF eq_iff_id] es_put_distinct [OF eq_iff_id]
  es_del_distinct fm_at_lookup fm_insert_spec fm_erase_spec fm_ok_def

lemmas fm_ci_laws = es_lookup_put [OF ci_eq_iff] es_lookup_del [OF ci_eq_iff] es_put_distinct [OF ci_eq_iff]
  es_del_distinct fm_lookup_ci_lookup fm_insert_ci_spec fm_erase_ci_spec fm_ok_def

interpretation fm_cs: kv_map "(=)" "fm_ok (=)" fm_at fm_insert_or_assign "\<lambda>k m. snd (fm_erase k m)"
  by unfold_locales (simp_all add: fm_cs_laws)

interpretation fm_ci: kv_map ci_eq "fm_ok ci_eq" fm_lookup_ci fm_insert_or_assign_ci "\<lambda>k m. snd (fm_erase_ci k m)"
  by unfold_locales (simp_all add: fm_ci_laws es_lookup_cong [OF ci_eq_iff], simp_all add: ci_eq_iff)

section \<open>Properties\<close>


lemma fm_new_ok [simp]: "fm_ok eqk fm_new"
  by (simp add: fm_ok_def)


text \<open>
  Headers: after any sequence of case-insensitive assignments to an empty map, a lookup
  returns the last value assigned under a name that is equal up to ASCII case.
\<close>

theorem header_lookup_last:
  "fm_lookup_ci k (fold (\<lambda>(k, v). fm_insert_or_assign_ci k v) ps fm_new) =
     map_option snd (List.find (\<lambda>p. ci_eq (fst p) k) (rev ps))"
proof -
  have "fm_lookup_ci k fm_new = None" by (simp add: fm_lookup_ci_lookup es_lookup_def)
  then show ?thesis using fm_ci.lookup_put_all [of fm_new k ps] by (auto split: option.split)
qed

end
