(* ===== verification/Router.thy ===== *)
theory Router
  imports Flat_Map "HOL-Library.AList" "HOL-Library.Sublist"
begin

text \<open>
  The radix-tree router: \<^verbatim>\<open>src/include/wavex/Engine/Router.hpp\<close> and
  \<^verbatim>\<open>src/src/Engine/Router.cpp\<close>.  Methods, handlers and middlewares are type parameters; the
  regular-expression engine is the parameter \<open>rx\<close>, which says whether a pattern matches a
  whole segment.  A view into the request path is its offset and its text.  The static index
  of a node maps each static child's prefix to that child, so that its lookup is a search of the
  static children; an unordered map is an association list.
\<close>

section \<open>Paths\<close>

definition normalize_path :: "string \<Rightarrow> string" where
  "normalize_path path =
     (if path = [] \<or> path = ''/'' then ''/''
      else let p = (if hd path \<noteq> CHR ''/'' then CHR ''/'' # path else path)
           in if length p > 1 \<and> last p = CHR ''/'' then butlast p else p)"

definition normalize_path_view :: "string \<Rightarrow> string" where
  "normalize_path_view path =
     (if path = [] \<or> path = ''/'' then ''/''
      else let needs_front = hd path \<noteq> CHR ''/'';
               needs_trim = length path > 1 \<and> last path = CHR ''/'' in
        if \<not> needs_front \<and> \<not> needs_trim then path
        else let scratch = (if needs_front then [CHR ''/''] else []) @ path
             in if needs_trim \<and> length scratch > 1 \<and> last scratch = CHR ''/'' then butlast scratch else scratch)"

type_synonym seg_view = "nat \<times> string"

function split_from :: "string \<Rightarrow> nat \<Rightarrow> seg_view list" where
  "split_from path start =
     (if start \<ge> length path then []
      else let e = (case find_from (CHR ''/'') path start of None \<Rightarrow> length path | Some e \<Rightarrow> e)
           in (if e \<noteq> start then [(start, substr path start (e - start))] else []) @ split_from path (e + 1))"
  by pat_completeness auto

termination
proof (relation "measure (\<lambda>(path, start). length path - start)", goal_cases)
  case (2 path start e)
  then have "start \<le> e" using find_from_Some(1) [of "CHR ''/''" path start] by (auto split: option.splits)
  with 2 show ?case by auto
qed simp

declare split_from.simps [simp del]

definition split_path_view :: "string \<Rightarrow> seg_view list" where
  "split_path_view path = (if path = [] \<or> path = ''/'' then [] else split_from path 1)"

text \<open>The inline array (with its capacity and count) and the overflow vector of \<^verbatim>\<open>split_path_into\<close>.\<close>

record seg_store =
  seg_buf :: "seg_view list"
  seg_overflow :: "seg_view list"

definition push_seg :: "nat \<Rightarrow> seg_view \<Rightarrow> seg_store \<Rightarrow> seg_store" where
  "push_seg cap v st =
     (if length (seg_buf st) < cap then st\<lparr>seg_buf := seg_buf st @ [v]\<rparr>
      else st\<lparr>seg_overflow := (if seg_overflow st = [] then seg_buf st else seg_overflow st) @ [v]\<rparr>)"

function split_into_from :: "nat \<Rightarrow> string \<Rightarrow> nat \<Rightarrow> seg_store \<Rightarrow> seg_store" where
  "split_into_from cap path start st =
     (if start \<ge> length path then st
      else let fe = find_from (CHR ''/'') path start;
               e = (case fe of None \<Rightarrow> length path | Some e \<Rightarrow> e);
               st = (if e \<noteq> start then push_seg cap (start, substr path start (e - start)) st else st)
           in if fe = None then st else split_into_from cap path (e + 1) st)"
  by pat_completeness auto

termination
proof (relation "measure (\<lambda>(cap, path, start, st). length path - start)", goal_cases)
  case (2 cap path start st fe e st')
  then have "start \<le> e" using find_from_Some(1) [of "CHR ''/''" path start] by (auto split: option.splits)
  with 2 show ?case by auto
qed simp

declare split_into_from.simps [simp del]

definition split_path_into :: "nat \<Rightarrow> string \<Rightarrow> seg_view list" where
  "split_path_into cap path =
     (let st = (if path \<noteq> [] \<and> path \<noteq> ''/'' then split_into_from cap path 1 \<lparr>seg_buf = [], seg_overflow = []\<rparr>
                else \<lparr>seg_buf = [], seg_overflow = []\<rparr>)
      in if seg_overflow st = [] then seg_buf st else seg_overflow st)"

section \<open>Segments of a pattern\<close>

datatype parsed_segment =
    Static string
  | Param string
  | RegexParam string string
  | Wildcard string

definition parse_segment :: "string \<Rightarrow> parsed_segment" where
  "parse_segment segment =
     (if segment \<noteq> [] \<and> hd segment = CHR '':'' then Param (tl segment)
      else if length segment \<ge> 2 \<and> hd segment = CHR ''{'' \<and> last segment = CHR ''}'' then
        let inner = substr segment 1 (length segment - 2) in
        case find_from (CHR '':'') inner 0 of
          Some colon \<Rightarrow> RegexParam (take colon inner) (drop (colon + 1) inner)
        | None \<Rightarrow> Param inner
      else if segment \<noteq> [] \<and> hd segment = CHR ''*'' then
        Wildcard (if length segment > 1 then tl segment else ''*'')
      else Static segment)"

section \<open>The tree\<close>

datatype ('m, 'h, 'w) node = Node
  (n_handlers: "('m \<times> 'h) list")
  (n_route_mws: "('m \<times> 'w list) list")
  (n_compiled: "('m \<times> 'w list) list")
  (n_children: "('m, 'h, 'w) node list")
  (n_param_children: "('m, 'h, 'w) node list")
  (n_wildcard: "('m, 'h, 'w) node option")
  (n_prefix: string)
  (n_param_name: string)
  (n_constraint: "string option")
  (n_is_param: bool)

definition node_new :: "('m, 'h, 'w) node" where
  "node_new = Node [] [] [] [] [] None [] [] None False"

definition root_new :: "('m, 'h, 'w) node" where
  "root_new = Node [] [] [] [] [] None ''/'' [] None False"

text \<open>The first element that satisfies the test is updated; without one, a new element is added at the end and updated.\<close>

fun upd_first :: "('a \<Rightarrow> bool) \<Rightarrow> 'a \<Rightarrow> ('a \<Rightarrow> 'a) \<Rightarrow> 'a list \<Rightarrow> 'a list" where
  "upd_first P new g [] = [g new]"
| "upd_first P new g (x # xs) = (if P x then g x # xs else x # upd_first P new g xs)"

definition is_static_for :: "string \<Rightarrow> ('m, 'h, 'w) node \<Rightarrow> bool" where
  "is_static_for s c \<longleftrightarrow> n_prefix c = s"

definition is_param_for :: "string \<Rightarrow> string option \<Rightarrow> ('m, 'h, 'w) node \<Rightarrow> bool" where
  "is_param_for name con c \<longleftrightarrow> n_is_param c \<and> n_constraint c = con \<and> n_param_name c = name"

text \<open>\<^verbatim>\<open>insert_segment\<close>, with what the caller does to the returned child.\<close>

definition insert_segment ::
    "string \<Rightarrow> (('m, 'h, 'w) node \<Rightarrow> ('m, 'h, 'w) node) \<Rightarrow> ('m, 'h, 'w) node \<Rightarrow> ('m, 'h, 'w) node" where
  "insert_segment segment g parent =
     (case parent of Node hs rm co cs ps wc pre nm con isp \<Rightarrow>
       (case parse_segment segment of
          Param name \<Rightarrow>
            Node hs rm co cs
              (upd_first (is_param_for name None) (Node [] [] [] [] [] None [] name None True) g ps) wc pre nm con isp
        | RegexParam name pat \<Rightarrow>
            Node hs rm co cs
              (upd_first (is_param_for name (Some pat)) (Node [] [] [] [] [] None [] name (Some pat) True) g ps)
              wc pre nm con isp
        | Wildcard name \<Rightarrow>
            Node hs rm co cs ps
              (Some (g (case wc of Some w \<Rightarrow> w | None \<Rightarrow> Node [] [] [] [] [] None [] name None True))) pre nm con isp
        | Static s \<Rightarrow>
            Node hs rm co (upd_first (is_static_for s) (Node [] [] [] [] [] None s [] None False) g cs) ps wc pre nm con isp))"

primrec insert_path ::
    "string list \<Rightarrow> (('m, 'h, 'w) node \<Rightarrow> ('m, 'h, 'w) node) \<Rightarrow> ('m, 'h, 'w) node \<Rightarrow> ('m, 'h, 'w) node" where
  "insert_path [] f n = f n"
| "insert_path (s # ss) f n = insert_segment s (insert_path ss f) n"

definition set_route :: "'m \<Rightarrow> 'w list \<Rightarrow> 'h \<Rightarrow> ('m, 'h, 'w) node \<Rightarrow> ('m, 'h, 'w) node" where
  "set_route m mws h n =
     (case n of Node hs rm co cs ps wc pre nm con isp \<Rightarrow>
        Node (AList.update m h hs) (if mws \<noteq> [] then AList.update m mws rm else rm) co cs ps wc pre nm con isp)"

section \<open>The router\<close>

record ('m, 'h, 'w) router =
  r_middlewares :: "(string \<times> 'w) list"
  r_root :: "('m, 'h, 'w) node"
  r_frozen :: bool

definition router_new :: "('m, 'h, 'w) router" where
  "router_new = \<lparr>r_middlewares = [], r_root = root_new, r_frozen = False\<rparr>"

definition router_clear :: "('m, 'h, 'w) router \<Rightarrow> ('m, 'h, 'w) router" where
  "router_clear r = r\<lparr>r_root := root_new, r_middlewares := []\<rparr>"

definition router_route :: "'m \<Rightarrow> string \<Rightarrow> 'w list \<Rightarrow> 'h \<Rightarrow> ('m, 'h, 'w) router \<Rightarrow> ('m, 'h, 'w) router" where
  "router_route m pattern mws h r =
     (let segments = map snd (split_path_view (normalize_path_view pattern))
      in r\<lparr>r_root := insert_path segments (set_route m mws h) (r_root r), r_frozen := False\<rparr>)"

definition router_use :: "string \<Rightarrow> 'w \<Rightarrow> ('m, 'h, 'w) router \<Rightarrow> ('m, 'h, 'w) router" where
  "router_use pre mw r =
     r\<lparr>r_middlewares := r_middlewares r @ [(if pre = [] then [] else normalize_path pre, mw)], r_frozen := False\<rparr>"

definition mw_applies :: "string \<Rightarrow> string \<times> 'w \<Rightarrow> bool" where
  "mw_applies node_path pm \<longleftrightarrow> fst pm = [] \<or> prefix (fst pm) node_path"

definition node_chain :: "(string \<times> 'w) list \<Rightarrow> string \<Rightarrow> ('m \<times> 'w list) list \<Rightarrow> 'm \<Rightarrow> 'w list" where
  "node_chain mws node_path rm m =
     map snd (filter (mw_applies node_path) mws) @ (case map_of rm m of Some fs \<Rightarrow> fs | None \<Rightarrow> [])"

definition child_path :: "string \<Rightarrow> string \<Rightarrow> string \<Rightarrow> string" where
  "child_path node_path sep label = node_path @ sep @ label"

fun freeze_node :: "(string \<times> 'w) list \<Rightarrow> string \<Rightarrow> ('m, 'h, 'w) node \<Rightarrow> ('m, 'h, 'w) node" where
  "freeze_node mws path (Node hs rm co cs ps wc pre nm con isp) =
     Node hs rm (if hs \<noteq> [] then map (\<lambda>(m, h). (m, node_chain mws path rm m)) hs else co)
       (map (\<lambda>c. freeze_node mws (child_path path ''/'' (n_prefix c)) c) cs)
       (map (\<lambda>c. freeze_node mws (child_path path ''/:'' (n_param_name c)) c) ps)
       (map_option (\<lambda>c. freeze_node mws (child_path path ''/*'' (n_param_name c)) c) wc) pre nm con isp"

definition router_freeze :: "('m, 'h, 'w) router \<Rightarrow> ('m, 'h, 'w) router" where
  "router_freeze r = r\<lparr>r_root := freeze_node (r_middlewares r) [] (r_root r), r_frozen := True\<rparr>"

section \<open>Resolution\<close>

definition backtrack_param :: "flat_map \<Rightarrow> string \<Rightarrow> flat_map" where
  "backtrack_param params name =
     fold (\<lambda>(k, v) m. fm_insert_or_assign k v m) (filter (\<lambda>(k, v). k \<noteq> name) (fm_entries params)) fm_new"

text \<open>From the first remaining segment to the end of the last one, in the path's own text.\<close>

definition compute_wildcard_slice :: "string \<Rightarrow> seg_view list \<Rightarrow> string" where
  "compute_wildcard_slice path segs =
     (if segs = [] then []
      else substr path (fst (hd segs)) (fst (last segs) + length (snd (last segs)) - fst (hd segs)))"

fun try_params :: "(flat_map \<Rightarrow> ('m, 'h, 'w) node \<Rightarrow> ('m, 'h, 'w) node option \<times> flat_map) \<Rightarrow>
    (string \<Rightarrow> string \<Rightarrow> bool) \<Rightarrow> string \<Rightarrow> ('m, 'h, 'w) node list \<Rightarrow> flat_map \<Rightarrow>
    ('m, 'h, 'w) node option \<times> flat_map" where
  "try_params rec rx segment [] params = (None, params)"
| "try_params rec rx segment (c # cs) params =
     (if (case n_constraint c of None \<Rightarrow> True | Some pat \<Rightarrow> rx pat segment) then
        case rec (fm_insert_or_assign (n_param_name c) segment params) c of
          (Some r, params) \<Rightarrow> (Some r, params)
        | (None, params) \<Rightarrow> try_params rec rx segment cs (backtrack_param params (n_param_name c))
      else try_params rec rx segment cs params)"

definition try_wildcard :: "string \<Rightarrow> seg_view list \<Rightarrow> ('m, 'h, 'w) node option \<Rightarrow> flat_map
    \<Rightarrow> ('m, 'h, 'w) node option \<times> flat_map" where
  "try_wildcard path segs wc params =
     (case wc of
        None \<Rightarrow> (None, params)
      | Some w \<Rightarrow>
          let params = fm_insert_or_assign (n_param_name w) (compute_wildcard_slice path segs) params
          in (if n_handlers w \<noteq> [] then Some w else None, params))"

primrec resolve_node :: "(string \<Rightarrow> string \<Rightarrow> bool) \<Rightarrow> string \<Rightarrow> seg_view list \<Rightarrow> flat_map \<Rightarrow>
    ('m, 'h, 'w) node \<Rightarrow> ('m, 'h, 'w) node option \<times> flat_map" where
  "resolve_node rx path [] = (\<lambda>params n. (if n_handlers n \<noteq> [] then Some n else None, params))"
| "resolve_node rx path (seg # segs) = (\<lambda>params n.
     case (case List.find (is_static_for (snd seg)) (n_children n) of
             Some c \<Rightarrow> resolve_node rx path segs params c
           | None \<Rightarrow> (None, params)) of
       (Some r, params) \<Rightarrow> (Some r, params)
     | (None, params) \<Rightarrow>
         (case try_params (resolve_node rx path segs) rx (snd seg) (n_param_children n) params of
            (Some r, params) \<Rightarrow> (Some r, params)
          | (None, params) \<Rightarrow> try_wildcard path (seg # segs) (n_wildcard n) params))"

record ('h, 'w) route_match =
  rm_handler :: 'h
  rm_middlewares :: "'w list"
  rm_params :: flat_map

definition router_resolve :: "(string \<Rightarrow> string \<Rightarrow> bool) \<Rightarrow> 'm \<Rightarrow> string \<Rightarrow> ('m, 'h, 'w) router
    \<Rightarrow> ('h, 'w) route_match option \<times> ('m, 'h, 'w) router" where
  "router_resolve rx m path r =
     (let r = (if \<not> r_frozen r then router_freeze r else r);
          normalized = normalize_path_view path;
          segments = split_path_into 16 normalized in
      case resolve_node rx normalized segments fm_new (r_root r) of
        (None, _) \<Rightarrow> (None, r)
      | (Some n, params) \<Rightarrow>
          (case map_of (n_handlers n) m of
             None \<Rightarrow> (None, r)
           | Some h \<Rightarrow>
               (Some \<lparr>rm_handler = h,
                      rm_middlewares = (case map_of (n_compiled n) m of Some fs \<Rightarrow> fs | None \<Rightarrow> []),
                      rm_params = params\<rparr>, r)))"

end
