(* ===== verification/Router_Proofs.thy ===== *)
theory Router_Proofs
  imports Router
begin

text \<open>
  Correctness of the router: registration is insertion into a trie keyed by parsed segments,
  resolution finds a node exactly when some registered pattern matches, the splitting of request
  paths agrees with that of patterns, and freezing gives each route the middleware chain in
  registration order.
\<close>

section \<open>Paths\<close>

lemma normalize_agree: "normalize_path_view p = normalize_path p"
proof (cases "p = [] \<or> p = ''/''")
  case False
  then obtain x xs where p: "p = x # xs" by (cases p) auto
  show ?thesis
  proof (cases "xs = []")
    case True
    with False p show ?thesis by (auto simp: normalize_path_def normalize_path_view_def)
  next
    case False
    then show ?thesis by (auto simp: p normalize_path_def normalize_path_view_def Let_def)
  qed
qed (auto simp: normalize_path_def normalize_path_view_def)

definition store_list :: "seg_store \<Rightarrow> seg_view list" where
  "store_list st = (if seg_overflow st = [] then seg_buf st else seg_overflow st)"

lemma push_seg_list:
  assumes "seg_overflow st = [] \<or> \<not> length (seg_buf st) < cap"
  shows "store_list (push_seg cap v st) = store_list st @ [v]
    \<and> (seg_overflow (push_seg cap v st) = [] \<or> \<not> length (seg_buf (push_seg cap v st)) < cap)"
  using assms by (auto simp: push_seg_def store_list_def)

lemma split_into_from_list:
  "seg_overflow st = [] \<or> \<not> length (seg_buf st) < cap \<Longrightarrow>
     store_list (split_into_from cap path start st) = store_list st @ split_from path start"
proof (induction cap path start st rule: split_into_from.induct)
  case (1 cap path start st)
  show ?case
  proof (cases "start \<ge> length path")
    case True
    then show ?thesis by (simp add: split_into_from.simps [of cap path start st] split_from.simps [of path start])
  next
    case False
    define fe where "fe = find_from (CHR ''/'') path start"
    define e where "e = (case fe of None \<Rightarrow> length path | Some e \<Rightarrow> e)"
    define st1 where "st1 = (if e \<noteq> start then push_seg cap (start, substr path start (e - start)) st else st)"
    have st1: "store_list st1 = store_list st @ (if e \<noteq> start then [(start, substr path start (e - start))] else [])"
      "seg_overflow st1 = [] \<or> \<not> length (seg_buf st1) < cap"
      using push_seg_list [OF "1.prems"] "1.prems" by (auto simp: st1_def)
    have s: "split_from path start = (if e \<noteq> start then [(start, substr path start (e - start))] else []) @ split_from path (e + 1)"
      using False by (simp add: split_from.simps [of path start] e_def fe_def Let_def)
    have r: "split_into_from cap path start st = (if fe = None then st1 else split_into_from cap path (e + 1) st1)"
      using False by (simp add: split_into_from.simps [of cap path start st] st1_def e_def fe_def Let_def)
    show ?thesis
    proof (cases fe)
      case None
      then have "split_from path (e + 1) = []" by (simp add: e_def split_from.simps)
      with None show ?thesis by (simp add: r s st1(1))
    next
      case (Some x)
      have "store_list (split_into_from cap path (e + 1) st1) = store_list st1 @ split_from path (e + 1)"
        by (rule "1.IH" [OF False fe_def e_def st1_def]) (use Some st1(2) in auto)
      with Some show ?thesis by (simp add: r s st1(1))
    qed
  qed
qed

lemma split_agree: "split_path_into cap path = split_path_view path"
  using split_into_from_list [of "\<lparr>seg_buf = [], seg_overflow = []\<rparr>" cap path 1]
  by (auto simp: split_path_into_def split_path_view_def store_list_def Let_def)

section \<open>The trie\<close>

text \<open>What identifies a child: the name of a wildcard does not.\<close>

fun seg_key :: "parsed_segment \<Rightarrow> parsed_segment" where
  "seg_key (Wildcard n) = Wildcard []"
| "seg_key p = p"

fun child_of :: "parsed_segment \<Rightarrow> ('m, 'h, 'w) node \<Rightarrow> ('m, 'h, 'w) node option" where
  "child_of (Static s) n = List.find (is_static_for s) (n_children n)"
| "child_of (Param a) n = List.find (is_param_for a None) (n_param_children n)"
| "child_of (RegexParam a p) n = List.find (is_param_for a (Some p)) (n_param_children n)"
| "child_of (Wildcard a) n = n_wildcard n"

fun fresh_child :: "parsed_segment \<Rightarrow> ('m, 'h, 'w) node" where
  "fresh_child (Static s) = Node [] [] [] [] [] None s [] None False"
| "fresh_child (Param a) = Node [] [] [] [] [] None [] a None True"
| "fresh_child (RegexParam a p) = Node [] [] [] [] [] None [] a (Some p) True"
| "fresh_child (Wildcard a) = Node [] [] [] [] [] None [] a None True"

definition node_label :: "('m, 'h, 'w) node \<Rightarrow> string \<times> string \<times> string option \<times> bool" where
  "node_label n = (n_prefix n, n_param_name n, n_constraint n, n_is_param n)"

lemma find_upd_first_same:
  assumes "\<And>x. P (g x) = P x" and "P new"
  shows "List.find P (upd_first P new g xs) = Some (g (case List.find P xs of Some x \<Rightarrow> x | None \<Rightarrow> new))"
  using assms by (induction xs) auto

lemma find_upd_first_other:
  assumes "\<And>x. Q (g x) = Q x" and "\<And>x. P x \<Longrightarrow> \<not> Q x" and "\<not> Q new"
  shows "List.find Q (upd_first P new g xs) = List.find Q xs"
  using assms by (induction xs) auto

lemma child_of_key: "child_of p n = child_of (seg_key p) n"
  by (cases p) simp_all

lemma labels_decide:
  assumes "\<And>c. node_label (g c) = node_label c"
  shows "is_static_for s (g c) = is_static_for s c" and "is_param_for a con (g c) = is_param_for a con c"
  using assms [of c] by (simp_all add: node_label_def is_static_for_def is_param_for_def)

lemma child_of_insert:
  assumes "\<And>c. node_label (g c) = node_label c"
  shows "child_of p (insert_segment s g n) =
    (if seg_key p = seg_key (parse_segment s)
     then Some (g (case child_of p n of Some c \<Rightarrow> c | None \<Rightarrow> fresh_child (parse_segment s)))
     else child_of p n)"
proof -
  note ld = labels_decide [of g, OF assms]
  have st: "List.find (is_static_for x) (upd_first (is_static_for x) (fresh_child (Static x)) g cs) =
      Some (g (case List.find (is_static_for x) cs of Some c \<Rightarrow> c | None \<Rightarrow> fresh_child (Static x)))" for x cs
    by (rule find_upd_first_same) (simp_all add: ld, simp add: is_static_for_def)
  have pa: "List.find (is_param_for x con) (upd_first (is_param_for x con) new g cs) =
      Some (g (case List.find (is_param_for x con) cs of Some c \<Rightarrow> c | None \<Rightarrow> new))"
    if "is_param_for x con new" for x con new cs
    by (rule find_upd_first_same) (simp_all add: ld that)
  obtain hs rm co cs ps wc pre nm con isp where n: "n = Node hs rm co cs ps wc pre nm con isp" by (cases n)
  have fl: "n_prefix (g c) = n_prefix c" "n_param_name (g c) = n_param_name c" "n_constraint (g c) = n_constraint c"
    "n_is_param (g c) = n_is_param c" for c
    using assms [of c] by (simp_all add: node_label_def)
  define q where "q = parse_segment s"
  show ?thesis
  proof (cases "seg_key p = seg_key q")
    case True
    then show ?thesis
      unfolding q_def [symmetric]
      by (cases q; cases p)
        (simp_all add: insert_segment_def n q_def [symmetric] pa is_param_for_def st [simplified] cong: option.case_cong)
  next
    case False
    then show ?thesis
      unfolding q_def [symmetric]
      by (cases q; cases p)
        (auto simp: insert_segment_def n q_def [symmetric] intro!: find_upd_first_other simp: fl is_static_for_def is_param_for_def)
  qed
qed

lemma insert_segment_own:
  "n_handlers (insert_segment s g n) = n_handlers n" "n_route_mws (insert_segment s g n) = n_route_mws n"
  "node_label (insert_segment s g n) = node_label n"
  by (cases n; cases "parse_segment s"; simp add: insert_segment_def node_label_def)+

lemma set_route_label: "node_label (set_route m mws h n) = node_label n"
  by (cases n) (simp add: set_route_def node_label_def)

lemma insert_path_label:
  "(\<And>c. node_label (f c) = node_label c) \<Longrightarrow> node_label (insert_path ss f n) = node_label n"
  by (cases ss) (simp_all add: insert_segment_own)

fun node_at :: "parsed_segment list \<Rightarrow> ('m, 'h, 'w) node \<Rightarrow> ('m, 'h, 'w) node option" where
  "node_at [] n = Some n"
| "node_at (p # ps) n = (case child_of p n of None \<Rightarrow> None | Some c \<Rightarrow> node_at ps c)"

definition handler_at :: "parsed_segment list \<Rightarrow> 'm \<Rightarrow> ('m, 'h, 'w) node \<Rightarrow> 'h option" where
  "handler_at ks m n = (case node_at ks n of None \<Rightarrow> None | Some r \<Rightarrow> map_of (n_handlers r) m)"

lemma handler_at_Cons: "handler_at (p # ks) m n = (case child_of p n of None \<Rightarrow> None | Some c \<Rightarrow> handler_at ks m c)"
  by (simp add: handler_at_def split: option.split)

lemma child_of_fresh: "child_of p (fresh_child q) = None"
  by (cases p; cases q) simp_all

lemma handler_at_fresh: "handler_at ks m (fresh_child p) = None"
proof (cases ks)
  case Nil
  then show ?thesis by (cases p) (simp_all add: handler_at_def)
qed (simp add: handler_at_Cons child_of_fresh)

text \<open>Looking up a handler after a registration.\<close>

lemma handler_at_insert:
  "handler_at ks m' (insert_path ss (set_route m mws h) n) =
     (if map seg_key ks = map (\<lambda>s. seg_key (parse_segment s)) ss \<and> m' = m then Some h else handler_at ks m' n)"
proof (induction ss arbitrary: ks n)
  case Nil
  have "map_of (n_handlers (set_route m mws h r)) m' = (if m' = m then Some h else map_of (n_handlers r) m')" for r
    by (cases r) (simp add: set_route_def update_conv)
  moreover have "child_of p (set_route m mws h n) = child_of p n" for p
    by (cases n; cases p) (simp_all add: set_route_def)
  ultimately show ?case by (cases ks) (simp_all add: handler_at_def)
next
  case (Cons s ss)
  note IH = Cons.IH
  let ?f = "set_route m mws h"
  have lab: "node_label (insert_path ss ?f c) = node_label c" for c
    by (rule insert_path_label) (rule set_route_label)
  show ?case
  proof (cases ks)
    case Nil
    then show ?thesis by (simp add: handler_at_def insert_segment_own)
  next
    case (Cons p ks')
    have "handler_at ks m' (insert_path (s # ss) ?f n) =
        (if seg_key p = seg_key (parse_segment s)
         then handler_at ks' m' (insert_path ss ?f (case child_of p n of Some c \<Rightarrow> c | None \<Rightarrow> fresh_child (parse_segment s)))
         else handler_at ks m' n)"
      by (simp add: Cons handler_at_Cons child_of_insert [OF lab])
    also have "\<dots> = (if map seg_key ks = map (\<lambda>s. seg_key (parse_segment s)) (s # ss) \<and> m' = m then Some h
        else handler_at ks m' n)"
      unfolding IH by (cases "child_of p n") (simp_all add: Cons handler_at_Cons handler_at_fresh)
    finally show ?thesis .
  qed
qed

section \<open>Well-formed trees\<close>

text \<open>Children have distinct labels, recursively.\<close>

fun node_wf :: "('m, 'h, 'w) node \<Rightarrow> bool" where
  "node_wf (Node hs rm co cs ps wc pre nm con isp) \<longleftrightarrow>
     distinct (map n_prefix cs) \<and> distinct (map (\<lambda>c. (n_param_name c, n_constraint c)) ps)
     \<and> (\<forall>c \<in> set ps. n_is_param c) \<and> (\<forall>c \<in> set cs. node_wf c) \<and> (\<forall>c \<in> set ps. node_wf c)
     \<and> (\<forall>c \<in> set_option wc. node_wf c)"

lemma upd_first_map:
  assumes "\<And>x. F (g x) = F x"
  shows "map F (upd_first P new g xs) = map F xs @ (if \<exists>x \<in> set xs. P x then [] else [F new])"
  using assms by (induction xs) auto

lemma upd_first_ball:
  "\<forall>x \<in> set xs. Q x \<Longrightarrow> Q new \<Longrightarrow> (\<And>x. Q x \<Longrightarrow> Q (g x)) \<Longrightarrow> \<forall>y \<in> set (upd_first P new g xs). Q y"
  by (induction xs) auto

lemma insert_segment_wf:
  assumes "node_wf n" and "\<And>c. node_label (g c) = node_label c" and "\<And>c. node_wf c \<Longrightarrow> node_wf (g c)"
  shows "node_wf (insert_segment s g n)"
proof -
  obtain hs rm co cs ps wc pre nm con isp where n: "n = Node hs rm co cs ps wc pre nm con isp" by (cases n)
  have fl: "n_prefix (g c) = n_prefix c" "n_param_name (g c) = n_param_name c" "n_constraint (g c) = n_constraint c"
    "n_is_param (g c) = n_is_param c" for c
    using assms(2) [of c] by (simp_all add: node_label_def)
  have wf: "\<forall>c \<in> set (upd_first P new g xs). node_wf c" if "\<forall>c \<in> set xs. node_wf c" "node_wf new" for P new xs
    by (rule upd_first_ball [OF that]) (rule assms(3))
  have pa: "\<forall>c \<in> set (upd_first P new g xs). n_is_param c" if "\<forall>c \<in> set xs. n_is_param c" "n_is_param new" for P new xs
    by (rule upd_first_ball [OF that]) (simp add: fl(4))
  have par: "\<forall>c \<in> set ps. n_is_param c" using assms(1) by (simp add: n)
  have dp: "distinct (map (\<lambda>c. (n_param_name c, n_constraint c)) (upd_first (is_param_for a k) new g ps))"
    if "n_param_name new = a" "n_constraint new = k" for a k new
    unfolding upd_first_map [where F = "\<lambda>c. (n_param_name c, n_constraint c)" and g = g, unfolded fl, OF refl]
    using assms(1) that par by (auto simp: n is_param_for_def)
  have ds: "distinct (map n_prefix (upd_first (is_static_for a) new g cs))" if "n_prefix new = a" for a new
    unfolding upd_first_map [where F = n_prefix and g = g, OF fl(1)]
    using assms(1) that by (auto simp: n is_static_for_def)
  have w: "node_wf (g (case wc of None \<Rightarrow> fresh_child p | Some w \<Rightarrow> w))" for p
    by (rule assms(3)) (use assms(1) in \<open>cases p; auto simp: n split: option.split\<close>)
  have inner: "distinct (map n_prefix cs)" "distinct (map (\<lambda>c. (n_param_name c, n_constraint c)) ps)"
    "\<forall>c \<in> set cs. node_wf c" "\<forall>c \<in> set ps. node_wf c" "\<forall>c \<in> set_option wc. node_wf c"
    using assms(1) by (simp_all add: n)
  show ?thesis
  proof (cases "parse_segment s")
    case (Wildcard a)
    then show ?thesis using inner par w [of "Wildcard a"] by (cases wc) (simp_all add: insert_segment_def n)
  next
    case (Static a)
    have "node_wf (Node hs rm co (upd_first (is_static_for a) (Node [] [] [] [] [] None a [] None False) g cs) ps wc pre nm con isp)"
      unfolding node_wf.simps by (intro conjI inner par ds wf) simp_all
    with Static show ?thesis by (simp add: insert_segment_def n del: node_wf.simps)
  next
    case (Param a)
    have "node_wf (Node hs rm co cs (upd_first (is_param_for a None) (Node [] [] [] [] [] None [] a None True) g ps) wc pre nm con isp)"
      unfolding node_wf.simps by (intro conjI inner par dp wf pa) simp_all
    with Param show ?thesis by (simp add: insert_segment_def n del: node_wf.simps)
  next
    case (RegexParam a k)
    have "node_wf (Node hs rm co cs (upd_first (is_param_for a (Some k)) (Node [] [] [] [] [] None [] a (Some k) True) g ps)
        wc pre nm con isp)"
      unfolding node_wf.simps by (intro conjI inner par dp wf pa) simp_all
    with RegexParam show ?thesis by (simp add: insert_segment_def n del: node_wf.simps)
  qed
qed

lemma insert_path_wf:
  assumes "\<And>c. node_label (f c) = node_label c" and "\<And>c. node_wf c \<Longrightarrow> node_wf (f c)"
  shows "node_wf n \<Longrightarrow> node_wf (insert_path ss f n)"
proof (induction ss arbitrary: n)
  case (Cons s ss)
  show ?case
    using insert_segment_wf [OF Cons.prems, of "insert_path ss f" s] insert_path_label [of f ss] assms(1) Cons.IH
    by simp
qed (simp add: assms(2))

lemma set_route_wf: "node_wf n \<Longrightarrow> node_wf (set_route m mws h n)"
  by (cases n) (simp add: set_route_def)

section \<open>Resolution\<close>

fun keys_match :: "(string \<Rightarrow> string \<Rightarrow> bool) \<Rightarrow> parsed_segment list \<Rightarrow> string list \<Rightarrow> bool" where
  "keys_match rx [] [] = True"
| "keys_match rx (Static s # ks) (x # xs) = (x = s \<and> keys_match rx ks xs)"
| "keys_match rx (Param a # ks) (x # xs) = keys_match rx ks xs"
| "keys_match rx (RegexParam a p # ks) (x # xs) = (rx p x \<and> keys_match rx ks xs)"
| "keys_match rx (Wildcard a # ks) (x # xs) = (ks = [])"
| "keys_match rx _ _ = False"

definition param_key :: "('m, 'h, 'w) node \<Rightarrow> parsed_segment" where
  "param_key c = (case n_constraint c of None \<Rightarrow> Param (n_param_name c) | Some p \<Rightarrow> RegexParam (n_param_name c) p)"

definition param_fits :: "(string \<Rightarrow> string \<Rightarrow> bool) \<Rightarrow> string \<Rightarrow> ('m, 'h, 'w) node \<Rightarrow> bool" where
  "param_fits rx x c \<longleftrightarrow> (case n_constraint c of None \<Rightarrow> True | Some pat \<Rightarrow> rx pat x)"

lemma find_distinct:
  assumes "distinct (map F xs)" and "x \<in> set xs" and "P x" and "\<And>y. P y \<Longrightarrow> F y = F x"
  shows "List.find P xs = Some x"
  using assms(1,2)
proof (induction xs)
  case (Cons a xs)
  then show ?case
  proof (cases "P a")
    case True
    then have "F a = F x" by (rule assms(4))
    with Cons.prems have "a = x" by auto
    with True show ?thesis by simp
  qed (use assms(3) in auto)
qed simp

lemma child_of_param:
  assumes "node_wf n" and "c \<in> set (n_param_children n)"
  shows "child_of (param_key c) n = Some c"
proof -
  have d: "distinct (map (\<lambda>c. (n_param_name c, n_constraint c)) (n_param_children n))" "n_is_param c"
    using assms by (cases n; simp)+
  have "List.find (is_param_for (n_param_name c) (n_constraint c)) (n_param_children n) = Some c"
    by (rule find_distinct [OF d(1) assms(2)]) (auto simp: is_param_for_def d(2))
  then show ?thesis by (cases "n_constraint c") (simp_all add: param_key_def)
qed

lemma try_params_Cons:
  "try_params rec rx x (c # cs) params =
     (if param_fits rx x c then
        (case rec (fm_insert_or_assign (n_param_name c) x params) c of
           (Some r, ps) \<Rightarrow> (Some r, ps)
         | (None, ps) \<Rightarrow> try_params rec rx x cs (backtrack_param ps (n_param_name c)))
      else try_params rec rx x cs params)"
  by (simp add: param_fits_def)

declare try_params.simps(2) [simp del]

lemma try_params_some:
  assumes "try_params rec rx x cs params = (Some r, params')"
  shows "\<exists>c ps ps'. c \<in> set cs \<and> param_fits rx x c \<and> rec ps c = (Some r, ps')"
  using assms
proof (induction cs arbitrary: params)
  case (Cons c cs)
  obtain o1 ps1 where r: "rec (fm_insert_or_assign (n_param_name c) x params) c = (o1, ps1)" by fastforce
  show ?case
  proof (cases "param_fits rx x c \<and> o1 \<noteq> None")
    case True
    with Cons.prems r have "o1 = Some r" by (auto simp: try_params_Cons)
    with True r show ?thesis by (meson list.set_intros(1))
  next
    case False
    then have "\<exists>ps. try_params rec rx x cs ps = (Some r, params')"
      using Cons.prems r by (auto simp: try_params_Cons split: if_splits)
    then show ?thesis using Cons.IH by (meson list.set_intros(2))
  qed
qed simp

lemma try_params_none:
  assumes "fst (try_params rec rx x cs params) = None" and "c \<in> set cs" and "param_fits rx x c"
  shows "\<exists>ps. fst (rec ps c) = None"
  using assms(1,2)
proof (induction cs arbitrary: params)
  case (Cons d cs)
  obtain o1 ps1 where r: "rec (fm_insert_or_assign (n_param_name d) x params) d = (o1, ps1)" by fastforce
  show ?case
  proof (cases "c = d")
    case True
    with Cons.prems(1) r assms(3) have "o1 = None" by (cases o1) (auto simp: try_params_Cons)
    with True r show ?thesis by (metis fst_conv)
  next
    case False
    moreover have "\<exists>ps. fst (try_params rec rx x cs ps) = None"
      using Cons.prems(1) r by (cases o1) (auto simp: try_params_Cons split: if_splits)
    ultimately show ?thesis using Cons.IH Cons.prems(2) by auto
  qed
qed simp

lemma resolve_sound:
  "node_wf n \<Longrightarrow> resolve_node rx path segs ps n = (Some r, ps') \<Longrightarrow>
     \<exists>ks. node_at ks n = Some r \<and> keys_match rx ks (map snd segs) \<and> n_handlers r \<noteq> []"
proof (induction segs arbitrary: n ps ps')
  case Nil
  then have "r = n" "n_handlers n \<noteq> []" by (auto split: if_splits)
  then show ?case by (intro exI [of _ "[]"]) simp
next
  case (Cons seg segs)
  let ?x = "snd seg"
  obtain o1 ps1 where st: "(case List.find (is_static_for ?x) (n_children n) of
      Some c \<Rightarrow> resolve_node rx path segs ps c | None \<Rightarrow> (None, ps)) = (o1, ps1)" by fastforce
  obtain o2 ps2 where pa: "try_params (resolve_node rx path segs) rx ?x (n_param_children n) ps1 = (o2, ps2)" by fastforce
  from Cons.prems(2) st pa consider (static) "o1 = Some r" | (param) "o2 = Some r"
    | (wild) "try_wildcard path (seg # segs) (n_wildcard n) ps2 = (Some r, ps')"
    by (auto split: option.splits)
  then show ?case
  proof cases
    case static
    then obtain c where c: "List.find (is_static_for ?x) (n_children n) = Some c" "resolve_node rx path segs ps c = (Some r, ps1)"
      using st by (auto split: option.splits)
    have "node_wf c" using Cons.prems(1) c(1) by (cases n) (auto simp: find_Some_iff)
    from Cons.IH [OF this c(2)] obtain ks where "node_at ks c = Some r" "keys_match rx ks (map snd segs)" "n_handlers r \<noteq> []"
      by blast
    with c show ?thesis by (intro exI [of _ "Static ?x # ks"]) simp
  next
    case param
    with try_params_some [of "resolve_node rx path segs" rx ?x "n_param_children n" ps1 r ps2] pa
    obtain c ps3 ps4 where c: "c \<in> set (n_param_children n)" "param_fits rx ?x c" "resolve_node rx path segs ps3 c = (Some r, ps4)"
      by blast
    have "node_wf c" using Cons.prems(1) c(1) by (cases n) auto
    from Cons.IH [OF this c(3)] obtain ks where ks: "node_at ks c = Some r" "keys_match rx ks (map snd segs)" "n_handlers r \<noteq> []"
      by blast
    have "keys_match rx (param_key c # ks) (map snd (seg # segs))"
      using ks(2) c(2) by (simp add: param_key_def param_fits_def split: option.splits)
    with ks child_of_param [OF Cons.prems(1) c(1)] show ?thesis by (intro exI [of _ "param_key c # ks"]) simp
  next
    case wild
    then have "n_wildcard n = Some r" "n_handlers r \<noteq> []"
      by (auto simp: try_wildcard_def Let_def split: option.splits if_splits)
    then show ?thesis by (intro exI [of _ "[Wildcard []]"]) simp
  qed
qed

text \<open>A failed resolution failed in each of its three branches.\<close>

lemma resolve_none:
  assumes "fst (resolve_node rx path (seg # segs) ps n) = None"
  shows "List.find (is_static_for (snd seg)) (n_children n) = Some c \<Longrightarrow> fst (resolve_node rx path segs ps c) = None"
    and "\<exists>ps. fst (try_params (resolve_node rx path segs) rx (snd seg) (n_param_children n) ps) = None"
    and "\<exists>ps. fst (try_wildcard path (seg # segs) (n_wildcard n) ps) = None"
proof -
  obtain o1 ps1 where st: "(case List.find (is_static_for (snd seg)) (n_children n) of
      Some c \<Rightarrow> resolve_node rx path segs ps c | None \<Rightarrow> (None, ps)) = (o1, ps1)" by fastforce
  obtain o2 ps2 where pa: "try_params (resolve_node rx path segs) rx (snd seg) (n_param_children n) ps1 = (o2, ps2)" by fastforce
  have o1: "o1 = None" using assms st by (cases o1) simp_all
  have o2: "o2 = None" using assms st pa o1 by (cases o2) simp_all
  show "List.find (is_static_for (snd seg)) (n_children n) = Some c \<Longrightarrow> fst (resolve_node rx path segs ps c) = None"
    using st o1 by simp
  show "\<exists>ps. fst (try_params (resolve_node rx path segs) rx (snd seg) (n_param_children n) ps) = None"
    using pa o2 by (metis fst_conv)
  show "\<exists>ps. fst (try_wildcard path (seg # segs) (n_wildcard n) ps) = None"
    using assms st pa o1 o2 by auto
qed

lemma resolve_complete:
  "node_at ks n = Some r \<Longrightarrow> n_handlers r \<noteq> [] \<Longrightarrow> keys_match rx ks (map snd segs) \<Longrightarrow>
     fst (resolve_node rx path segs ps n) \<noteq> None"
proof (induction segs arbitrary: ks n ps)
  case Nil
  then have "ks = []" by (cases "(rx, ks, [] :: string list)" rule: keys_match.cases) auto
  with Nil show ?case by simp
next
  case (Cons seg segs)
  let ?x = "snd seg"
  from Cons.prems(3) obtain k ks' where ks: "ks = k # ks'" by (cases ks) auto
  from Cons.prems(1) ks obtain c where c: "child_of k n = Some c" "node_at ks' c = Some r" by (auto split: option.splits)
  have IH: "fst (resolve_node rx path segs ps c) \<noteq> None" if "keys_match rx ks' (map snd segs)" for ps
    using Cons.IH [OF c(2) Cons.prems(2) that] .
  have param: False
    if "List.find (is_param_for a con) (n_param_children n) = Some c" "keys_match rx ks' (map snd segs)"
      "case con of None \<Rightarrow> True | Some p \<Rightarrow> rx p ?x"
      and none: "\<exists>ps. fst (try_params (resolve_node rx path segs) rx ?x (n_param_children n) ps) = None" for a con
  proof -
    have "c \<in> set (n_param_children n)" "param_fits rx ?x c"
      using that(1,3) by (auto simp: find_Some_iff is_param_for_def param_fits_def)
    with none try_params_none IH [OF that(2)] show False by metis
  qed
  show ?case
  proof
    assume none: "fst (resolve_node rx path (seg # segs) ps n) = None"
    show False
    proof (cases k)
      case (Static s)
      with Cons.prems(3) c(1) IH [of ps] resolve_none(1) [OF none, of c] show False by (simp add: ks)
    next
      case (Param a)
      show False
        by (rule param [of a None]) (use Param Cons.prems(3) c(1) resolve_none(2) [OF none] in \<open>simp_all add: ks\<close>)
    next
      case (RegexParam a q)
      show False
        by (rule param [of a "Some q"]) (use RegexParam Cons.prems(3) c(1) resolve_none(2) [OF none] in \<open>simp_all add: ks\<close>)
    next
      case (Wildcard a)
      with Cons.prems(2,3) c resolve_none(3) [OF none] show False by (auto simp: ks try_wildcard_def Let_def)
    qed
  qed
qed

section \<open>Freezing\<close>

lemma find_map_P: "(\<And>x. P (f x) = P x) \<Longrightarrow> List.find P (map f xs) = map_option f (List.find P xs)"
  by (induction xs) auto

lemma freeze_own:
  "n_handlers (freeze_node mws path n) = n_handlers n" "node_label (freeze_node mws path n) = node_label n"
  by (cases n; simp add: node_label_def)+

lemma freeze_label_fields:
  "n_prefix (freeze_node mws path n) = n_prefix n" "n_param_name (freeze_node mws path n) = n_param_name n"
  "n_constraint (freeze_node mws path n) = n_constraint n" "n_is_param (freeze_node mws path n) = n_is_param n"
  by (cases n; simp)+

text \<open>The path under which a child is frozen.\<close>

definition step_path :: "string \<Rightarrow> parsed_segment \<Rightarrow> ('m, 'h, 'w) node \<Rightarrow> string" where
  "step_path path p c =
     (case p of Static s \<Rightarrow> child_path path ''/'' (n_prefix c)
      | Wildcard a \<Rightarrow> child_path path ''/*'' (n_param_name c)
      | _ \<Rightarrow> child_path path ''/:'' (n_param_name c))"

fun node_path :: "string \<Rightarrow> parsed_segment list \<Rightarrow> ('m, 'h, 'w) node \<Rightarrow> string" where
  "node_path path [] n = path"
| "node_path path (p # ps) n = (case child_of p n of None \<Rightarrow> path | Some c \<Rightarrow> node_path (step_path path p c) ps c)"

lemma child_of_freeze:
  "child_of p (freeze_node mws path n) = map_option (\<lambda>c. freeze_node mws (step_path path p c) c) (child_of p n)"
  by (cases n; cases p)
    (simp_all add: step_path_def find_map_P is_static_for_def is_param_for_def freeze_label_fields)

lemma node_at_freeze:
  "node_at ks (freeze_node mws path n) = map_option (freeze_node mws (node_path path ks n)) (node_at ks n)"
  by (induction ks arbitrary: n path) (simp_all add: child_of_freeze split: option.split)

lemma freeze_wf: "node_wf n \<Longrightarrow> node_wf (freeze_node mws path n)"
proof (induction mws path n rule: freeze_node.induct)
  case (1 mws path hs rm co cs ps wc pre nm con isp)
  have "node_wf c \<Longrightarrow> node_wf (freeze_node mws (child_path path ''/*'' (n_param_name c)) c)" if "c \<in> set_option wc" for c
    using "1.IH"(3) that by simp
  with 1 show ?case by (auto simp: comp_def freeze_label_fields)
qed

lemma map_of_keys: "map_of (map (\<lambda>(m, h). (m, f m)) hs) m = map_option (\<lambda>_. f m) (map_of hs m)"
  by (induction hs) auto

lemma freeze_compiled:
  "map_of (n_handlers n) m = Some h \<Longrightarrow>
     map_of (n_compiled (freeze_node mws path n)) m = Some (node_chain mws path (n_route_mws n) m)"
  by (cases n) (auto simp: map_of_keys)

section \<open>Registered routes\<close>

type_synonym ('m, 'h, 'w) registration = "'m \<times> string \<times> 'w list \<times> 'h"

definition router_of :: "('m, 'h, 'w) registration list \<Rightarrow> ('m, 'h, 'w) router" where
  "router_of regs = fold (\<lambda>(m, p, mws, h). router_route m p mws h) regs router_new"

definition path_segments :: "string \<Rightarrow> string list" where
  "path_segments path = map snd (split_path_view (normalize_path_view path))"

definition pattern_keys :: "string \<Rightarrow> parsed_segment list" where
  "pattern_keys pattern = map parse_segment (path_segments pattern)"

definition reg_for :: "parsed_segment list \<Rightarrow> 'm \<Rightarrow> ('m, 'h, 'w) registration \<Rightarrow> bool" where
  "reg_for ks m reg \<longleftrightarrow> map seg_key (pattern_keys (fst (snd reg))) = map seg_key ks \<and> fst reg = m"

definition reg_matches :: "(string \<Rightarrow> string \<Rightarrow> bool) \<Rightarrow> string \<Rightarrow> ('m, 'h, 'w) registration \<Rightarrow> bool" where
  "reg_matches rx path reg \<longleftrightarrow> keys_match rx (pattern_keys (fst (snd reg))) (path_segments path)"

lemma keys_match_key: "keys_match rx (map seg_key ks) xs = keys_match rx ks xs"
  by (induction rx ks xs rule: keys_match.induct) auto

lemma router_of_snoc: "router_of (regs @ [(m, p, mws, h)]) = router_route m p mws h (router_of regs)"
  by (simp add: router_of_def)

lemma handlers_root_new: "n_handlers root_new = []"
  by (simp add: root_new_def)

lemma child_of_root_new: "child_of k root_new = None"
  by (cases k) (simp_all add: root_new_def)

lemma router_of_handler:
  "handler_at ks m (r_root (router_of regs)) = map_option (\<lambda>reg. snd (snd (snd reg))) (List.find (reg_for ks m) (rev regs))"
proof (induction regs rule: rev_induct)
  case Nil
  show ?case by (cases ks) (simp_all add: router_of_def router_new_def handler_at_def handlers_root_new child_of_root_new)
next
  case (snoc reg regs)
  obtain m' p mws h where reg: "reg = (m', p, mws, h)" by (cases reg) auto
  show ?case
    using snoc.IH
    by (auto simp: reg router_of_snoc router_route_def handler_at_insert reg_for_def pattern_keys_def path_segments_def Let_def comp_def)
qed

lemma router_of_wf: "node_wf (r_root (router_of regs)) \<and> \<not> r_frozen (router_of regs)"
proof (induction regs rule: rev_induct)
  case Nil
  then show ?case by (simp add: router_of_def router_new_def root_new_def)
next
  case (snoc reg regs)
  obtain m' p mws h where reg: "reg = (m', p, mws, h)" by (cases reg) auto
  show ?case
    using snoc.IH insert_path_wf [OF set_route_label set_route_wf, of "r_root (router_of regs)"]
    by (simp add: reg router_of_snoc router_route_def Let_def)
qed

text \<open>A resolution of a router that was not frozen yet, in terms of its tree.\<close>

lemma resolve_unfrozen:
  assumes "\<not> r_frozen r" and "node_wf (r_root r)" and "fst (router_resolve rx m path r) = Some rm"
  shows "\<exists>ks n. node_at ks (r_root r) = Some n \<and> keys_match rx ks (path_segments path)
    \<and> map_of (n_handlers n) m = Some (rm_handler rm)
    \<and> rm_middlewares rm = node_chain (r_middlewares r) (node_path [] ks (r_root r)) (n_route_mws n) m"
proof -
  let ?root = "freeze_node (r_middlewares r) [] (r_root r)"
  from assms(1,3) obtain n ps where n:
    "resolve_node rx (normalize_path_view path) (split_path_into 16 (normalize_path_view path)) fm_new ?root = (Some n, ps)"
    "map_of (n_handlers n) m = Some (rm_handler rm)"
    "rm_middlewares rm = (case map_of (n_compiled n) m of Some fs \<Rightarrow> fs | None \<Rightarrow> [])"
    by (auto simp: router_resolve_def router_freeze_def Let_def split: prod.splits option.splits)
  from resolve_sound [OF freeze_wf [OF assms(2)] n(1)] obtain ks where
    ks: "node_at ks ?root = Some n" "keys_match rx ks (path_segments path)"
    by (auto simp: split_agree path_segments_def)
  then obtain n0 where n0: "node_at ks (r_root r) = Some n0"
    "n = freeze_node (r_middlewares r) (node_path [] ks (r_root r)) n0"
    by (auto simp: node_at_freeze)
  with ks n(2,3) freeze_compiled [of n0 m] show ?thesis
    by (intro exI [of _ ks] exI [of _ n0]) (simp add: freeze_own)
qed

section \<open>Properties\<close>

text \<open>
  C20. Soundness of routing: a handler returned for a path is the last one registered for its method
  under some pattern, and that pattern matches the path.
\<close>

theorem router_resolve_sound:
  assumes "fst (router_resolve rx m path (router_of regs)) = Some rm"
  shows "\<exists>p mws. List.find (reg_for (pattern_keys p) m) (rev regs) = Some (m, p, mws, rm_handler rm)
    \<and> reg_matches rx path (m, p, mws, rm_handler rm)"
proof -
  let ?r = "router_of regs"
  from resolve_unfrozen [OF _ _ assms] router_of_wf [of regs] obtain ks n where
    n: "node_at ks (r_root ?r) = Some n" "keys_match rx ks (path_segments path)"
      "map_of (n_handlers n) m = Some (rm_handler rm)" by blast
  then have "handler_at ks m (r_root ?r) = Some (rm_handler rm)" by (simp add: handler_at_def)
  then obtain reg where reg: "List.find (reg_for ks m) (rev regs) = Some reg" "snd (snd (snd reg)) = rm_handler rm"
    by (auto simp: router_of_handler)
  obtain m' p mws h where r: "reg = (m', p, mws, h)" by (cases reg) auto
  have "reg_for ks m reg" using reg(1) by (auto simp: find_Some_iff)
  then have k: "map seg_key (pattern_keys p) = map seg_key ks" "m' = m" by (simp_all add: reg_for_def r)
  then have "List.find (reg_for (pattern_keys p) m) (rev regs) = List.find (reg_for ks m) (rev regs)"
    by (simp add: reg_for_def [abs_def])
  moreover have "keys_match rx (pattern_keys p) (path_segments path)" using n(2) k(1) keys_match_key by metis
  ultimately show ?thesis using reg r k(2) by (intro exI [of _ p] exI [of _ mws]) (auto simp: reg_matches_def)
qed

text \<open>
  C21. Completeness of routing: when some registered pattern matches the path, and each
  pattern that matches has a handler for the method, the request is routed.
\<close>

theorem router_resolve_complete:
  assumes "reg \<in> set regs" and "reg_matches rx path reg"
    and "\<forall>reg \<in> set regs. reg_matches rx path reg \<longrightarrow> (\<exists>reg' \<in> set regs. reg_for (pattern_keys (fst (snd reg))) m reg')"
  shows "fst (router_resolve rx m path (router_of regs)) \<noteq> None"
proof -
  let ?r = "router_of regs" and ?ks = "pattern_keys (fst (snd reg))"
  let ?root = "freeze_node (r_middlewares ?r) [] (r_root ?r)"
  have found: "\<exists>n h. node_at ks (r_root ?r) = Some n \<and> map_of (n_handlers n) m' = Some h"
    if "reg' \<in> set regs" "reg_for ks m' reg'" for ks m' reg'
  proof -
    have "List.find (reg_for ks m') (rev regs) \<noteq> None" using that by (metis find_None_iff set_rev)
    then have "handler_at ks m' (r_root ?r) \<noteq> None" by (simp add: router_of_handler)
    then show ?thesis by (auto simp: handler_at_def split: option.splits)
  qed
  obtain n h where n: "node_at ?ks (r_root ?r) = Some n" "map_of (n_handlers n) (fst reg) = Some h"
    using found [OF assms(1), of ?ks "fst reg"] by (auto simp: reg_for_def)
  have segs: "map snd (split_path_into 16 (normalize_path_view path)) = path_segments path"
    by (simp add: split_agree path_segments_def)
  have "fst (resolve_node rx (normalize_path_view path) (split_path_into 16 (normalize_path_view path)) fm_new ?root) \<noteq> None"
  proof (rule resolve_complete)
    show "node_at ?ks ?root = Some (freeze_node (r_middlewares ?r) (node_path [] ?ks (r_root ?r)) n)"
      by (simp add: node_at_freeze n(1))
    show "n_handlers (freeze_node (r_middlewares ?r) (node_path [] ?ks (r_root ?r)) n) \<noteq> []"
      using n(2) by (auto simp: freeze_own)
    show "keys_match rx ?ks (map snd (split_path_into 16 (normalize_path_view path)))"
      using assms(2) by (simp add: reg_matches_def segs)
  qed
  then obtain r ps where r: "resolve_node rx (normalize_path_view path) (split_path_into 16 (normalize_path_view path)) fm_new ?root = (Some r, ps)"
    by (metis option.exhaust prod.collapse)
  from resolve_sound [OF freeze_wf r] router_of_wf [of regs] obtain ks where
    ks: "node_at ks ?root = Some r" "keys_match rx ks (path_segments path)" "n_handlers r \<noteq> []" by (auto simp: segs)
  then obtain n0 where n0: "node_at ks (r_root ?r) = Some n0" "n_handlers n0 = n_handlers r"
    by (auto simp: node_at_freeze freeze_own)
  obtain m0 h0 where "map_of (n_handlers n0) m0 = Some h0" using ks(3) n0(2)
    by (metis map_of_Cons_code(2) neq_Nil_conv prod.collapse)
  then have "handler_at ks m0 (r_root ?r) = Some h0" using n0(1) by (simp add: handler_at_def)
  then obtain reg1 where reg1: "reg1 \<in> set regs" "reg_for ks m0 reg1"
    unfolding router_of_handler by (auto simp: find_Some_iff) (metis length_rev nth_mem set_rev)
  then have k1: "map seg_key (pattern_keys (fst (snd reg1))) = map seg_key ks" by (simp add: reg_for_def)
  then have "reg_matches rx path reg1" using ks(2) keys_match_key unfolding reg_matches_def by metis
  with assms(3) reg1(1) obtain reg2 where "reg2 \<in> set regs" "reg_for (pattern_keys (fst (snd reg1))) m reg2" by blast
  then have "reg_for ks m reg2" using k1 by (simp add: reg_for_def)
  with found [OF \<open>reg2 \<in> set regs\<close>] n0 obtain h2 where "map_of (n_handlers r) m = Some h2" by fastforce
  then show ?thesis
    using r router_of_wf [of regs] by (simp add: router_resolve_def router_freeze_def Let_def)
qed


text \<open>
  The allocation-free splitter of request paths agrees with the splitter of patterns for every
  inline capacity, and both normalisations of a path agree.
\<close>

theorem path_splitters_agree:
  "split_path_into cap (normalize_path_view path) = split_path_view (normalize_path path)"
  by (simp add: split_agree normalize_agree)

text \<open>Small routers for the examples.\<close>

definition users_regs :: "(string, nat, nat) registration list" where
  "users_regs = [(''GET'', ''/users/me'', [], 1), (''POST'', ''/users/:id'', [7], 2), (''GET'', ''/files/*path'', [], 3)]"

lemmas router_eval = router_of_def router_new_def root_new_def router_route_def normalize_path_view_def
  normalize_path_def split_path_view_def split_from.simps find_from_def parse_segment_def insert_segment_def set_route_def
  is_static_for_def is_param_for_def router_resolve_def router_freeze_def split_path_into_def
  split_into_from.simps push_seg_def node_chain_def mw_applies_def child_path_def try_wildcard_def
  compute_wildcard_slice_def router_use_def backtrack_param_def fm_insert_or_assign_def fm_find_def
  fm_append_def fm_new_def fm_set_pair_def fm_pair_at_def fm_entries_def InlineCap_def fm_at_def

theorem router_resolve_sound_witness:
  "\<exists>p mws. List.find (reg_for (pattern_keys p) ''POST'') (rev users_regs) = Some (''POST'', p, mws, 2)
     \<and> reg_matches (\<lambda>p x. True) ''/users/42'' (''POST'', p, mws, 2 :: nat)"
proof -
  have "map_option rm_handler (fst (router_resolve (\<lambda>p x. True) ''POST'' ''/users/42'' (router_of users_regs))) = Some 2"
    by code_simp
  then obtain rm where rm: "fst (router_resolve (\<lambda>p x. True) ''POST'' ''/users/42'' (router_of users_regs)) = Some rm"
    "rm_handler rm = 2" by auto
  show ?thesis using router_resolve_sound [OF rm(1)] unfolding rm(2) .
qed

theorem router_resolve_complete_witness:
  "fst (router_resolve (\<lambda>p x. True) ''GET'' ''/files/a/b'' (router_of users_regs)) \<noteq> None"
proof (rule router_resolve_complete [of "(''GET'', ''/files/*path'', [], 3)"])
  show "\<forall>reg \<in> set users_regs. reg_matches (\<lambda>p x. True) ''/files/a/b'' reg \<longrightarrow>
      (\<exists>reg' \<in> set users_regs. reg_for (pattern_keys (fst (snd reg))) ''GET'' reg')"
    by (simp add: users_regs_def router_eval reg_matches_def reg_for_def pattern_keys_def path_segments_def)
qed (simp_all add: users_regs_def router_eval reg_matches_def pattern_keys_def path_segments_def)



text \<open>
  C33. Backtracking out of a parameter removes its name altogether: when an inner \<^verbatim>\<open>:id\<close>
  is tried and given up, the value of the outer \<^verbatim>\<open>:id\<close> of the route that finally matches is lost.
\<close>

theorem backtracking_loses_outer_param:
  "map_option (\<lambda>rm. (rm_handler rm, fm_at ''id'' (rm_params rm), fm_at ''rest'' (rm_params rm)))
     (fst (router_resolve (\<lambda>p x. True) ''GET'' ''/1/2''
        (router_of [(''GET'', ''/:id/:id/x'', [] :: nat list, 1 :: nat), (''GET'', ''/:id/*rest'', [], 2)])))
   = Some (2, None, Some ''2'')"
  by code_simp

text \<open>
  A middleware registered for \<^verbatim>\<open>/\<close> does not run for the root route, whose path is compiled as
  the empty string, although the normalised path of that route starts with \<^verbatim>\<open>/\<close>.
\<close>

theorem root_scope_misses_root:
  "map_option rm_middlewares (fst (router_resolve (\<lambda>p x. True) ''GET'' ''/''
     (router_use ''/'' (9 :: nat) (router_of [(''GET'', ''/'', [], 1 :: nat)])))) = Some []"
  by code_simp

end
