(* ===== verification/Http1_Codec.thy ===== *)
theory Http1_Codec
  imports Flat_Map "HOL-Library.Sublist"
begin

text \<open>
  The HTTP/1.x codec: \<^verbatim>\<open>src/include/wavex/protos/http/http1codec.hpp\<close>.  Views into the buffer are
  their text.  The output parameters of the parsers are passed in and returned updated, on error
  paths too.  \<^verbatim>\<open>std::size_t\<close> is 64 bits wide: the places where a chunk size from the peer is
  added to a cursor wrap around, so the two loops over chunks may run forever and are partial functions whose value
  \<open>None\<close> is \<open>does not return\<close>.
\<close>

section \<open>Characters and numbers\<close>

abbreviation CR :: char where "CR \<equiv> CHR 0x0D"
abbreviation LF :: char where "LF \<equiv> CHR 0x0A"
abbreviation TAB :: char where "TAB \<equiv> CHR 0x09"
abbreviation CRLF :: string where "CRLF \<equiv> [CR, LF]"

definition ascii_lower :: "char \<Rightarrow> char" where
  "ascii_lower c = (if 65 \<le> code c \<and> code c \<le> 90 then char_of (or (code c) 0x20) else c)"

definition is_equal :: "string \<Rightarrow> string \<Rightarrow> bool" where
  "is_equal a b \<longleftrightarrow> length a = length b \<and> list_all2 (\<lambda>x y. ascii_lower x = ascii_lower y) a b"

lemma is_equal_iff: "is_equal a b \<longleftrightarrow> map ascii_lower a = map ascii_lower b"
  by (auto simp: is_equal_def list_all2_conv_all_nth list_eq_iff_nth_eq)

definition is_ows :: "char \<Rightarrow> bool" where
  "is_ows c \<longleftrightarrow> c = CHR '' '' \<or> c = TAB"

definition strip_ows :: "string \<Rightarrow> string" where
  "strip_ows sv = rev (dropWhile is_ows (rev (dropWhile is_ows sv)))"

text \<open>The digits of \<^verbatim>\<open>std::to_chars\<close> and \<^verbatim>\<open>std::from_chars\<close>.\<close>

definition digit_char :: "nat \<Rightarrow> char" where
  "digit_char d = (if d < 10 then char_of (48 + d) else char_of (87 + d))"

definition digit_val :: "char \<Rightarrow> nat option" where
  "digit_val c =
     (if 48 \<le> code c \<and> code c \<le> 57 then Some (code c - 48)
      else if 97 \<le> code c \<and> code c \<le> 122 then Some (code c - 87)
      else if 65 \<le> code c \<and> code c \<le> 90 then Some (code c - 55)
      else None)"

definition is_digit :: "nat \<Rightarrow> char \<Rightarrow> bool" where
  "is_digit base c \<longleftrightarrow> (case digit_val c of None \<Rightarrow> False | Some d \<Rightarrow> d < base)"

function to_chars :: "nat \<Rightarrow> nat \<Rightarrow> string" where
  "to_chars base n =
     (if base < 2 \<or> n < base then [digit_char n] else to_chars base (n div base) @ [digit_char (n mod base)])"
  by pat_completeness auto

termination by (relation "measure snd") auto

declare to_chars.simps [simp del]

definition digits_val :: "nat \<Rightarrow> string \<Rightarrow> nat" where
  "digits_val base ds = foldl (\<lambda>v c. v * base + the (digit_val c)) 0 ds"

text \<open>
  \<^verbatim>\<open>std::from_chars\<close> of an unsigned type with \<open>lim\<close> values: the longest prefix of digits,
  trailing characters ignored; \<open>None\<close> is an error code.
\<close>

definition from_chars :: "nat \<Rightarrow> nat \<Rightarrow> string \<Rightarrow> nat option" where
  "from_chars base lim s =
     (let ds = takeWhile (is_digit base) s; v = digits_val base ds
      in if ds = [] \<or> v \<ge> lim then None else Some v)"

definition SIZE_MOD :: nat where "SIZE_MOD = 2 ^ 64"

text \<open>\<^verbatim>\<open>c - '0'\<close> of a signed \<^verbatim>\<open>char\<close>, and \<^verbatim>\<open>static_cast<char>('0' + v)\<close>.\<close>

definition char_minus_0 :: "char \<Rightarrow> int" where
  "char_minus_0 c = (if code c \<ge> 128 then int (code c) - 256 else int (code c)) - 48"

definition char_plus_0 :: "int \<Rightarrow> char" where
  "char_plus_0 v = char_of (nat ((48 + v) mod 256))"

section \<open>Messages\<close>

datatype http_method = M_GET | M_POST | M_PUT | M_DELETE | M_HEAD | M_OPTIONS | M_PATCH | M_TRACE | M_CONNECT | M_QUERY
  | M_UNKNOWN

definition method_to_string :: "http_method \<Rightarrow> string" where
  "method_to_string m = (case m of M_GET \<Rightarrow> ''GET'' | M_POST \<Rightarrow> ''POST'' | M_PUT \<Rightarrow> ''PUT'' | M_DELETE \<Rightarrow> ''DELETE''
     | M_HEAD \<Rightarrow> ''HEAD'' | M_OPTIONS \<Rightarrow> ''OPTIONS'' | M_PATCH \<Rightarrow> ''PATCH'' | M_TRACE \<Rightarrow> ''TRACE''
     | M_CONNECT \<Rightarrow> ''CONNECT'' | M_QUERY \<Rightarrow> ''QUERY'' | M_UNKNOWN \<Rightarrow> ''UNKNOWN'')"

definition method_from_string :: "string \<Rightarrow> http_method" where
  "method_from_string m =
     (if m = [] then M_UNKNOWN
      else let c = hd m in
        if c = CHR ''G'' then (if m = ''GET'' then M_GET else M_UNKNOWN)
        else if c = CHR ''P'' then
          (if m = ''POST'' then M_POST else if m = ''PUT'' then M_PUT else if m = ''PATCH'' then M_PATCH else M_UNKNOWN)
        else if c = CHR ''D'' then (if m = ''DELETE'' then M_DELETE else M_UNKNOWN)
        else if c = CHR ''H'' then (if m = ''HEAD'' then M_HEAD else M_UNKNOWN)
        else if c = CHR ''O'' then (if m = ''OPTIONS'' then M_OPTIONS else M_UNKNOWN)
        else if c = CHR ''T'' then (if m = ''TRACE'' then M_TRACE else M_UNKNOWN)
        else if c = CHR ''C'' then (if m = ''CONNECT'' then M_CONNECT else M_UNKNOWN)
        else if c = CHR ''Q'' then (if m = ''QUERY'' then M_QUERY else M_UNKNOWN)
        else M_UNKNOWN)"

type_synonym header = "string \<times> string"

record message_base =
  headers :: "header list"
  body :: string
  version_major :: int
  version_minor :: int

record request = message_base +
  target :: string
  method_type :: http_method

record response = message_base +
  status_text :: string
  status_code :: nat

definition request_new :: request where
  "request_new = \<lparr>headers = [], body = [], version_major = 1, version_minor = 1, target = [], method_type = M_UNKNOWN\<rparr>"

definition response_new :: response where
  "response_new = \<lparr>headers = [], body = [], version_major = 1, version_minor = 1, status_text = ''OK'', status_code = 200\<rparr>"

definition get_header :: "string \<Rightarrow> header list \<Rightarrow> string option" where
  "get_header name hs = map_option snd (List.find (\<lambda>h. is_equal (fst h) name) hs)"

definition status_text_for :: "nat \<Rightarrow> string" where
  "status_text_for c =
     (if c = 100 then ''Continue'' else if c = 101 then ''Switching Protocols''
      else if c = 200 then ''OK'' else if c = 201 then ''Created'' else if c = 204 then ''No Content''
      else if c = 301 then ''Moved Permanently'' else if c = 302 then ''Found'' else if c = 303 then ''See Other''
      else if c = 304 then ''Not Modified'' else if c = 307 then ''Temporary Redirect'' else if c = 308 then ''Permanent Redirect''
      else if c = 400 then ''Bad Request'' else if c = 401 then ''Unauthorized'' else if c = 403 then ''Forbidden''
      else if c = 404 then ''Not Found'' else if c = 405 then ''Method Not Allowed'' else if c = 408 then ''Request Timeout''
      else if c = 413 then ''Payload Too Large'' else if c = 426 then ''Upgrade Required'' else if c = 429 then ''Too Many Requests''
      else if c = 500 then ''Internal Server Error'' else if c = 501 then ''Not Implemented'' else if c = 502 then ''Bad Gateway''
      else if c = 503 then ''Service Unavailable'' else ''Unknown'')"

section \<open>Parser\<close>

datatype parse_result = Success | Incomplete | Error

text \<open>\<^verbatim>\<open>find_next_line\<close>: the end of the line and the start of the next.\<close>

definition find_next_line :: "string \<Rightarrow> nat \<Rightarrow> (nat \<times> nat) option" where
  "find_next_line buffer cursor =
     (case find_from LF buffer cursor of
        None \<Rightarrow> None
      | Some pos \<Rightarrow> Some (if pos > cursor \<and> buffer ! (pos - 1) = CR then pos - 1 else pos, pos + 1))"

lemma find_next_line_progress:
  "find_next_line buffer cursor = Some (e, n) \<Longrightarrow> cursor \<le> e \<and> e < n \<and> cursor < n \<and> n \<le> length buffer"
  using find_from_Some(1,2) [of LF buffer cursor]
  by (auto simp: find_next_line_def split: option.splits if_splits)

function parse_headers :: "string \<Rightarrow> nat \<Rightarrow> header list \<Rightarrow> parse_result \<times> nat \<times> header list" where
  "parse_headers buffer cursor hs =
     (if \<not> cursor < length buffer then (Incomplete, cursor, hs)
      else case find_next_line buffer cursor of
             None \<Rightarrow> (Incomplete, cursor, hs)
           | Some (line_end, next_cursor) \<Rightarrow>
               if line_end = cursor then (Success, next_cursor, hs)
               else let line = substr buffer cursor (line_end - cursor) in
                 (case find_from (CHR '':'') line 0 of
                    None \<Rightarrow> (Error, cursor, hs)
                  | Some colon \<Rightarrow>
                      parse_headers buffer next_cursor (hs @ [(take colon line, strip_ows (drop (colon + 1) line))])))"
  by pat_completeness auto

termination
  by (relation "measure (\<lambda>(buffer, cursor, hs). length buffer - cursor)")
    (auto dest: find_next_line_progress)

declare parse_headers.simps [simp del]

text \<open>The text of a chunk-size line without its extension.\<close>

definition size_text :: "string \<Rightarrow> string" where
  "size_text line = strip_ows (case find_from (CHR '';'') line 0 of None \<Rightarrow> line | Some semi \<Rightarrow> take semi line)"

definition skip_crlf :: "string \<Rightarrow> nat \<Rightarrow> nat" where
  "skip_crlf buffer cursor =
     (let cursor = (if cursor < length buffer \<and> buffer ! cursor = CR then cursor + 1 else cursor)
      in if cursor < length buffer \<and> buffer ! cursor = LF then cursor + 1 else cursor)"

text \<open>The loop of \<^verbatim>\<open>extract_chunked_body\<close>: the result and, on success, where the body ends.\<close>

partial_function (option) chunk_loop :: "string \<Rightarrow> nat \<Rightarrow> (parse_result \<times> nat) option" where
  "chunk_loop buffer cursor =
     (if \<not> cursor < length buffer then Some (Incomplete, cursor)
      else case find_next_line buffer cursor of
             None \<Rightarrow> Some (Incomplete, cursor)
           | Some (line_end, next_cursor) \<Rightarrow>
               let size_sv = size_text (substr buffer cursor (line_end - cursor)) in
               if size_sv = [] then chunk_loop buffer next_cursor
               else (case from_chars 16 SIZE_MOD size_sv of
                       None \<Rightarrow> Some (Error, cursor)
                     | Some chunk_size \<Rightarrow>
                         if chunk_size = 0 then
                           Some (Success, if next_cursor < length buffer
                                          then (case find_next_line buffer next_cursor of
                                                  None \<Rightarrow> next_cursor | Some (e, after_crlf) \<Rightarrow> after_crlf)
                                          else next_cursor)
                         else if (next_cursor + chunk_size) mod SIZE_MOD > length buffer then Some (Incomplete, next_cursor)
                         else chunk_loop buffer (skip_crlf buffer ((next_cursor + chunk_size) mod SIZE_MOD))))"

definition extract_chunked_body ::
    "string \<Rightarrow> nat \<Rightarrow> 'a message_base_scheme \<Rightarrow> (parse_result \<times> 'a message_base_scheme \<times> nat) option" where
  "extract_chunked_body buffer cursor msg =
     (case chunk_loop buffer cursor of
        None \<Rightarrow> None
      | Some (Success, e) \<Rightarrow> Some (Success, msg\<lparr>body := substr buffer cursor (e - cursor)\<rparr>, e)
      | Some (r, e) \<Rightarrow> Some (r, msg, 0))"

text \<open>The fused scan for the two headers that decide the length of the body.\<close>

fun scan_te_cl :: "header list \<Rightarrow> string option \<Rightarrow> string option \<Rightarrow> string option \<times> string option" where
  "scan_te_cl [] te cl = (te, cl)"
| "scan_te_cl ((n, v) # hs) te cl =
     (let (te, cl) =
            (if te = None \<and> is_equal n ''Transfer-Encoding'' then (Some v, cl)
             else if cl = None \<and> is_equal n ''Content-Length'' then (te, Some v)
             else (te, cl))
      in if te \<noteq> None \<and> cl \<noteq> None then (te, cl) else scan_te_cl hs te cl)"

definition extract_body ::
    "string \<Rightarrow> nat \<Rightarrow> 'a message_base_scheme \<Rightarrow> bool \<Rightarrow> (parse_result \<times> 'a message_base_scheme \<times> nat) option" where
  "extract_body buffer cursor msg is_request =
     (let (te, cl) = scan_te_cl (headers msg) None None in
      if (case te of None \<Rightarrow> False | Some v \<Rightarrow> sublist ''chunked'' v) then extract_chunked_body buffer cursor msg
      else
        case (case cl of
                Some v \<Rightarrow> from_chars 10 SIZE_MOD v
              | None \<Rightarrow> Some (if is_request then 0 else length buffer - cursor)) of
          None \<Rightarrow> Some (Error, msg, 0)
        | Some content_length \<Rightarrow>
            if length buffer - cursor < content_length then Some (Incomplete, msg, 0)
            else Some (Success, msg\<lparr>body := substr buffer cursor content_length\<rparr>, cursor + content_length))"

definition parse_request :: "string \<Rightarrow> request \<Rightarrow> (parse_result \<times> request \<times> nat) option" where
  "parse_request buffer req =
     (let req = req\<lparr>headers := []\<rparr> in
      case find_next_line buffer 0 of
        None \<Rightarrow> Some (Incomplete, req, 0)
      | Some (rl_end, cursor) \<Rightarrow>
          let rl = take rl_end buffer in
          (case find_from (CHR '' '') rl 0 of
             None \<Rightarrow> Some (Error, req, 0)
           | Some sp1 \<Rightarrow>
               (case find_from (CHR '' '') rl (sp1 + 1) of
                  None \<Rightarrow> Some (Error, req, 0)
                | Some sp2 \<Rightarrow>
                    let req = req\<lparr>method_type := method_from_string (take sp1 rl),
                                  target := substr rl (sp1 + 1) (sp2 - sp1 - 1)\<rparr>;
                        ver = drop (sp2 + 1) rl in
                    if length ver < 8 \<or> \<not> prefix ''HTTP/'' ver then Some (Error, req, 0)
                    else let req = req\<lparr>version_major := char_minus_0 (ver ! 5), version_minor := char_minus_0 (ver ! 7)\<rparr> in
                      (case parse_headers buffer cursor [] of
                         (r, cursor, hs) \<Rightarrow>
                           let req = req\<lparr>headers := hs\<rparr> in
                           if r \<noteq> Success then Some (r, req, 0)
                           else extract_body buffer cursor req True))))"

definition parse_response :: "string \<Rightarrow> response \<Rightarrow> (parse_result \<times> response \<times> nat) option" where
  "parse_response buffer res =
     (let res = res\<lparr>headers := []\<rparr> in
      case find_next_line buffer 0 of
        None \<Rightarrow> Some (Incomplete, res, 0)
      | Some (sl_end, cursor) \<Rightarrow>
          let sl = take sl_end buffer in
          if length sl < 12 \<or> \<not> prefix ''HTTP/'' sl then Some (Error, res, 0)
          else let res = res\<lparr>version_major := char_minus_0 (sl ! 5), version_minor := char_minus_0 (sl ! 7)\<rparr> in
            (case find_from (CHR '' '') sl 0 of
               None \<Rightarrow> Some (Error, res, 0)
             | Some sp1 \<Rightarrow>
                 let sp2 = find_from (CHR '' '') sl (sp1 + 1);
                     code_sv = (case sp2 of Some p \<Rightarrow> substr sl (sp1 + 1) (p - sp1 - 1) | None \<Rightarrow> drop (sp1 + 1) sl) in
                 (case from_chars 10 (2 ^ 32) code_sv of
                    None \<Rightarrow> Some (Error, res, 0)
                  | Some c \<Rightarrow>
                      let res = res\<lparr>status_code := c\<rparr>;
                          res = (case sp2 of Some p \<Rightarrow> res\<lparr>status_text := drop (p + 1) sl\<rparr> | None \<Rightarrow> res) in
                      (case parse_headers buffer cursor [] of
                         (r, cursor, hs) \<Rightarrow>
                           let res = res\<lparr>headers := hs\<rparr> in
                           if r \<noteq> Success then Some (r, res, 0)
                           else if (100 \<le> c \<and> c < 200) \<or> c = 204 \<or> c = 304
                           then Some (Success, res\<lparr>body := []\<rparr>, cursor)
                           else extract_body buffer cursor res False))))"

section \<open>Encoder\<close>

definition header_lines :: "header list \<Rightarrow> string" where
  "header_lines hs = concat (map (\<lambda>(n, v). n @ '': '' @ v @ CRLF) hs)"

definition has_content_length :: "header list \<Rightarrow> bool" where
  "has_content_length hs \<longleftrightarrow> list_ex (\<lambda>(n, v). is_equal n ''Content-Length'') hs"

definition content_length_line :: "header list \<Rightarrow> string \<Rightarrow> string" where
  "content_length_line hs b =
     (if \<not> has_content_length hs \<and> b \<noteq> [] then ''Content-Length: '' @ to_chars 10 (length b) @ CRLF else [])"

definition serialize_response :: "response \<Rightarrow> string" where
  "serialize_response res =
     ''HTTP/'' @ [char_plus_0 (version_major res), CHR ''.'', char_plus_0 (version_minor res), CHR '' '']
     @ to_chars 10 (status_code res) @ '' '' @ status_text res @ CRLF
     @ header_lines (headers res) @ content_length_line (headers res) (body res) @ CRLF @ body res"

definition serialize_request :: "request \<Rightarrow> string" where
  "serialize_request req =
     method_to_string (method_type req) @ '' '' @ target req @ '' HTTP/''
     @ [char_plus_0 (version_major req), CHR ''.'', char_plus_0 (version_minor req)] @ CRLF
     @ header_lines (headers req) @ content_length_line (headers req) (body req) @ CRLF @ body req"

definition format_terminal_chunk :: string where
  "format_terminal_chunk = ''0'' @ CRLF @ CRLF"

definition format_chunk_header :: "nat \<Rightarrow> string" where
  "format_chunk_header n = to_chars 16 n @ CRLF"

definition format_chunk :: "string \<Rightarrow> string" where
  "format_chunk d = (if d = [] then format_terminal_chunk else to_chars 16 (length d) @ CRLF @ d @ CRLF)"

definition format_chunk_to :: "string \<Rightarrow> string \<Rightarrow> string" where
  "format_chunk_to out d =
     (if d = [] then out @ format_terminal_chunk else out @ to_chars 16 (length d) @ CRLF @ d @ CRLF)"

section \<open>Decoder\<close>

partial_function (option) dechunk_loop :: "string \<Rightarrow> nat \<Rightarrow> string \<Rightarrow> string option" where
  "dechunk_loop raw cursor out =
     (if \<not> cursor < length raw then Some out
      else case find_next_line raw cursor of
             None \<Rightarrow> Some (out @ drop cursor raw)
           | Some (line_end, next_cursor) \<Rightarrow>
               let size_sv = size_text (substr raw cursor (line_end - cursor)) in
               if size_sv = [] then dechunk_loop raw next_cursor out
               else (case from_chars 16 SIZE_MOD size_sv of
                       None \<Rightarrow> Some (out @ drop cursor raw)
                     | Some chunk_size \<Rightarrow>
                         if chunk_size = 0 then Some out
                         else if (next_cursor + chunk_size) mod SIZE_MOD > length raw
                         then Some (out @ drop next_cursor raw)
                         else dechunk_loop raw (skip_crlf raw ((next_cursor + chunk_size) mod SIZE_MOD))
                                (out @ substr raw next_cursor chunk_size)))"

definition dechunk :: "string \<Rightarrow> string option" where
  "dechunk raw = dechunk_loop raw 0 []"

end
