(* ===== verification/Http1_Proofs.thy ===== *)
theory Http1_Proofs
  imports Http1_Codec
begin

text \<open>
  Correctness of the HTTP/1.x codec: numbers and lines, the round trips of requests,
  responses and chunked bodies with exact accounting of the octets consumed, termination of the parser when no
  chunk size wraps around, and what happens when one does.
\<close>

section \<open>Numbers\<close>

lemma digit_val_char: "d < 16 \<Longrightarrow> digit_val (digit_char d) = Some d"
  by (auto simp: digit_val_def digit_char_def of_char_of)

lemma is_digit_char: "d < base \<Longrightarrow> base \<le> 16 \<Longrightarrow> is_digit base (digit_char d)"
  by (simp add: is_digit_def digit_val_char)

lemma to_chars_digits: "2 \<le> base \<Longrightarrow> base \<le> 16 \<Longrightarrow> c \<in> set (to_chars base n) \<Longrightarrow> is_digit base c"
proof (induction base n rule: to_chars.induct)
  case (1 base n)
  show ?case
    using 1 by (cases "n < base") (auto simp: to_chars.simps [of base n] is_digit_char)
qed

lemma to_chars_nonempty: "to_chars base n \<noteq> []"
  by (subst to_chars.simps) simp

lemma digits_val_snoc: "digits_val base (ds @ [c]) = digits_val base ds * base + the (digit_val c)"
  by (simp add: digits_val_def)

lemma digits_val_to_chars: "2 \<le> base \<Longrightarrow> base \<le> 16 \<Longrightarrow> digits_val base (to_chars base n) = n"
proof (induction base n rule: to_chars.induct)
  case (1 base n)
  show ?case
  proof (cases "n < base")
    case True
    with 1 show ?thesis by (simp add: to_chars.simps [of base n] digits_val_def digit_val_char)
  next
    case False
    have "n mod base < base" using 1 by simp
    then have "n mod base < 16" using 1 by linarith
    then have "digit_val (digit_char (n mod base)) = Some (n mod base)" by (rule digit_val_char)
    then show ?thesis
      using False 1 by (simp add: to_chars.simps [of base n] digits_val_snoc)
  qed
qed

lemma from_to_chars:
  assumes "2 \<le> base" "base \<le> 16" and "n < lim" and "rest = [] \<or> \<not> is_digit base (hd rest)"
  shows "from_chars base lim (to_chars base n @ rest) = Some n"
proof -
  have "takeWhile (is_digit base) (to_chars base n @ rest) = to_chars base n"
    using assms(4) to_chars_digits [OF assms(1,2)] by (cases rest) (auto simp: takeWhile_append)
  then show ?thesis
    using assms(3) by (simp add: from_chars_def digits_val_to_chars [OF assms(1,2)] to_chars_nonempty)
qed

lemma from_to_chars_end:
  "2 \<le> base \<Longrightarrow> base \<le> 16 \<Longrightarrow> n < lim \<Longrightarrow> from_chars base lim (to_chars base n) = Some n"
  using from_to_chars [of base n lim "[]"] by simp

section \<open>Lines\<close>

lemma find_next_line_crlf:
  assumes "drop c buf = line @ CRLF @ rest" and "LF \<notin> set line"
  shows "find_next_line buf c = Some (c + length line, c + length line + 2)"
proof -
  have "find_from LF buf c = Some (c + length (line @ [CR]))"
    by (rule find_from_drop [of _ _ _ _ rest]) (use assms in simp_all)
  moreover have "buf ! (c + length line) = CR"
    using assms(1) by (metis append_Cons nth_append_length nth_drop linorder_not_less nle_le drop_eq_Nil append_is_Nil_conv list.distinct(1))
  ultimately show ?thesis by (simp add: find_next_line_def)
qed

lemma substr_at: "drop c buf = x @ rest \<Longrightarrow> substr buf c (length x) = x"
  by simp

lemma drop_after_at: "drop c buf = x @ rest \<Longrightarrow> drop (c + length x) buf = rest"
  by (metis append_eq_conv_conj drop_drop add.commute)

text \<open>Optional whitespace.\<close>

definition ows_free :: "string \<Rightarrow> bool" where
  "ows_free v \<longleftrightarrow> v = [] \<or> (\<not> is_ows (hd v) \<and> \<not> is_ows (last v))"

lemma strip_ows_id: "ows_free v \<Longrightarrow> strip_ows v = v"
proof (cases "v = []")
  case False
  assume "ows_free v"
  have front: "dropWhile is_ows xs = xs" if "xs \<noteq> []" "\<not> is_ows (hd xs)" for xs
    using that by (cases xs) simp_all
  have "dropWhile is_ows v = v" "dropWhile is_ows (rev v) = rev v"
    using \<open>ows_free v\<close> False by (auto simp: ows_free_def hd_rev intro!: front)
  then show ?thesis by (simp add: strip_ows_def)
qed (simp add: strip_ows_def)

lemma strip_ows_space: "strip_ows (CHR '' '' # v) = strip_ows v"
  by (simp add: strip_ows_def is_ows_def)

definition header_ok :: "header \<Rightarrow> bool" where
  "header_ok h \<longleftrightarrow> CHR '':'' \<notin> set (fst h) \<and> LF \<notin> set (fst h) \<and> LF \<notin> set (snd h) \<and> ows_free (snd h)"

lemma find_colon: "CHR '':'' \<notin> set n \<Longrightarrow> find_from (CHR '':'') (n @ '': '' @ v) 0 = Some (length n)"
  using find_from_drop [of 0 "n @ '': '' @ v" n "CHR '':''" "CHR '' '' # v"] by simp

lemma header_lines_Cons: "header_lines ((n, v) # hs) = (n @ '': '' @ v) @ CRLF @ header_lines hs"
  by (simp add: header_lines_def)

lemma parse_headers_lines:
  "drop c buf = header_lines hs @ CRLF @ rest \<Longrightarrow> list_all header_ok hs \<Longrightarrow>
     parse_headers buf c acc = (Success, c + length (header_lines hs) + 2, acc @ hs)"
proof (induction hs arbitrary: c acc)
  case Nil
  have "c < length buf" using Nil(1) by (metis append_is_Nil_conv drop_all linorder_not_less list.distinct(1))
  moreover have "find_next_line buf c = Some (c, c + 2)"
    using find_next_line_crlf [of c buf "[]" rest] Nil(1) by (simp add: header_lines_def)
  ultimately show ?case by (simp add: parse_headers.simps [of buf c] header_lines_def)
next
  case (Cons h hs)
  obtain n v where h: "h = (n, v)" by fastforce
  let ?line = "n @ '': '' @ v"
  have ok: "CHR '':'' \<notin> set n" "LF \<notin> set ?line" "ows_free v" using Cons.prems(2) by (auto simp: h header_ok_def)
  have d: "drop c buf = ?line @ CRLF @ header_lines hs @ CRLF @ rest" using Cons.prems(1) by (simp add: h header_lines_Cons)
  have c: "c < length buf" using d by (metis append_is_Nil_conv drop_all linorder_not_less list.distinct(1))
  note fl = find_next_line_crlf [OF d ok(2)]
  have line: "substr buf c (length ?line) = ?line" using d by (rule substr_at)
  have next_d: "drop (c + length ?line + 2) buf = header_lines hs @ CRLF @ rest"
    using drop_after_at [of c buf "?line @ CRLF" "header_lines hs @ CRLF @ rest"] d by simp
  have "parse_headers buf c acc = parse_headers buf (c + length ?line + 2) (acc @ [(n, v)])"
    using c fl line find_colon [OF ok(1), of v]
    by (simp add: parse_headers.simps [of buf c] strip_ows_space strip_ows_id [OF ok(3)])
  also have "\<dots> = (Success, c + length (header_lines (h # hs)) + 2, acc @ h # hs)"
    using Cons.IH [OF next_d] Cons.prems(2) by (simp add: h header_lines_Cons)
  finally show ?case .
qed

section \<open>Deciding headers\<close>

lemma is_equal_length: "is_equal a b \<Longrightarrow> length a = length b"
  by (simp add: is_equal_def)

lemma scan_te_cl_eq:
  "scan_te_cl hs te cl =
     (if te \<noteq> None then te else get_header ''Transfer-Encoding'' hs,
      if cl \<noteq> None then cl else get_header ''Content-Length'' hs)"
proof (induction hs arbitrary: te cl)
  case (Cons h hs)
  obtain n v where h: "h = (n, v)" by fastforce
  have "\<not> (is_equal n ''Transfer-Encoding'' \<and> is_equal n ''Content-Length'')"
    by (auto dest!: is_equal_length)
  with Cons.IH show ?case by (auto simp: h get_header_def)
qed (simp add: get_header_def)

lemma get_header_append:
  "get_header name (hs @ hs') = (case get_header name hs of Some v \<Rightarrow> Some v | None \<Rightarrow> get_header name hs')"
  by (induction hs) (auto simp: get_header_def)

lemma has_content_length_iff: "has_content_length hs \<longleftrightarrow> get_header ''Content-Length'' hs \<noteq> None"
  by (auto simp: has_content_length_def get_header_def find_None_iff list_ex_iff split: prod.splits)

text \<open>The header that the encoder adds.\<close>

definition added_length :: "header list \<Rightarrow> string \<Rightarrow> header list" where
  "added_length hs b =
     (if \<not> has_content_length hs \<and> b \<noteq> [] then [(''Content-Length'', to_chars 10 (length b))] else [])"

lemma content_length_line_header: "content_length_line hs b = header_lines (added_length hs b)"
  by (simp add: content_length_line_def added_length_def header_lines_def)

lemma header_lines_append: "header_lines (hs @ hs') = header_lines hs @ header_lines hs'"
  by (simp add: header_lines_def)

lemma is_digit_10: "is_digit 10 c \<Longrightarrow> \<not> is_ows c \<and> c \<noteq> LF"
  by (auto simp: is_digit_def digit_val_def is_ows_def split: if_splits)

lemma is_digit_16: "is_digit 16 c \<Longrightarrow> \<not> is_ows c \<and> c \<noteq> LF \<and> c \<noteq> CHR '';''"
  by (auto simp: is_digit_def digit_val_def is_ows_def split: if_splits)

lemma added_length_ok: "list_all header_ok (added_length hs b)"
proof -
  have "is_digit 10 c" if "c \<in> set (to_chars 10 (length b))" for c using to_chars_digits [OF _ _ that] by simp
  moreover have "hd (to_chars 10 (length b)) \<in> set (to_chars 10 (length b))" "last (to_chars 10 (length b)) \<in> set (to_chars 10 (length b))"
    using to_chars_nonempty by simp_all
  ultimately show ?thesis
    using is_digit_10 by (fastforce simp: added_length_def header_ok_def ows_free_def)
qed

text \<open>A message whose headers announce its body by length.\<close>

definition length_announced :: "header list \<Rightarrow> string \<Rightarrow> bool" where
  "length_announced hs b \<longleftrightarrow>
     (case get_header ''Transfer-Encoding'' hs of None \<Rightarrow> True | Some v \<Rightarrow> \<not> sublist ''chunked'' v)
     \<and> (case get_header ''Content-Length'' hs of None \<Rightarrow> True | Some v \<Rightarrow> from_chars 10 SIZE_MOD v = Some (length b))
     \<and> length b < SIZE_MOD"

lemma extract_announced:
  assumes "length_announced hs b" and "drop c buf = b @ rest" and "headers msg = hs @ added_length hs b"
    and "is_request \<or> has_content_length hs \<or> b \<noteq> [] \<or> rest = []"
  shows "extract_body buf c msg is_request = Some (Success, msg\<lparr>body := b\<rparr>, c + length b)"
proof -
  have te: "get_header ''Transfer-Encoding'' (added_length hs b) = None"
    by (auto simp: added_length_def get_header_def is_equal_def)
  have cl: "get_header ''Content-Length'' (added_length hs b) =
      (if \<not> has_content_length hs \<and> b \<noteq> [] then Some (to_chars 10 (length b)) else None)"
    by (simp add: added_length_def get_header_def is_equal_iff)
  have len: "length buf - c = length b + length rest" using arg_cong [OF assms(2), of length] by simp
  have n: "(case get_header ''Content-Length'' (headers msg) of Some v \<Rightarrow> from_chars 10 SIZE_MOD v
      | None \<Rightarrow> Some (if is_request then 0 else length buf - c)) = Some (length b)"
    using assms(1,4) len by (auto simp: assms(3) get_header_append cl length_announced_def has_content_length_iff from_to_chars_end
        split: option.splits)
  have chunk: "\<not> (case get_header ''Transfer-Encoding'' (headers msg) of None \<Rightarrow> False | Some v \<Rightarrow> sublist ''chunked'' v)"
    using assms(1) by (auto simp: assms(3) get_header_append te length_announced_def split: option.splits)
  have b: "substr buf c (length b) = b" using assms(2) by (rule substr_at)
  show ?thesis
    using n chunk len b by (simp add: extract_body_def scan_te_cl_eq split: option.splits)
qed

section \<open>Requests\<close>

definition digit_ok :: "int \<Rightarrow> bool" where
  "digit_ok v \<longleftrightarrow> 0 \<le> v \<and> v \<le> 9"

lemma version_char: "digit_ok v \<Longrightarrow> char_minus_0 (char_plus_0 v) = v \<and> char_plus_0 v \<noteq> LF"
proof -
  assume "digit_ok v"
  then have "v = 0 \<or> v = 1 \<or> v = 2 \<or> v = 3 \<or> v = 4 \<or> v = 5 \<or> v = 6 \<or> v = 7 \<or> v = 8 \<or> v = 9"
    unfolding digit_ok_def by arith
  then have v: "char_minus_0 (char_plus_0 v) = v" by (auto simp: char_minus_0_def char_plus_0_def of_char_of)
  moreover have "char_plus_0 v \<noteq> LF"
  proof
    assume "char_plus_0 v = LF"
    with v have "v = -38" by (simp add: char_minus_0_def)
    with \<open>digit_ok v\<close> show False by (simp add: digit_ok_def)
  qed
  ultimately show ?thesis by simp
qed

lemma method_roundtrip: "m \<noteq> M_UNKNOWN \<Longrightarrow> method_from_string (method_to_string m) = m"
  by (cases m) (simp_all add: method_from_string_def method_to_string_def)

lemma method_text: "CHR '' '' \<notin> set (method_to_string m) \<and> LF \<notin> set (method_to_string m)"
  by (cases m) (simp_all add: method_to_string_def)

definition request_ok :: "request \<Rightarrow> bool" where
  "request_ok req \<longleftrightarrow> method_type req \<noteq> M_UNKNOWN \<and> CHR '' '' \<notin> set (target req) \<and> LF \<notin> set (target req)
     \<and> digit_ok (version_major req) \<and> digit_ok (version_minor req)
     \<and> list_all header_ok (headers req) \<and> length_announced (headers req) (body req)"

lemma find_from_0: "c \<notin> set xs \<Longrightarrow> find_from c (xs @ c # rest) 0 = Some (length xs)"
  using find_from_drop [of 0 "xs @ c # rest" xs c rest] by simp

lemma find_from_second: "c \<notin> set ys \<Longrightarrow> find_from c (xs @ d # ys @ c # rest) (Suc (length xs)) = Some (Suc (length xs + length ys))"
  using find_from_drop [of "Suc (length xs)" "xs @ d # ys @ c # rest" ys c rest] by simp

lemma serialize_request_parsed:
  assumes "request_ok req"
  shows "parse_request (serialize_request req @ rest) r0 =
    Some (Success, req\<lparr>headers := headers req @ added_length (headers req) (body req)\<rparr>, length (serialize_request req))"
proof -
  let ?m = "method_to_string (method_type req)"
  let ?maj = "char_plus_0 (version_major req)" and ?min = "char_plus_0 (version_minor req)"
  let ?ver = "''HTTP/'' @ [?maj, CHR ''.'', ?min]"
  define rl where "rl = ?m @ CHR '' '' # target req @ CHR '' '' # ?ver"
  define hs where "hs = headers req @ added_length (headers req) (body req)"
  define buf where "buf = serialize_request req @ rest"
  have ok: "CHR '' '' \<notin> set (target req)" "LF \<notin> set (target req)" "list_all header_ok hs"
    "length_announced (headers req) (body req)" "method_type req \<noteq> M_UNKNOWN"
    using assms added_length_ok by (auto simp: request_ok_def hs_def)
  have ver: "char_minus_0 ?maj = version_major req" "char_minus_0 ?min = version_minor req" "?maj \<noteq> LF" "?min \<noteq> LF"
    using assms version_char by (auto simp: request_ok_def)
  have buf: "buf = rl @ CRLF @ header_lines hs @ CRLF @ body req @ rest"
    by (simp add: buf_def serialize_request_def rl_def hs_def content_length_line_header header_lines_append)
  have "LF \<notin> set rl" using ok(2) method_text ver(3,4) by (simp add: rl_def)
  then have line: "find_next_line buf 0 = Some (length rl, length rl + 2)"
    using find_next_line_crlf [of 0 buf rl "header_lines hs @ CRLF @ body req @ rest"] by (simp add: buf)
  have rl: "take (length rl) buf = rl" by (simp add: buf)
  have sp1: "find_from (CHR '' '') rl 0 = Some (length ?m)" unfolding rl_def by (rule find_from_0) (simp add: method_text)
  have sp2: "find_from (CHR '' '') rl (length ?m + 1) = Some (length ?m + 1 + length (target req))"
    using find_from_second [OF ok(1), of ?m "CHR '' ''" ?ver] by (simp add: rl_def)
  have parts: "take (length ?m) rl = ?m" "substr rl (length ?m + 1) (length (target req)) = target req"
    "drop (length ?m + 1 + length (target req) + 1) rl = ?ver"
    by (simp_all add: rl_def)
  have hd: "parse_headers buf (length rl + 2) [] = (Success, length rl + 2 + length (header_lines hs) + 2, hs)"
    using parse_headers_lines [of "length rl + 2" buf hs "body req @ rest" "[]"] ok(3) by (simp add: buf)
  let ?req = "\<lparr>headers = hs, body = body r0, version_major = version_major req, version_minor = version_minor req,
      target = target req, method_type = method_type req\<rparr>"
  have body: "extract_body buf (length rl + 2 + length (header_lines hs) + 2) ?req True =
      Some (Success, ?req\<lparr>body := body req\<rparr>, length rl + 2 + length (header_lines hs) + 2 + length (body req))"
  proof (rule extract_announced [OF ok(4)])
    show "drop (length rl + 2 + length (header_lines hs) + 2) buf = body req @ rest"
      using drop_after_at [of 0 buf "rl @ CRLF @ header_lines hs @ CRLF" "body req @ rest"] buf by (simp add: ac_simps)
  qed (simp_all add: hs_def)
  have len: "length rl + 2 + length (header_lines hs) + 2 + length (body req) = length (serialize_request req)"
    using arg_cong [OF buf, of length] by (simp add: buf_def)
  obtain h0 b0 ma0 mi0 t0 m0 where r0: "r0 = \<lparr>headers = h0, body = b0, version_major = ma0, version_minor = mi0,
      target = t0, method_type = m0\<rparr>" by (cases r0)
  have fin: "?req\<lparr>body := body req\<rparr> = req\<lparr>headers := hs\<rparr>" by (cases req) simp
  show ?thesis
    unfolding buf_def [symmetric] hs_def [symmetric] fin [symmetric] parse_request_def Let_def line option.case prod.case rl sp1 sp2
    using parts hd body ver len method_roundtrip [OF ok(5)] by (simp add: r0)
qed

section \<open>Responses\<close>

definition bodyless :: "nat \<Rightarrow> bool" where
  "bodyless c \<longleftrightarrow> (100 \<le> c \<and> c < 200) \<or> c = 204 \<or> c = 304"

definition response_ok :: "response \<Rightarrow> bool" where
  "response_ok res \<longleftrightarrow> 100 \<le> status_code res \<and> status_code res < 1000 \<and> LF \<notin> set (status_text res)
     \<and> digit_ok (version_major res) \<and> digit_ok (version_minor res) \<and> list_all header_ok (headers res)
     \<and> (if bodyless (status_code res) then body res = [] else length_announced (headers res) (body res))"

lemma to_chars_3:
  assumes "100 \<le> n" and "n < 1000"
  shows "length (to_chars 10 n) = 3"
proof -
  have "n div 10 div 10 < 10" "\<not> n div 10 < 10" "\<not> n < 10" using assms by auto
  then show ?thesis by (simp add: to_chars.simps [of 10 n] to_chars.simps [of 10 "n div 10"] to_chars.simps [of 10 "n div 10 div 10"])
qed

lemma serialize_response_parsed:
  assumes "response_ok res"
    and "bodyless (status_code res) \<or> has_content_length (headers res) \<or> body res \<noteq> [] \<or> rest = []"
  shows "parse_response (serialize_response res @ rest) r0 =
    Some (Success, res\<lparr>headers := headers res @ added_length (headers res) (body res)\<rparr>, length (serialize_response res))"
proof -
  let ?maj = "char_plus_0 (version_major res)" and ?min = "char_plus_0 (version_minor res)"
  let ?c = "to_chars 10 (status_code res)"
  let ?ver = "''HTTP/'' @ [?maj, CHR ''.'', ?min]"
  define sl where "sl = ?ver @ CHR '' '' # ?c @ CHR '' '' # status_text res"
  define hs where "hs = headers res @ added_length (headers res) (body res)"
  define buf where "buf = serialize_response res @ rest"
  have ok: "LF \<notin> set (status_text res)" "list_all header_ok hs" "100 \<le> status_code res" "status_code res < 1000"
    using assms added_length_ok by (auto simp: response_ok_def hs_def)
  have ver: "char_minus_0 ?maj = version_major res" "char_minus_0 ?min = version_minor res" "?maj \<noteq> LF" "?min \<noteq> LF"
    using assms version_char by (auto simp: response_ok_def)
  have verx: "?maj \<noteq> CHR '' ''" "?min \<noteq> CHR '' ''"
    using ver(1,2) assms by (auto simp: response_ok_def digit_ok_def char_minus_0_def)
  have dig: "is_digit 10 x" if "x \<in> set ?c" for x using to_chars_digits [OF _ _ that] by simp
  then have cx: "CHR '' '' \<notin> set ?c" "LF \<notin> set ?c" using is_digit_10 by (auto simp: is_ows_def)
  have buf: "buf = sl @ CRLF @ header_lines hs @ CRLF @ body res @ rest"
    by (simp add: buf_def serialize_response_def sl_def hs_def content_length_line_header header_lines_append)
  have "LF \<notin> set sl" using ok(1) ver(3,4) cx by (simp add: sl_def)
  then have line: "find_next_line buf 0 = Some (length sl, length sl + 2)"
    using find_next_line_crlf [of 0 buf sl "header_lines hs @ CRLF @ body res @ rest"] by (simp add: buf)
  have sl: "take (length sl) buf = sl" by (simp add: buf)
  have sp1: "find_from (CHR '' '') sl 0 = Some 8"
    using find_from_0 [of "CHR '' ''" ?ver "?c @ CHR '' '' # status_text res"] verx by (simp add: sl_def)
  have "Suc (length ?ver) = 9" "Suc (length ?ver + length ?c) = 12" using to_chars_3 [OF ok(3,4)] by simp_all
  then have sp2: "find_from (CHR '' '') sl 9 = Some 12"
    using find_from_second [OF cx(1), of ?ver "CHR '' ''" "status_text res"] unfolding sl_def by metis
  have parts: "substr sl 9 3 = ?c" "drop 13 sl = status_text res" "\<not> length sl < 12" "prefix ''HTTP/'' sl" "sl ! 5 = ?maj" "sl ! 7 = ?min"
    using to_chars_3 [OF ok(3,4)] by (simp_all add: sl_def)
  have code: "from_chars 10 (2 ^ 32) ?c = Some (status_code res)" using ok(4) by (simp add: from_to_chars_end)
  have hd: "parse_headers buf (length sl + 2) [] = (Success, length sl + 2 + length (header_lines hs) + 2, hs)"
    using parse_headers_lines [of "length sl + 2" buf hs "body res @ rest" "[]"] ok(2) by (simp add: buf)
  have at: "drop (length sl + 2 + length (header_lines hs) + 2) buf = body res @ rest"
    using drop_after_at [of 0 buf "sl @ CRLF @ header_lines hs @ CRLF" "body res @ rest"] buf by (simp add: ac_simps)
  have len: "length sl + 2 + length (header_lines hs) + 2 + length (body res) = length (serialize_response res)"
    using arg_cong [OF buf, of length] by (simp add: buf_def)
  let ?res = "\<lparr>headers = hs, body = body r0, version_major = version_major res, version_minor = version_minor res,
      status_text = status_text res, status_code = status_code res\<rparr>"
  have fin: "?res\<lparr>body := body res\<rparr> = res\<lparr>headers := hs\<rparr>" by (cases res) simp
  have body: "extract_body buf (length sl + 2 + length (header_lines hs) + 2) ?res False =
      Some (Success, ?res\<lparr>body := body res\<rparr>, length sl + 2 + length (header_lines hs) + 2 + length (body res))"
    if "\<not> bodyless (status_code res)"
    by (rule extract_announced [OF _ at]) (use assms that in \<open>auto simp: hs_def response_ok_def\<close>)
  obtain h0 b0 ma0 mi0 t0 c0 where r0: "r0 = \<lparr>headers = h0, body = b0, version_major = ma0, version_minor = mi0,
      status_text = t0, status_code = c0\<rparr>" by (cases r0)
  have nobody: "body res = []" if "bodyless (status_code res)" using assms(1) that by (simp add: response_ok_def)
  show ?thesis
    unfolding buf_def [symmetric] hs_def [symmetric] fin [symmetric] parse_response_def Let_def line option.case prod.case sl sp1
    using parts hd ver len code sp2 body nobody
    by (cases "bodyless (status_code res)") (auto simp: r0 bodyless_def)
qed

section \<open>Chunks\<close>

lemma size_text_digits:
  assumes "\<And>c. c \<in> set ds \<Longrightarrow> is_digit 16 c"
  shows "size_text ds = ds"
proof -
  have "CHR '';'' \<notin> set ds" using assms is_digit_16 by blast
  then have "find_from (CHR '';'') ds 0 = None" by (simp add: find_from_None)
  moreover have "ows_free ds" using assms is_digit_16 by (cases "ds = []") (auto simp: ows_free_def)
  ultimately show ?thesis by (simp add: size_text_def strip_ows_id)
qed

lemma to_chars_hex: "c \<in> set (to_chars 16 n) \<Longrightarrow> is_digit 16 c"
  by (rule to_chars_digits) simp_all

text \<open>The size line of a chunk, as both loops read it.\<close>

lemma size_line:
  assumes "drop c buf = to_chars 16 n @ CRLF @ rest" and "n < SIZE_MOD"
  shows "c < length buf"
    and "find_next_line buf c = Some (c + length (to_chars 16 n), c + length (to_chars 16 n) + 2)"
    and "size_text (substr buf c (length (to_chars 16 n))) = to_chars 16 n"
    and "from_chars 16 SIZE_MOD (to_chars 16 n) = Some n"
    and "drop (c + length (to_chars 16 n) + 2) buf = rest"
proof -
  show "c < length buf" using assms(1) by (metis append_is_Nil_conv drop_all linorder_not_less list.distinct(1))
  show "find_next_line buf c = Some (c + length (to_chars 16 n), c + length (to_chars 16 n) + 2)"
    by (rule find_next_line_crlf [OF assms(1)]) (use to_chars_hex is_digit_16 in blast)
  show "size_text (substr buf c (length (to_chars 16 n))) = to_chars 16 n"
    using size_text_digits [of "to_chars 16 n"] to_chars_hex substr_at [OF assms(1)] by simp
  show "from_chars 16 SIZE_MOD (to_chars 16 n) = Some n" using assms(2) by (simp add: from_to_chars_end)
  show "drop (c + length (to_chars 16 n) + 2) buf = rest"
    using drop_after_at [of c buf "to_chars 16 n @ CRLF" rest] assms(1) by simp
qed

lemma drop_two:
  assumes "drop c buf = x # y # rest"
  shows "c + 1 < length buf" and "buf ! c = x" and "buf ! (c + 1) = y"
proof -
  have "length (drop c buf) = length rest + 2" using assms by simp
  then show len: "c + 1 < length buf" by simp
  show "buf ! c = x" using nth_drop [of c buf 0] len assms by simp
  show "buf ! (c + 1) = y" using nth_drop [of c buf 1] len assms by simp
qed

lemma skip_crlf_at: "drop c buf = CRLF @ rest \<Longrightarrow> skip_crlf buf c = c + 2"
  using drop_two [of c buf CR LF rest] by (simp add: skip_crlf_def Let_def)

definition encode_chunks :: "string list \<Rightarrow> string" where
  "encode_chunks ds = concat (map format_chunk ds) @ format_terminal_chunk"

lemma encode_chunks_Cons:
  "d \<noteq> [] \<Longrightarrow> encode_chunks (d # ds) = to_chars 16 (length d) @ CRLF @ d @ CRLF @ encode_chunks ds"
  by (simp add: encode_chunks_def format_chunk_def)

lemma terminal_hex: "''0'' = to_chars 16 0"
proof -
  have "digit_char 0 = CHR ''0''" by code_simp
  then show ?thesis by (simp add: to_chars.simps)
qed

lemma encode_chunks_Nil: "encode_chunks [] = to_chars 16 0 @ CRLF @ CRLF"
  by (simp add: encode_chunks_def format_terminal_chunk_def terminal_hex [symmetric])

text \<open>One data chunk: where its data is, and where the next chunk starts.\<close>

lemma data_chunk:
  assumes "drop c buf = to_chars 16 (length d) @ CRLF @ d @ CRLF @ rest" and "length buf < SIZE_MOD"
  defines "n \<equiv> c + length (to_chars 16 (length d)) + 2"
  shows "(n + length d) mod SIZE_MOD = n + length d" and "n + length d \<le> length buf"
    and "substr buf n (length d) = d" and "skip_crlf buf (n + length d) = n + length d + 2"
    and "drop (n + length d + 2) buf = rest" and "length d < SIZE_MOD"
proof -
  have d: "drop n buf = d @ CRLF @ rest"
    using drop_after_at [of c buf "to_chars 16 (length d) @ CRLF" "d @ CRLF @ rest"] assms(1) by (simp add: n_def)
  have "length buf - n = length d + 2 + length rest" using arg_cong [OF d, of length] by simp
  then show "n + length d \<le> length buf" by linarith
  with assms(2) show "(n + length d) mod SIZE_MOD = n + length d" "length d < SIZE_MOD" by simp_all
  show "substr buf n (length d) = d" using d by (rule substr_at)
  have e: "drop (n + length d) buf = CRLF @ rest" using d by (rule drop_after_at)
  then show "skip_crlf buf (n + length d) = n + length d + 2" by (rule skip_crlf_at)
  show "drop (n + length d + 2) buf = rest" using drop_after_at [OF e] by simp
qed

lemma chunk_loop_encoded:
  assumes "length buf < SIZE_MOD"
  shows "drop c buf = encode_chunks ds @ rest \<Longrightarrow> [] \<notin> set ds \<Longrightarrow>
    chunk_loop buf c = Some (Success, c + length (encode_chunks ds))"
proof (induction ds arbitrary: c)
  case Nil
  have d: "drop c buf = to_chars 16 0 @ CRLF @ CRLF @ rest" using Nil(1) by (simp add: encode_chunks_Nil)
  have pos: "0 < SIZE_MOD" by (simp add: SIZE_MOD_def)
  note sl = size_line [OF d pos]
  have d3: "drop (c + length (to_chars 16 0) + 2) buf = [] @ CRLF @ rest" using sl(5) by simp
  note fl = find_next_line_crlf [OF d3, simplified]
  note lt = drop_two(1) [OF d3 [simplified]]
  have ne: "to_chars 16 0 \<noteq> []" by (rule to_chars_nonempty)
  show ?case
    using sl fl lt ne by (simp add: chunk_loop.simps [of buf c] encode_chunks_Nil Let_def)
next
  case (Cons d ds)
  have ne: "d \<noteq> []" "[] \<notin> set ds" using Cons.prems(2) by auto
  have d: "drop c buf = to_chars 16 (length d) @ CRLF @ d @ CRLF @ encode_chunks ds @ rest"
    using Cons.prems(1) by (simp add: encode_chunks_Cons [OF ne(1)])
  note dc = data_chunk [OF d assms]
  note sl = size_line [OF d dc(6)]
  have "chunk_loop buf c = chunk_loop buf (c + length (to_chars 16 (length d)) + 2 + length d + 2)"
    using sl(1-4) dc(1,2,4) ne(1) to_chars_nonempty [of 16 "length d"]
    by (simp add: chunk_loop.simps [of buf c] Let_def)
  with Cons.IH [OF dc(5) ne(2)] show ?case by (simp add: encode_chunks_Cons [OF ne(1)])
qed

lemma dechunk_loop_encoded:
  assumes "length buf < SIZE_MOD"
  shows "drop c buf = encode_chunks ds @ rest \<Longrightarrow> [] \<notin> set ds \<Longrightarrow>
    dechunk_loop buf c out = Some (out @ concat ds)"
proof (induction ds arbitrary: c out)
  case Nil
  have d: "drop c buf = to_chars 16 0 @ CRLF @ CRLF @ rest" using Nil(1) by (simp add: encode_chunks_Nil)
  have pos: "0 < SIZE_MOD" by (simp add: SIZE_MOD_def)
  note sl = size_line [OF d pos]
  show ?case using sl to_chars_nonempty [of 16 0] by (simp add: dechunk_loop.simps [of buf c] Let_def)
next
  case (Cons d ds)
  have ne: "d \<noteq> []" "[] \<notin> set ds" using Cons.prems(2) by auto
  have d: "drop c buf = to_chars 16 (length d) @ CRLF @ d @ CRLF @ encode_chunks ds @ rest"
    using Cons.prems(1) by (simp add: encode_chunks_Cons [OF ne(1)])
  note dc = data_chunk [OF d assms]
  note sl = size_line [OF d dc(6)]
  have "dechunk_loop buf c out = dechunk_loop buf (c + length (to_chars 16 (length d)) + 2 + length d + 2) (out @ d)"
    using sl(1-4) dc(1-4) ne(1) to_chars_nonempty [of 16 "length d"]
    by (simp add: dechunk_loop.simps [of buf c] Let_def)
  with Cons.IH [OF dc(5) ne(2)] show ?case by simp
qed

section \<open>Termination\<close>

text \<open>No chunk-size line of the buffer makes the cursor wrap around.\<close>

definition sizes_fit :: "string \<Rightarrow> bool" where
  "sizes_fit buffer \<longleftrightarrow> (\<forall>c e n v. find_next_line buffer c = Some (e, n) \<longrightarrow>
     from_chars 16 SIZE_MOD (size_text (substr buffer c (e - c))) = Some v \<longrightarrow> n + v < SIZE_MOD)"

lemma skip_crlf_ge: "c \<le> skip_crlf buffer c"
  by (simp add: skip_crlf_def Let_def)

lemma chunk_loop_returns:
  assumes "sizes_fit buffer"
  shows "\<exists>r. chunk_loop buffer c = Some r"
proof (induction "length buffer - c" arbitrary: c rule: less_induct)
  case less
  show ?case
  proof (cases "c < length buffer \<and> find_next_line buffer c \<noteq> None")
    case False
    then show ?thesis by (auto simp: chunk_loop.simps [of buffer c] split: option.split)
  next
    case True
    then obtain e n where fl: "find_next_line buffer c = Some (e, n)" by auto
    have n: "c < n" "n \<le> length buffer" using find_next_line_progress [OF fl] by auto
    let ?sz = "size_text (substr buffer c (e - c))"
    have IH1: "\<exists>r. chunk_loop buffer n = Some r" using less [of n] n True by simp
    have IH2: "\<exists>r. chunk_loop buffer (skip_crlf buffer ((n + v) mod SIZE_MOD)) = Some r"
      if "from_chars 16 SIZE_MOD ?sz = Some v" for v
    proof (rule less)
      have "(n + v) mod SIZE_MOD = n + v" using assms fl that by (simp add: sizes_fit_def)
      then show "length buffer - skip_crlf buffer ((n + v) mod SIZE_MOD) < length buffer - c"
        using skip_crlf_ge [of "n + v" buffer] n True by simp
    qed
    show ?thesis
      using True fl IH1 IH2 by (auto simp: chunk_loop.simps [of buffer c] Let_def split: option.split)
  qed
qed

text \<open>A size line that leads the cursor back to itself.\<close>

definition loop_line :: string where
  "loop_line = ''FFFFFFFFFFFFFFEE'' @ CRLF"

lemma chunk_loop_diverges:
  assumes "find_next_line buffer c = Some (e, n)" and "c < length buffer"
    and "from_chars 16 SIZE_MOD (size_text (substr buffer c (e - c))) = Some v" and "v \<noteq> 0"
    and "skip_crlf buffer ((n + v) mod SIZE_MOD) = c" and "(n + v) mod SIZE_MOD \<le> length buffer"
  shows "chunk_loop buffer c = None"
proof (rule ccontr)
  have ne: "size_text (substr buffer c (e - c)) \<noteq> []" using assms(3) by (auto simp: from_chars_def Let_def)
  assume "chunk_loop buffer c \<noteq> None"
  then obtain r where "chunk_loop buffer c = Some r" by auto
  then have "(buffer, c) \<noteq> (buffer, c)"
  proof (rule chunk_loop.raw_induct [where P = "\<lambda>b c' r. (b, c') \<noteq> (buffer, c)", rotated])
    fix chunk_loop :: "string \<Rightarrow> nat \<Rightarrow> (parse_result \<times> nat) option" and b c' r
    assume IH: "\<And>b c' r. chunk_loop b c' = Some r \<Longrightarrow> (b, c') \<noteq> (buffer, c)"
    assume step: "(if \<not> c' < length b then Some (Incomplete, c')
      else case find_next_line b c' of
             None \<Rightarrow> Some (Incomplete, c')
           | Some (line_end, next_cursor) \<Rightarrow>
               let size_sv = size_text (substr b c' (line_end - c')) in
               if size_sv = [] then chunk_loop b next_cursor
               else (case from_chars 16 SIZE_MOD size_sv of
                       None \<Rightarrow> Some (Error, c')
                     | Some chunk_size \<Rightarrow>
                         if chunk_size = 0 then
                           Some (Success, if next_cursor < length b
                                          then (case find_next_line b next_cursor of
                                                  None \<Rightarrow> next_cursor | Some (e, after_crlf) \<Rightarrow> after_crlf)
                                          else next_cursor)
                         else if (next_cursor + chunk_size) mod SIZE_MOD > length b then Some (Incomplete, next_cursor)
                         else chunk_loop b (skip_crlf b ((next_cursor + chunk_size) mod SIZE_MOD)))) = Some r"
    show "(b, c') \<noteq> (buffer, c)"
    proof
      assume "(b, c') = (buffer, c)"
      with step assms ne have "chunk_loop buffer c = Some r" by (simp add: Let_def)
      from IH [OF this] show False by simp
    qed
  qed
  then show False by simp
qed

lemma extract_chunked_returns: "sizes_fit buffer \<Longrightarrow> \<exists>r. extract_chunked_body buffer c msg = Some r"
  using chunk_loop_returns [of buffer c]
  by (auto simp: extract_chunked_body_def split: option.split prod.split parse_result.split)

lemma extract_body_returns: "sizes_fit buffer \<Longrightarrow> \<exists>r. extract_body buffer c msg b = Some r"
  using extract_chunked_returns [of buffer c msg]
  by (auto simp: extract_body_def scan_te_cl_eq split: option.split)

lemmas http1_eval = request_ok_def response_ok_def request_new_def response_new_def digit_ok_def header_ok_def
  ows_free_def is_ows_def length_announced_def get_header_def is_equal_def ascii_lower_def SIZE_MOD_def bodyless_def
  find_next_line_def find_from_def from_chars_def is_digit_def digit_val_def digits_val_def size_text_def strip_ows_def
  skip_crlf_def Let_def

section \<open>Properties\<close>

text \<open>
  C16. A serialised request parses back to the request, with the Content-Length header the
  encoder adds, and exactly its octets are consumed, whatever follows it in the buffer: pipelined
  requests are separated correctly.
\<close>

theorem http1_request_roundtrip:
  assumes "request_ok req"
  shows "parse_request (serialize_request req @ rest) r0 =
    Some (Success, req\<lparr>headers := headers req @ added_length (headers req) (body req)\<rparr>, length (serialize_request req))"
  using assms by (rule serialize_request_parsed)

definition sample_request :: request where
  "sample_request = request_new\<lparr>method_type := M_POST, target := ''/a?b=c'', headers := [(''Host'', ''x'')], body := ''hi''\<rparr>"

theorem http1_request_roundtrip_witness:
  "map_option (\<lambda>(r, q, n). (r, body q, n)) (parse_request (serialize_request sample_request @ ''GET'') request_new)
     = Some (Success, ''hi'', length (serialize_request sample_request))"
proof -
  have ok: "request_ok sample_request" by (simp add: sample_request_def http1_eval)
  show ?thesis using http1_request_roundtrip [OF ok, of "''GET''" request_new] by (simp add: sample_request_def request_new_def)
qed

text \<open>
  A serialised response parses back likewise; what follows it in the buffer is left alone when the
  response has a body length or none by its status.
\<close>

theorem http1_response_roundtrip:
  assumes "response_ok res"
    and "bodyless (status_code res) \<or> has_content_length (headers res) \<or> body res \<noteq> [] \<or> rest = []"
  shows "parse_response (serialize_response res @ rest) r0 =
    Some (Success, res\<lparr>headers := headers res @ added_length (headers res) (body res)\<rparr>, length (serialize_response res))"
  using assms by (rule serialize_response_parsed)

theorem http1_response_roundtrip_witness:
  "map_option (\<lambda>(r, q, n). (r, body q, status_code q))
     (parse_response (serialize_response (response_new\<lparr>body := ''ok''\<rparr>) @ ''HTTP'') response_new) = Some (Success, ''ok'', 200)"
proof -
  have ok: "response_ok (response_new\<lparr>body := ''ok''\<rparr>)" by (simp add: http1_eval)
  show ?thesis using http1_response_roundtrip [OF ok, of "''HTTP''" response_new] by (simp add: response_new_def)
qed

text \<open>
  C17. Chunked bodies: for data cut into non-empty chunks the parser finds exactly the end of the encoded
  body, whatever follows, and decoding the body it found gives back the data.
\<close>

theorem http1_chunked_roundtrip:
  assumes "[] \<notin> set ds" and "get_header ''Transfer-Encoding'' (headers msg) = Some v" and "sublist ''chunked'' v"
    and "length (pre @ encode_chunks ds @ rest) < SIZE_MOD"
  shows "extract_body (pre @ encode_chunks ds @ rest) (length pre) msg b =
      Some (Success, msg\<lparr>body := encode_chunks ds\<rparr>, length (pre @ encode_chunks ds))
    \<and> dechunk (encode_chunks ds) = Some (concat ds)"
proof -
  have "chunk_loop (pre @ encode_chunks ds @ rest) (length pre) = Some (Success, length pre + length (encode_chunks ds))"
    by (rule chunk_loop_encoded [OF assms(4)]) (use assms(1) in simp_all)
  moreover have "dechunk_loop (encode_chunks ds) 0 [] = Some ([] @ concat ds)"
    by (rule dechunk_loop_encoded [of _ _ _ "[]"]) (use assms in simp_all)
  ultimately show ?thesis
    using assms(2,3) by (simp add: extract_body_def scan_te_cl_eq extract_chunked_body_def dechunk_def)
qed

theorem http1_chunked_roundtrip_witness:
  "dechunk (encode_chunks [''Wave'', ''X'']) = Some ''WaveX''"
proof -
  have "get_header ''Transfer-Encoding'' (headers (request_new\<lparr>headers := [(''transfer-encoding'', ''chunked'')]\<rparr>)) = Some ''chunked''"
    by code_simp
  then show ?thesis
    using http1_chunked_roundtrip [of "[''Wave'', ''X'']" "request_new\<lparr>headers := [(''transfer-encoding'', ''chunked'')]\<rparr>" "''chunked''" "[]" "[]" True]
    by (simp add: encode_chunks_def format_chunk_def format_terminal_chunk_def SIZE_MOD_def to_chars.simps)
qed



definition hostile_request :: string where
  "hostile_request = ''POST / HTTP/1.1'' @ CRLF @ ''Transfer-Encoding: chunked'' @ CRLF @ CRLF @ loop_line"

text \<open>
  C19. A peer can make the request parser run forever: with the chunk size \<^verbatim>\<open>FFFFFFFFFFFFFFEE\<close> the sum of cursor and
  size wraps around to the size line itself, passes the bounds check, and the line is read again and again.
\<close>

theorem http1_chunk_size_wraps:
  "parse_request hostile_request req = None"
proof -
  have head: "find_next_line hostile_request 0 = Some (15, 17)" "take 15 hostile_request = ''POST / HTTP/1.1''"
    "parse_headers hostile_request 17 [] = (Success, 47, [(''Transfer-Encoding'', ''chunked'')])"
    by code_simp+
  have loop: "chunk_loop hostile_request 47 = None"
  proof (rule chunk_loop_diverges)
    have line: "substr hostile_request 47 16 = ''FFFFFFFFFFFFFFEE''" "length hostile_request = 65" by code_simp+
    show "find_next_line hostile_request 47 = Some (63, 65)" by code_simp
    show "47 < length hostile_request" by (simp add: line)
    show "from_chars 16 SIZE_MOD (size_text (substr hostile_request 47 (63 - 47))) = Some 0xFFFFFFFFFFFFFFEE"
      by (simp add: line http1_eval)
    have "(65 + 0xFFFFFFFFFFFFFFEE) mod SIZE_MOD = 47" by (simp add: SIZE_MOD_def)
    moreover have "skip_crlf hostile_request 47 = 47" by code_simp
    ultimately show "skip_crlf hostile_request ((65 + 0xFFFFFFFFFFFFFFEE) mod SIZE_MOD) = 47"
      "(65 + 0xFFFFFFFFFFFFFFEE) mod SIZE_MOD \<le> length hostile_request" by (simp_all add: line)
  qed simp
  have te: "get_header ''Transfer-Encoding'' [(''Transfer-Encoding'', ''chunked'')] = Some ''chunked''" by code_simp
  have sp: "find_from (CHR '' '') ''POST / HTTP/1.1'' 0 = Some 4" "find_from (CHR '' '') ''POST / HTTP/1.1'' (4 + 1) = Some 6"
    "drop (6 + 1) ''POST / HTTP/1.1'' = ''HTTP/1.1''"
    by code_simp+
  show ?thesis
    unfolding parse_request_def Let_def head option.case prod.case sp
    by (simp add: extract_body_def scan_te_cl_eq te extract_chunked_body_def loop)
qed

text \<open>
  The last chunk is accepted before its final line end has arrived: a buffer that ends after the
  line of size zero is a complete message, and the two octets that follow are taken for the next message.
\<close>

theorem http1_premature_end:
  "extract_chunked_body (''0'' @ CRLF) 0 request_new = Some (Success, request_new\<lparr>body := ''0'' @ CRLF\<rparr>, 3)
   \<and> map_option fst (parse_request CRLF request_new) = Some Error"
proof -
  have "chunk_loop (''0'' @ CRLF) 0 = Some (Success, 3)"
  proof -
    have "find_next_line (''0'' @ CRLF) 0 = Some (1, 3)" "from_chars 16 SIZE_MOD (size_text (substr (''0'' @ CRLF) 0 (1 - 0))) = Some 0"
      "size_text (substr (''0'' @ CRLF) 0 (1 - 0)) \<noteq> []" by (simp_all add: http1_eval)
    then show ?thesis by (simp add: chunk_loop.simps Let_def)
  qed
  moreover have "map_option fst (parse_request CRLF request_new) = Some Error" by code_simp
  ultimately show ?thesis by (simp add: extract_chunked_body_def request_new_def)
qed

end
