(* ===== verification/WebSocket_Codec.thy ===== *)
theory WebSocket_Codec
  imports Wavex_Prelude
begin

unbundle bit_operations_syntax

text \<open>
  The WebSocket frame codec and handshake helpers: \<^verbatim>\<open>src/src/protos/websocket/WebSocket.cpp\<close> and
  \<^verbatim>\<open>src/include/wavex/protos/websocket/WebSocket.hpp\<close>.  Frames, payloads and UTF-8 text are lists of
  octets; header values and keys are strings.
\<close>

section \<open>Frames\<close>

datatype opcode = Op_continuation | Op_text | Op_binary | Op_close | Op_ping | Op_pong

definition opcode_val :: "opcode \<Rightarrow> u8" where
  "opcode_val op = (case op of Op_continuation \<Rightarrow> 0x0 | Op_text \<Rightarrow> 0x1 | Op_binary \<Rightarrow> 0x2 | Op_close \<Rightarrow> 0x8
     | Op_ping \<Rightarrow> 0x9 | Op_pong \<Rightarrow> 0xA)"

text \<open>\<^verbatim>\<open>static_cast<opcode>\<close> of a nibble that is not reserved.\<close>

definition opcode_of :: "u8 \<Rightarrow> opcode" where
  "opcode_of v = (if v = 0x0 then Op_continuation else if v = 0x1 then Op_text else if v = 0x2 then Op_binary
     else if v = 0x8 then Op_close else if v = 0x9 then Op_ping else Op_pong)"

definition is_control :: "opcode \<Rightarrow> bool" where
  "is_control op \<longleftrightarrow> opcode_val op AND 0x08 \<noteq> 0"

record frame_header =
  fh_payload_length :: nat
  fh_masking_key :: u32
  fh_header_size :: nat
  fh_op :: opcode
  fh_fin :: bool
  fh_rsv1 :: bool
  fh_rsv2 :: bool
  fh_rsv3 :: bool
  fh_masked :: bool

datatype ws_parse = WsComplete frame_header | WsIncomplete | WsError

definition kMaxPayloadLength :: u64 where
  "kMaxPayloadLength = push_bit 63 1 - 1"

text \<open>The length field after the first two octets: the length and where it ends.\<close>

definition ws_length :: "bytes \<Rightarrow> u8 \<Rightarrow> ws_parse + (u64 \<times> nat)" where
  "ws_length inp b1 =
     (let len = b1 AND 0x7F in
      if len = 126 then
        if length inp < 4 then Inl WsIncomplete else Inr (push_bit 8 (ucast (inp ! 2)) OR ucast (inp ! 3), 4)
      else if len = 127 then
        if length inp < 10 then Inl WsIncomplete
        else let l = be_acc 0 (substr inp 2 8) in if l > kMaxPayloadLength then Inl WsError else Inr (l, 10)
      else Inr (ucast len, 2))"

definition parse_ws_header :: "bytes \<Rightarrow> ws_parse" where
  "parse_ws_header inp =
     (if length inp < 2 then WsIncomplete
      else let b0 = inp ! 0; b1 = inp ! 1; op = b0 AND 0x0F; masked = (b1 AND 0x80 \<noteq> 0) in
        if (op \<ge> 0x3 \<and> op \<le> 0x7) \<or> op \<ge> 0xB then WsError
        else case ws_length inp b1 of
               Inl r \<Rightarrow> r
             | Inr (len, pos) \<Rightarrow>
                 if masked \<and> length inp < pos + 4 then WsIncomplete
                 else WsComplete \<lparr>fh_payload_length = unat len,
                        fh_masking_key = (if masked then be_acc 0 (substr inp pos 4) else 0),
                        fh_header_size = (if masked then pos + 4 else pos), fh_op = opcode_of op,
                        fh_fin = (b0 AND 0x80 \<noteq> 0), fh_rsv1 = (b0 AND 0x40 \<noteq> 0),
                        fh_rsv2 = (b0 AND 0x20 \<noteq> 0), fh_rsv3 = (b0 AND 0x10 \<noteq> 0), fh_masked = masked\<rparr>)"

definition mask_key :: "u32 \<Rightarrow> nat \<Rightarrow> u8" where
  "mask_key key i = octets 4 key ! (i mod 4)"

definition apply_mask :: "u32 \<Rightarrow> nat \<Rightarrow> bytes \<Rightarrow> bytes" where
  "apply_mask key offset d = map2 (\<lambda>i b. b XOR mask_key key (offset + i)) [0..<length d] d"

lemma apply_mask_length [simp]: "length (apply_mask key off d) = length d"
  by (simp add: apply_mask_def)

definition frame_size :: "nat \<Rightarrow> bool \<Rightarrow> nat" where
  "frame_size n masked = 2 + (if n < 126 then 0 else if n \<le> 0xFFFF then 2 else 8) + (if masked then 4 else 0) + n"

definition encode_frame :: "opcode \<Rightarrow> bytes \<Rightarrow> bool \<Rightarrow> u32 option \<Rightarrow> bytes" where
  "encode_frame op payload fin mk =
     (let mask_bit = (if mk \<noteq> None then 0x80 else 0x00 :: u8); len = length payload in
      [(if fin then 0x80 else 0x00) OR opcode_val op]
      @ (if len < 126 then [mask_bit OR of_nat len]
         else if len \<le> 0xFFFF then (mask_bit OR 126) # octets 2 (of_nat len :: u64)
         else (mask_bit OR 127) # octets 8 (of_nat len :: u64))
      @ (case mk of Some k \<Rightarrow> octets 4 k @ apply_mask k 0 payload | None \<Rightarrow> payload))"

section \<open>Close payloads and UTF-8\<close>

text \<open>\<^verbatim>\<open>utf8_prefix\<close>: the loop that moves the cut back over continuation octets.\<close>

fun utf8_cut :: "bytes \<Rightarrow> nat \<Rightarrow> nat" where
  "utf8_cut s 0 = 0"
| "utf8_cut s (Suc k) = (if s ! Suc k AND 0xC0 = 0x80 then utf8_cut s k else Suc k)"

definition utf8_prefix :: "bytes \<Rightarrow> nat \<Rightarrow> bytes" where
  "utf8_prefix s mx = (if length s \<le> mx then s else take (utf8_cut s mx) s)"

definition cc_normal :: u16 where "cc_normal = 1000"
definition cc_protocol_error :: u16 where "cc_protocol_error = 1002"
definition cc_no_status :: u16 where "cc_no_status = 1005"
definition cc_abnormal :: u16 where "cc_abnormal = 1006"
definition cc_invalid_payload :: u16 where "cc_invalid_payload = 1007"
definition cc_message_too_big :: u16 where "cc_message_too_big = 1009"

definition is_valid_close_code :: "u16 \<Rightarrow> bool" where
  "is_valid_close_code c \<longleftrightarrow> (1000 \<le> c \<and> c \<le> 1003) \<or> (1007 \<le> c \<and> c \<le> 1014) \<or> (3000 \<le> c \<and> c \<le> 4999)"

definition close_payload :: "u16 \<Rightarrow> bytes \<Rightarrow> bytes" where
  "close_payload c reason =
     (if c = cc_no_status \<or> c = cc_abnormal then [] else octets 2 c @ utf8_prefix reason 123)"

text \<open>\<open>None\<close> is the result false; otherwise the code and the reason.\<close>

definition parse_close_payload :: "bytes \<Rightarrow> (u16 \<times> bytes) option" where
  "parse_close_payload payload =
     (if payload = [] then Some (cc_no_status, [])
      else if length payload < 2 then None
      else let c = push_bit 8 (ucast (payload ! 0)) OR ucast (payload ! 1)
           in if \<not> is_valid_close_code c then None else Some (c, drop 2 payload))"

text \<open>The lead octet of a longer sequence: how many octets follow, and its bits.\<close>

definition utf8_lead :: "u8 \<Rightarrow> (nat \<times> u32) option" where
  "utf8_lead c =
     (if c AND 0xE0 = 0xC0 then (if c < 0xC2 then None else Some (1, ucast (c AND 0x1F)))
      else if c AND 0xF0 = 0xE0 then Some (2, ucast (c AND 0x0F))
      else if c AND 0xF8 = 0xF0 then (if c > 0xF4 then None else Some (3, ucast (c AND 0x07)))
      else None)"

definition utf8_bits :: "u32 \<Rightarrow> bytes \<Rightarrow> u32" where
  "utf8_bits cp bs = foldl (\<lambda>cp b. push_bit 6 cp OR ucast (b AND 0x3F)) cp bs"

function is_valid_utf8 :: "bytes \<Rightarrow> bool" where
  "is_valid_utf8 [] = True"
| "is_valid_utf8 (c # s) =
     (if c < 0x80 then is_valid_utf8 s
      else case utf8_lead c of
             None \<Rightarrow> False
           | Some (n, cp0) \<Rightarrow>
               if length s < n then False
               else if \<not> list_all (\<lambda>b. b AND 0xC0 = 0x80) (take n s) then False
               else let cp = utf8_bits cp0 (take n s) in
                 if (n = 2 \<and> cp < 0x800) \<or> (n = 3 \<and> cp < 0x10000) then False
                 else if cp > 0x10FFFF \<or> (cp \<ge> 0xD800 \<and> cp \<le> 0xDFFF) then False
                 else is_valid_utf8 (drop n s))"
  by pat_completeness auto

termination by (relation "measure length") auto

section \<open>Handshake\<close>

definition kAlphabet :: string where
  "kAlphabet = ''ABCDEFGHIJKLMNOPQRSTUVWXYZabcdefghijklmnopqrstuvwxyz0123456789+/''"

definition sextet :: "u32 \<Rightarrow> nat \<Rightarrow> char" where
  "sextet v k = kAlphabet ! unat (drop_bit k v AND 0x3F)"

fun base64_encode :: "bytes \<Rightarrow> string" where
  "base64_encode (a # b # c # rest) =
     (let v = push_bit 16 (ucast a) OR push_bit 8 (ucast b) OR ucast c
      in [sextet v 18, sextet v 12, sextet v 6, sextet v 0] @ base64_encode rest)"
| "base64_encode [a, b] =
     (let v = push_bit 16 (ucast a) OR push_bit 8 (ucast b) in [sextet v 18, sextet v 12, sextet v 6, CHR ''=''])"
| "base64_encode [a] =
     (let v = push_bit 16 (ucast a) in [sextet v 18, sextet v 12, CHR ''='', CHR ''=''])"
| "base64_encode [] = []"

definition base64_value :: "char \<Rightarrow> int" where
  "base64_value c =
     (let n = int (code c) in
      if 65 \<le> n \<and> n \<le> 90 then n - 65
      else if 97 \<le> n \<and> n \<le> 122 then n - 97 + 26
      else if 48 \<le> n \<and> n \<le> 57 then n - 48 + 52
      else if n = 43 then 62
      else if n = 47 then 63
      else -1)"

definition base64_group :: "char \<Rightarrow> char \<Rightarrow> char \<Rightarrow> char \<Rightarrow> bool \<Rightarrow> bytes option" where
  "base64_group x y z w is_last =
     (let a = base64_value x; b = base64_value y;
          c = (if z = CHR ''='' \<and> is_last then -2 else base64_value z);
          d = (if w = CHR ''='' \<and> is_last then -2 else base64_value w) in
      if a < 0 \<or> b < 0 \<or> c = -1 \<or> d = -1 \<or> (c = -2 \<and> d \<noteq> -2) then None
      else let v = push_bit 18 (of_int a) OR push_bit 12 (of_int b)
                   OR (if c \<ge> 0 then push_bit 6 (of_int c) else 0) OR (if d \<ge> 0 then of_int d else 0) :: u32
           in Some ([octet v 16] @ (if c \<ge> 0 then [octet v 8] else []) @ (if d \<ge> 0 then [octet v 0] else [])))"

fun base64_decode_groups :: "string \<Rightarrow> bytes option" where
  "base64_decode_groups [] = Some []"
| "base64_decode_groups (x # y # z # w # rest) =
     (case base64_group x y z w (rest = []) of
        None \<Rightarrow> None
      | Some bs \<Rightarrow> (case base64_decode_groups rest of None \<Rightarrow> None | Some out \<Rightarrow> Some (bs @ out)))"
| "base64_decode_groups _ = None"

definition base64_decode :: "string \<Rightarrow> bytes option" where
  "base64_decode s = (if length s mod 4 \<noteq> 0 then None else base64_decode_groups s)"

definition is_valid_client_key :: "string \<Rightarrow> bool" where
  "is_valid_client_key key \<longleftrightarrow> length key = 24 \<and> map_option length (base64_decode key) = Some 16"

text \<open>SHA-1.\<close>

definition rol :: "u32 \<Rightarrow> nat \<Rightarrow> u32" where
  "rol v s = push_bit s v OR drop_bit (32 - s) v"

definition sha1_pad :: "bytes \<Rightarrow> bytes" where
  "sha1_pad inp =
     (let m = inp @ [0x80] in m @ replicate ((120 - length m mod 64) mod 64) 0 @ octets 8 (of_nat (length inp) * 8 :: u64))"

definition sha1_words :: "bytes \<Rightarrow> u32 list" where
  "sha1_words chunk =
     foldl (\<lambda>w i. w @ [rol (w ! (i - 3) XOR w ! (i - 8) XOR w ! (i - 14) XOR w ! (i - 16)) 1])
       (map (\<lambda>i. be_acc 0 (substr chunk (i * 4) 4)) [0..<16]) [16..<80]"

type_synonym sha1_state = "u32 \<times> u32 \<times> u32 \<times> u32 \<times> u32"

definition sha1_round :: "u32 list \<Rightarrow> sha1_state \<Rightarrow> nat \<Rightarrow> sha1_state" where
  "sha1_round w s i =
     (case s of (a, b, c, d, e) \<Rightarrow>
        let (f, k) = (if i < 20 then ((b AND c) OR (NOT b AND d), 0x5A827999)
                      else if i < 40 then (b XOR c XOR d, 0x6ED9EBA1)
                      else if i < 60 then ((b AND c) OR (b AND d) OR (c AND d), 0x8F1BBCDC)
                      else (b XOR c XOR d, 0xCA62C1D6));
            tmp = rol a 5 + f + e + k + w ! i
        in (tmp, a, rol b 30, c, d))"

definition sha1_chunk :: "sha1_state \<Rightarrow> bytes \<Rightarrow> sha1_state" where
  "sha1_chunk h chunk =
     (case h of (h0, h1, h2, h3, h4) \<Rightarrow>
      case foldl (sha1_round (sha1_words chunk)) h [0..<80] of (a, b, c, d, e) \<Rightarrow> (h0 + a, h1 + b, h2 + c, h3 + d, h4 + e))"

definition sha1 :: "bytes \<Rightarrow> bytes" where
  "sha1 inp =
     (let msg = sha1_pad inp in
      case foldl (\<lambda>h i. sha1_chunk h (substr msg (i * 64) 64))
             (0x67452301, 0xEFCDAB89, 0x98BADCFE, 0x10325476, 0xC3D2E1F0) [0..<length msg div 64] of
        (a, b, c, d, e) \<Rightarrow> octets 4 a @ octets 4 b @ octets 4 c @ octets 4 d @ octets 4 e)"

definition kHandshakeGuid :: string where
  "kHandshakeGuid = ''258EAFA5-E914-47DA-95CA-C5AB0DC85B11''"

definition compute_accept_key :: "string \<Rightarrow> string" where
  "compute_accept_key client_key = base64_encode (sha1 (bytes_of (client_key @ kHandshakeGuid)))"

section \<open>Header tokens\<close>

definition ws_lower :: "char \<Rightarrow> char" where
  "ws_lower c = (if 65 \<le> code c \<and> code c \<le> 90 then char_of (code c - 65 + 97) else c)"

definition iequals :: "string \<Rightarrow> string \<Rightarrow> bool" where
  "iequals a b \<longleftrightarrow> length a = length b \<and> list_all2 (\<lambda>x y. ws_lower x = ws_lower y) a b"

definition is_blank :: "char \<Rightarrow> bool" where
  "is_blank c \<longleftrightarrow> c = CHR '' '' \<or> c = CHR 0x09"

definition trim :: "string \<Rightarrow> string" where
  "trim s = rev (dropWhile is_blank (rev (dropWhile is_blank s)))"

text \<open>\<^verbatim>\<open>for_each_token\<close> with a test: whether some token satisfies it.\<close>

function any_token :: "(string \<Rightarrow> bool) \<Rightarrow> string \<Rightarrow> bool" where
  "any_token fn lst =
     (if lst = [] then False
      else let comma = find_from (CHR '','') lst 0;
               token = trim (case comma of None \<Rightarrow> lst | Some i \<Rightarrow> take i lst) in
        if token \<noteq> [] \<and> fn token then True
        else case comma of None \<Rightarrow> False | Some i \<Rightarrow> any_token fn (drop (i + 1) lst))"
  by pat_completeness auto

termination by (relation "measure (\<lambda>(fn, lst). length lst)") auto

declare any_token.simps [simp del]

definition header_contains_token :: "string \<Rightarrow> string \<Rightarrow> bool" where
  "header_contains_token value token = any_token (\<lambda>t. iequals t token) value"

definition select_subprotocol :: "string \<Rightarrow> string list \<Rightarrow> string" where
  "select_subprotocol offered supported =
     (case List.find (\<lambda>cand. any_token (\<lambda>t. t = cand) offered) supported of Some c \<Rightarrow> c | None \<Rightarrow> [])"

end
