(* ===== verification/WebSocket_Session.thy ===== *)
theory WebSocket_Session
  imports WebSocket_Codec
begin

text \<open>
  A WebSocket session (\<^verbatim>\<open>connection\<close> in \<^verbatim>\<open>src/src/protos/websocket/WebSocket.cpp\<close>): the queue of outgoing frames
  and its writer, the reader with its buffer, fragment reassembly and the close handshake.  Senders on other threads
  and the writer coroutine exclude each other with a lock, so every critical section is one definition here and an
  interleaving is a sequence of them.  The random masking keys are a parameter, drawn in order; what the transport
  answers to a read or a write is an argument of the step that needs it.
\<close>

section \<open>State\<close>

datatype ws_role = Server | Client

datatype ws_error = Err_closed | Err_protocol | Err_too_big | Err_utf8 | Err_timeout | Err_eof | Err_transport nat

record ws_options =
  max_message_size :: nat
  max_buffered_amount :: nat
  validate_utf8 :: bool

record ws_message =
  m_data :: bytes
  m_type :: opcode

record ws_conn =
  w_opts :: ws_options
  w_rbuf :: bytes
  w_message :: bytes
  w_subprotocol :: string
  w_close_reason :: bytes
  w_outbox :: bytes
  w_writing :: bytes
  w_rbuf_consumed :: nat
  w_buffered :: nat
  w_close_code :: u16
  w_message_type :: opcode
  w_role :: ws_role
  w_in_message :: bool
  w_writer_active :: bool
  w_write_failed :: bool
  w_close_sent :: bool
  w_close_received :: bool
  w_read_closed :: bool
  w_transport_open :: bool
  w_random :: "nat \<Rightarrow> u32"
  w_drawn :: nat

definition ws_connection :: "(nat \<Rightarrow> u32) \<Rightarrow> bytes \<Rightarrow> ws_options \<Rightarrow> ws_role \<Rightarrow> string \<Rightarrow> ws_conn" where
  "ws_connection rnd leftover opts r subprotocol =
     \<lparr>w_opts = opts, w_rbuf = leftover, w_message = [], w_subprotocol = subprotocol, w_close_reason = [], w_outbox = [],
      w_writing = [], w_rbuf_consumed = 0, w_buffered = 0, w_close_code = cc_no_status, w_message_type = Op_text, w_role = r,
      w_in_message = False, w_writer_active = False, w_write_failed = False, w_close_sent = False, w_close_received = False,
      w_read_closed = False, w_transport_open = True, w_random = rnd, w_drawn = 0\<rparr>"

section \<open>Sending\<close>

text \<open>\<^verbatim>\<open>random_u32\<close>, drawn for a client only.\<close>

definition draw_mask :: "ws_conn \<Rightarrow> u32 option \<times> ws_conn" where
  "draw_mask c = (if w_role c = Client then (Some (w_random c (w_drawn c)), c\<lparr>w_drawn := w_drawn c + 1\<rparr>) else (None, c))"

text \<open>
  The frame is encoded before the lock is taken when the payload is large and inside it otherwise; the octets are the
  same.  Starting the writer is the change of \<open>w_writer_active\<close> from false to true.
\<close>

definition enqueue :: "opcode \<Rightarrow> bytes \<Rightarrow> bool \<Rightarrow> ws_conn \<Rightarrow> bool \<times> ws_conn" where
  "enqueue op payload is_close c =
     (let (mk, c) = draw_mask c; wire_size = frame_size (length payload) (mk \<noteq> None) in
      if w_write_failed c \<or> w_close_sent c then (False, c)
      else if \<not> is_control op \<and> w_buffered c + wire_size > max_buffered_amount (w_opts c) then (False, c)
      else (True, c\<lparr>w_close_sent := (is_close \<or> w_close_sent c), w_buffered := w_buffered c + wire_size,
                    w_outbox := w_outbox c @ encode_frame op payload True mk, w_writer_active := True\<rparr>))"

definition send_text :: "bytes \<Rightarrow> ws_conn \<Rightarrow> bool \<times> ws_conn" where
  "send_text t = enqueue Op_text t False"

definition send_binary :: "bytes \<Rightarrow> ws_conn \<Rightarrow> bool \<times> ws_conn" where
  "send_binary d = enqueue Op_binary d False"

definition ws_send :: "ws_message \<Rightarrow> ws_conn \<Rightarrow> bool \<times> ws_conn" where
  "ws_send m = (if m_type m = Op_binary then send_binary (m_data m) else send_text (m_data m))"

definition ws_ping :: "bytes \<Rightarrow> ws_conn \<Rightarrow> bool \<times> ws_conn" where
  "ws_ping p c = (if length p > 125 then (False, c) else enqueue Op_ping p False c)"

definition ws_pong :: "bytes \<Rightarrow> ws_conn \<Rightarrow> bool \<times> ws_conn" where
  "ws_pong p c = (if length p > 125 then (False, c) else enqueue Op_pong p False c)"

definition ws_close :: "u16 \<Rightarrow> bytes \<Rightarrow> ws_conn \<Rightarrow> bool \<times> ws_conn" where
  "ws_close cd reason c =
     (if \<not> is_valid_close_code cd \<and> cd \<noteq> cc_no_status then (False, c)
      else enqueue Op_close (close_payload cd reason) True c)"

text \<open>
  The writer: the first critical section of a turn of its loop, and the second one after the transport answered.
  \<open>None\<close> is \<^verbatim>\<open>co_return\<close>; otherwise the octets that are handed to the transport.
\<close>

definition drain_begin :: "ws_conn \<Rightarrow> bytes option \<times> ws_conn" where
  "drain_begin c =
     (if w_outbox c = [] then (None, c\<lparr>w_writer_active := False\<rparr>)
      else (Some (w_outbox c), c\<lparr>w_writing := w_outbox c, w_outbox := w_writing c\<rparr>))"

definition drain_end :: "bool \<Rightarrow> ws_conn \<Rightarrow> ws_conn" where
  "drain_end failed c =
     (let c = c\<lparr>w_buffered := w_buffered c - min (w_buffered c) (length (w_writing c)), w_writing := []\<rparr> in
      if failed then c\<lparr>w_write_failed := True, w_outbox := [], w_buffered := 0, w_writer_active := False\<rparr> else c)"

definition ws_abort :: "ws_conn \<Rightarrow> ws_conn" where
  "ws_abort c = c\<lparr>w_read_closed := True, w_write_failed := True, w_outbox := [], w_buffered := 0, w_transport_open := False\<rparr>"

definition writes_pending :: "ws_conn \<Rightarrow> bool" where
  "writes_pending c \<longleftrightarrow> w_writer_active c \<or> w_outbox c \<noteq> []"

definition ws_is_open :: "ws_conn \<Rightarrow> bool" where
  "ws_is_open c \<longleftrightarrow> \<not> w_close_sent c \<and> \<not> w_read_closed c"

section \<open>Receiving\<close>

definition ws_fail :: "u16 \<Rightarrow> ws_error \<Rightarrow> ws_conn \<Rightarrow> ws_error \<times> ws_conn" where
  "ws_fail cd err c =
     (let c = snd (ws_close cd [] c)
      in (err, c\<lparr>w_close_code := cd, w_read_closed := True, w_in_message := False, w_message := []\<rparr>))"

text \<open>What one read of the transport gave: the octets, an error if any, and whether the timer fired.\<close>

record transport_read =
  t_data :: bytes
  t_error :: "nat option"
  t_timed_out :: bool

definition compact :: "ws_conn \<Rightarrow> ws_conn" where
  "compact c =
     (if w_rbuf_consumed c > 0 \<and> w_rbuf_consumed c = length (w_rbuf c) then c\<lparr>w_rbuf := [], w_rbuf_consumed := 0\<rparr>
      else if w_rbuf_consumed c \<ge> 65536 \<and> w_rbuf_consumed c \<ge> length (w_rbuf c) div 2
      then c\<lparr>w_rbuf := drop (w_rbuf_consumed c) (w_rbuf c), w_rbuf_consumed := 0\<rparr>
      else c)"

definition fill :: "transport_read \<Rightarrow> ws_conn \<Rightarrow> ws_error option \<times> ws_conn" where
  "fill t c =
     (let c = compact c; c = c\<lparr>w_rbuf := w_rbuf c @ t_data t\<rparr> in
      (if t_timed_out t then Some Err_timeout
       else case t_error t of
              Some e \<Rightarrow> Some (Err_transport e)
            | None \<Rightarrow> if t_data t = [] then Some Err_eof else None, c))"

definition avail :: "ws_conn \<Rightarrow> bytes" where
  "avail c = drop (w_rbuf_consumed c) (w_rbuf c)"

text \<open>What is judged from the header alone.\<close>

definition header_violation :: "frame_header \<Rightarrow> ws_conn \<Rightarrow> bool" where
  "header_violation h c \<longleftrightarrow>
     (let control = is_control (fh_op h) in
      fh_rsv1 h \<or> fh_rsv2 h \<or> fh_rsv3 h \<or>
      fh_masked h \<noteq> (w_role c = Server) \<or>
      (control \<and> (\<not> fh_fin h \<or> fh_payload_length h > 125)) \<or>
      (\<not> control \<and> fh_op h = Op_continuation \<and> \<not> w_in_message c) \<or>
      (\<not> control \<and> fh_op h \<noteq> Op_continuation \<and> w_in_message c))"

datatype read_turn = Return "ws_message + ws_error" | Continue | Await

definition failed_with :: "u16 \<Rightarrow> ws_error \<Rightarrow> ws_conn \<Rightarrow> read_turn \<times> ws_conn" where
  "failed_with cd err c = (case ws_fail cd err c of (e, c) \<Rightarrow> (Return (Inr e), c))"

definition on_close_frame :: "bytes \<Rightarrow> ws_conn \<Rightarrow> read_turn \<times> ws_conn" where
  "on_close_frame payload c =
     (case parse_close_payload payload of
        None \<Rightarrow> failed_with cc_protocol_error Err_protocol c
      | Some (cd, reason) \<Rightarrow>
          if validate_utf8 (w_opts c) \<and> \<not> is_valid_utf8 reason then failed_with cc_invalid_payload Err_utf8 c
          else let c = c\<lparr>w_close_reason := reason, w_close_code := cd, w_close_received := True\<rparr>;
                   c = snd (ws_close cd [] c)
               in (Return (Inr Err_closed), c\<lparr>w_read_closed := True\<rparr>))"

definition on_data_frame :: "frame_header \<Rightarrow> bytes \<Rightarrow> ws_conn \<Rightarrow> read_turn \<times> ws_conn" where
  "on_data_frame h payload c =
     (let c = (if fh_op h \<noteq> Op_continuation then c\<lparr>w_in_message := True, w_message_type := fh_op h, w_message := []\<rparr> else c);
          c = c\<lparr>w_message := w_message c @ payload\<rparr> in
      if fh_fin h then
        let m = \<lparr>m_data = w_message c, m_type = w_message_type c\<rparr>; c = c\<lparr>w_in_message := False, w_message := []\<rparr> in
        if m_type m = Op_text \<and> validate_utf8 (w_opts c) \<and> \<not> is_valid_utf8 (m_data m)
        then failed_with cc_invalid_payload Err_utf8 c
        else (Return (Inl m), c)
      else (Continue, c))"

text \<open>Unmasking in place, then the dispatch on the opcode.\<close>

definition take_payload :: "frame_header \<Rightarrow> ws_conn \<Rightarrow> bytes \<times> ws_conn" where
  "take_payload h c =
     (let start = w_rbuf_consumed c + fh_header_size h; len = fh_payload_length h;
          raw = substr (w_rbuf c) start len;
          payload = (if fh_masked h then apply_mask (fh_masking_key h) 0 raw else raw)
      in (payload, c\<lparr>w_rbuf := take start (w_rbuf c) @ payload @ drop (start + len) (w_rbuf c),
                     w_rbuf_consumed := start + len\<rparr>))"

definition on_frame :: "frame_header \<Rightarrow> ws_conn \<Rightarrow> read_turn \<times> ws_conn" where
  "on_frame h c =
     (let (payload, c) = take_payload h c in
      if fh_op h = Op_ping then (Continue, if \<not> w_close_sent c then snd (enqueue Op_pong payload False c) else c)
      else if fh_op h = Op_pong then (Continue, c)
      else if fh_op h = Op_close then on_close_frame payload c
      else on_data_frame h payload c)"

definition read_turn :: "ws_conn \<Rightarrow> read_turn \<times> ws_conn" where
  "read_turn c =
     (if w_read_closed c then (Return (Inr Err_closed), c)
      else case parse_ws_header (avail c) of
             WsError \<Rightarrow> failed_with cc_protocol_error Err_protocol c
           | WsIncomplete \<Rightarrow> (Await, c)
           | WsComplete h \<Rightarrow>
               if header_violation h c then failed_with cc_protocol_error Err_protocol c
               else if \<not> is_control (fh_op h) \<and> length (w_message c) + fh_payload_length h > max_message_size (w_opts c)
               then failed_with cc_message_too_big Err_too_big c
               else if length (avail c) \<ge> fh_header_size h + fh_payload_length h then on_frame h c
               else (Await, c))"

text \<open>A turn that goes on has consumed a frame, so the loop ends.\<close>

lemma draw_mask_avail [simp]: "avail (snd (draw_mask c)) = avail c"
  by (simp add: draw_mask_def avail_def)

lemma enqueue_avail [simp]: "avail (snd (enqueue op p k c)) = avail c"
  using draw_mask_avail [of c] by (auto simp: enqueue_def Let_def avail_def split: prod.splits)

lemma take_payload_avail:
  assumes "fh_header_size h + fh_payload_length h \<le> length (avail c)" "2 \<le> fh_header_size h"
  shows "avail (snd (take_payload h c)) = drop (fh_header_size h + fh_payload_length h) (avail c)"
proof -
  let ?s = "w_rbuf_consumed c + fh_header_size h" and ?l = "fh_payload_length h"
  have "?s + ?l \<le> length (w_rbuf c)" using assms by (cases "w_rbuf_consumed c \<le> length (w_rbuf c)") (auto simp: avail_def)
  then have "length (take ?s (w_rbuf c)) = ?s" "length (fst (take_payload h c)) = ?l"
    by (simp_all add: take_payload_def Let_def)
  then have "drop (?s + ?l) (take ?s (w_rbuf c) @ fst (take_payload h c) @ drop (?s + ?l) (w_rbuf c)) = drop (?s + ?l) (w_rbuf c)"
    by simp
  then show ?thesis by (simp add: take_payload_def avail_def Let_def add.assoc add.commute add.left_commute)
qed

lemma failed_with_returns: "failed_with cd e c \<noteq> (Continue, c')"
  by (simp add: failed_with_def split: prod.splits)

lemma on_data_frame_avail: "on_data_frame h p c = (Continue, c') \<Longrightarrow> avail c' = avail c"
  by (auto simp: on_data_frame_def Let_def failed_with_returns avail_def split: if_splits)

lemma on_close_frame_returns: "on_close_frame p c \<noteq> (Continue, c')"
  by (auto simp: on_close_frame_def Let_def failed_with_returns split: option.splits prod.splits)

lemma on_frame_avail: "on_frame h c = (Continue, c') \<Longrightarrow> avail c' = avail (snd (take_payload h c))"
  by (auto simp: on_frame_def Let_def on_close_frame_returns split: prod.splits if_splits dest: on_data_frame_avail)

lemma ws_length_pos: "ws_length inp b = Inr (l, pos) \<Longrightarrow> 2 \<le> pos"
  by (auto simp: ws_length_def Let_def split: if_splits)

lemma ws_length_incomplete: "ws_length inp b \<noteq> Inl (WsComplete h)"
  by (auto simp: ws_length_def Let_def split: if_splits)

lemma parse_ws_header_size: "parse_ws_header inp = WsComplete h \<Longrightarrow> 2 \<le> fh_header_size h"
  by (auto simp: parse_ws_header_def Let_def split: if_splits sum.splits prod.splits simp: ws_length_incomplete dest: ws_length_pos)

lemma read_turn_progress:
  assumes "read_turn c = (Continue, c')"
  shows "length (avail c') < length (avail c)"
proof -
  obtain h where h: "parse_ws_header (avail c) = WsComplete h" "on_frame h c = (Continue, c')"
    "fh_header_size h + fh_payload_length h \<le> length (avail c)"
    using assms by (auto simp: read_turn_def failed_with_returns split: if_splits ws_parse.splits)
  then show ?thesis using parse_ws_header_size [OF h(1)] on_frame_avail [OF h(2)] take_payload_avail [OF h(3)] by simp
qed

text \<open>
  \<^verbatim>\<open>read\<close>, fed with the answers of the transport: the result, or \<open>None\<close> while it waits for one more, the state
  and the answers not used yet.
\<close>

definition read_failed :: "ws_conn \<Rightarrow> ws_conn" where
  "read_failed c = c\<lparr>w_read_closed := True, w_close_code := (if \<not> w_close_received c then cc_abnormal else w_close_code c)\<rparr>"

function ws_read :: "transport_read list \<Rightarrow> ws_conn \<Rightarrow> (ws_message + ws_error) option \<times> ws_conn \<times> transport_read list" where
  "ws_read ts c =
     (case read_turn c of
        (Return r, c1) \<Rightarrow> (Some r, c1, ts)
      | (Continue, c1) \<Rightarrow> ws_read ts c1
      | (Await, c1) \<Rightarrow>
          (case ts of
             [] \<Rightarrow> (None, c1, [])
           | t # ts1 \<Rightarrow>
               (case fill t c1 of
                  (None, c2) \<Rightarrow> ws_read ts1 c2
                | (Some ec, c2) \<Rightarrow> (Some (Inr ec), read_failed c2, ts1))))"
  by pat_completeness auto

termination
  by (relation "inv_image (less_than <*lex*> less_than) (\<lambda>(ts, c). (length ts, length (avail c)))")
    (auto simp: read_turn_progress)

declare ws_read.simps [simp del]

text \<open>
  \<^verbatim>\<open>finish\<close>: the close, the reads that discard late data until the peer's close or the deadline, and the end.  How
  many reads the deadline leaves time for is the bound \<open>n\<close>; a read that times out ends the wait as in the code.
\<close>

fun finish_wait :: "nat \<Rightarrow> transport_read list \<Rightarrow> ws_conn \<Rightarrow> ws_conn" where
  "finish_wait 0 ts c = c"
| "finish_wait (Suc n) ts c =
     (if w_read_closed c then c
      else case ws_read ts c of
             (Some (Inl m), c, ts) \<Rightarrow> finish_wait n ts c
           | (r, c, ts) \<Rightarrow> c)"

definition ws_finish :: "nat \<Rightarrow> transport_read list \<Rightarrow> ws_conn \<Rightarrow> ws_conn" where
  "ws_finish n ts c =
     (let c = (if \<not> w_close_sent c then snd (ws_close cc_normal [] c) else c); c = finish_wait n ts c
      in c\<lparr>w_read_closed := True\<rparr>)"

end
