(* ===== verification/WebSocket_Proofs.thy ===== *)
theory WebSocket_Proofs
  imports WebSocket_Codec
begin

unbundle bit_operations_syntax

text \<open>
  Correctness of the WebSocket codec: the frame round trip with masking, the UTF-8 validator against the
  definition of UTF-8, and the base64 round trip.
\<close>

section \<open>Masking\<close>

lemma apply_mask_nth: "i < length d \<Longrightarrow> apply_mask key off d ! i = d ! i XOR mask_key key (off + i)"
  by (simp add: apply_mask_def)

lemma apply_mask_involution: "apply_mask key off (apply_mask key off d) = d"
  by (rule nth_equalityI) (simp_all add: apply_mask_nth xor.assoc)

section \<open>Frame round trip\<close>

lemma header_octet0:
  fixes op :: opcode
  shows "((if fin then 0x80 else 0x00) OR opcode_val op) AND 0x0F = opcode_val op"
    and "(((if fin then 0x80 else 0x00) OR opcode_val op) AND 0x80 \<noteq> 0) = fin"
    and "((if fin then 0x80 else 0x00) OR opcode_val op) AND 0x40 = 0"
    and "((if fin then 0x80 else 0x00) OR opcode_val op) AND 0x20 = 0"
    and "((if fin then 0x80 else 0x00) OR opcode_val op) AND 0x10 = 0"
  by (cases op; cases fin; simp add: opcode_val_def)+

lemma opcode_roundtrip: "opcode_of (opcode_val op) = op"
  by (cases op) (simp_all add: opcode_of_def opcode_val_def)

lemma opcode_not_reserved: "((opcode_val op \<ge> 0x3 \<and> opcode_val op \<le> 0x7) \<or> opcode_val op \<ge> 0xB) = False"
  by (cases op) (simp_all add: opcode_val_def word_le_nat_alt)

lemma header_octet1:
  fixes l :: u8
  assumes "unat l < 128"
  shows "((if m then 0x80 else 0x00) OR l) AND 0x7F = l" and "(((if m then 0x80 else 0x00) OR l) AND 0x80 \<noteq> 0) = m"
proof -
  have "unat (l AND 0x7F) = unat l" using assms by (simp add: unat_and_low_masks)
  then have l: "l AND 0x7F = l" by (rule unat_eqI)
  have "(l AND 0x7F) AND 0x80 = 0" by (simp add: and.assoc)
  then have l': "l AND 0x80 = 0" using l by simp
  show "((if m then 0x80 else 0x00) OR l) AND 0x7F = l" "(((if m then 0x80 else 0x00) OR l) AND 0x80 \<noteq> 0) = m"
    by (simp_all add: bit.conj_disj_distrib2 bit.conj_disj_distrib l l')
qed

text \<open>The octets of the length field, the first with the mask bit.\<close>

definition len_octets :: "bool \<Rightarrow> nat \<Rightarrow> bytes" where
  "len_octets m n =
     (let mb = (if m then 0x80 else 0x00) in
      if n < 126 then [mb OR of_nat n]
      else if n \<le> 0xFFFF then (mb OR 126) # octets 2 (of_nat n :: u64)
      else (mb OR 127) # octets 8 (of_nat n :: u64))"

definition key_octets :: "u32 option \<Rightarrow> bytes" where
  "key_octets mk = (case mk of None \<Rightarrow> [] | Some k \<Rightarrow> octets 4 k)"

definition mask_body :: "u32 option \<Rightarrow> bytes \<Rightarrow> bytes" where
  "mask_body mk p = (case mk of None \<Rightarrow> p | Some k \<Rightarrow> apply_mask k 0 p)"

lemma encode_frame_parts:
  "encode_frame op p fin mk =
     ((if fin then 0x80 else 0x00) OR opcode_val op) # len_octets (mk \<noteq> None) (length p) @ key_octets mk @ mask_body mk p"
  by (cases mk) (simp_all add: encode_frame_def len_octets_def key_octets_def mask_body_def Let_def)

lemma len_octets_length: "length (len_octets m n) = 1 + (if n < 126 then 0 else if n \<le> 0xFFFF then 2 else 8)"
  by (simp add: len_octets_def Let_def)

lemma key_octets_length [simp]: "length (key_octets mk) = (if mk \<noteq> None then 4 else 0)"
  by (cases mk) (simp_all add: key_octets_def)

lemma mask_body_length [simp]: "length (mask_body mk p) = length p"
  by (cases mk) (simp_all add: mask_body_def)

lemma length_encode_frame: "length (encode_frame op p fin mk) = frame_size (length p) (mk \<noteq> None)"
  by (simp add: encode_frame_parts len_octets_length frame_size_def)

lemma len_octets_mask: "(len_octets m n ! 0 AND 0x80 \<noteq> 0) = m"
  using header_octet1(2) [of "of_nat n" m] header_octet1(2) [of 126 m] header_octet1(2) [of 127 m]
  by (simp add: len_octets_def Let_def unat_of_nat)

lemma ws_length_short:
  assumes "n < 126"
  shows "ws_length inp (len_octets m n ! 0) = Inr (of_nat n, 2)"
proof -
  have u: "unat (of_nat n :: u8) = n" using assms by (simp add: unat_of_nat)
  have "len_octets m n ! 0 AND 0x7F = of_nat n"
    using header_octet1(1) [of "of_nat n" m] assms u by (simp add: len_octets_def Let_def)
  moreover have "(of_nat n :: u8) \<noteq> 126" "(of_nat n :: u8) \<noteq> 127"
    using u assms arg_cong [of "of_nat n :: u8" 126 unat] arg_cong [of "of_nat n :: u8" 127 unat] by auto
  moreover have "ucast (of_nat n :: u8) = (of_nat n :: u64)"
    using u by (intro unat_eqI) (simp add: unat_ucast_up unat_of_nat)
  ultimately show ?thesis by (simp add: ws_length_def Let_def)
qed

lemma ws_length_mid:
  assumes "126 \<le> n" "n \<le> 0xFFFF" and inp: "inp = b # len_octets m n @ tail"
  shows "ws_length inp (len_octets m n ! 0) = Inr (of_nat n, 4)"
proof -
  have L: "len_octets m n = ((if m then 0x80 else 0x00) OR 126) # octets 2 (of_nat n :: u64)"
    using assms by (simp add: len_octets_def Let_def)
  have "unat (of_nat n :: u64) = n" using assms by (simp add: unat_of_nat)
  then have "unat (be_acc 0 (octets 2 (of_nat n :: u64)) :: u64) = n"
    using assms(2) by (simp add: unat_be_acc_0 be_nat_octets)
  then have "be_acc 0 (octets 2 (of_nat n :: u64)) = (of_nat n :: u64)"
    by (intro unat_eqI) (use assms(2) in \<open>simp add: unat_of_nat\<close>)
  then have "push_bit 8 (ucast (inp ! 2)) OR ucast (inp ! 3) = (of_nat n :: u64)"
    unfolding inp L by (simp add: octets_Suc be_acc_Cons numeral_2_eq_2 numeral_3_eq_3)
  moreover have "len_octets m n ! 0 AND 0x7F = 126"
    using header_octet1(1) [of 126 m] by (simp add: L)
  moreover have "4 \<le> length inp" using assms by (simp add: len_octets_length)
  ultimately show ?thesis by (simp add: ws_length_def Let_def)
qed

lemma ws_length_long:
  assumes "0xFFFF < n" "n < 2 ^ 63" and inp: "inp = b # len_octets m n @ tail"
  shows "ws_length inp (len_octets m n ! 0) = Inr (of_nat n, 10)"
proof -
  have L: "len_octets m n = ((if m then 0x80 else 0x00) OR 127) # octets 8 (of_nat n :: u64)"
    using assms by (simp add: len_octets_def Let_def)
  have n: "unat (of_nat n :: u64) = n" using assms by (simp add: unat_of_nat)
  then have "unat (be_acc 0 (octets 8 (of_nat n :: u64)) :: u64) = n"
    using assms(2) by (simp add: unat_be_acc_0 be_nat_octets)
  then have "be_acc 0 (octets 8 (of_nat n :: u64)) = (of_nat n :: u64)"
    by (intro unat_eqI) (simp add: n)
  then have "be_acc 0 (substr inp 2 8) = (of_nat n :: u64)"
    unfolding inp L by (simp add: numeral_2_eq_2)
  moreover have "\<not> kMaxPayloadLength < of_nat n"
    using assms(2) n by (simp add: word_less_nat_alt kMaxPayloadLength_def)
  moreover have "len_octets m n ! 0 AND 0x7F = 127"
    using header_octet1(1) [of 127 m] by (simp add: L)
  moreover have "10 \<le> length inp" using assms by (simp add: len_octets_length)
  ultimately show ?thesis by (simp add: ws_length_def Let_def)
qed

lemma ws_length_enc:
  assumes "n < 2 ^ 63" and "inp = b # len_octets m n @ tail"
  shows "ws_length inp (len_octets m n ! 0) = Inr (of_nat n, 1 + length (len_octets m n))"
proof -
  consider "n < 126" | "126 \<le> n" "n \<le> 0xFFFF" | "0xFFFF < n" by linarith
  then show ?thesis
    by cases (use ws_length_short ws_length_mid ws_length_long assms in \<open>simp_all add: len_octets_length\<close>)
qed

lemma key_octets_key: "be_acc 0 (octets 4 k) = (k :: u32)"
proof (rule unat_eqI)
  have "unat k < 256 ^ 4" using unsigned_less [of k, where ?'a = nat] by simp
  then show "unat (be_acc 0 (octets 4 k) :: u32) = unat k" by (simp add: unat_be_acc_0 be_nat_octets)
qed

lemma parse_encoded:
  assumes "n < 2 ^ 63" and "inp = ((if fin then 0x80 else 0x00) OR opcode_val op) # len_octets (mk \<noteq> None) n @ key_octets mk @ tail"
  shows "parse_ws_header inp = WsComplete \<lparr>fh_payload_length = n, fh_masking_key = (case mk of None \<Rightarrow> 0 | Some k \<Rightarrow> k),
           fh_header_size = 1 + length (len_octets (mk \<noteq> None) n) + length (key_octets mk), fh_op = op, fh_fin = fin,
           fh_rsv1 = False, fh_rsv2 = False, fh_rsv3 = False, fh_masked = (mk \<noteq> None)\<rparr>"
proof -
  define L where "L = len_octets (mk \<noteq> None) n"
  have L: "length L \<ge> 1" by (simp add: L_def len_octets_length)
  have inp: "inp = ((if fin then 0x80 else 0x00) OR opcode_val op) # L @ key_octets mk @ tail" using assms(2) L_def by simp
  have i1: "inp ! 1 = L ! 0" using inp L by (cases L) auto
  have len: "ws_length inp (L ! 0) = Inr (of_nat n, 1 + length L)"
    unfolding L_def by (rule ws_length_enc [OF assms])
  have msk: "(L ! 0 AND 0x80 \<noteq> 0) = (mk \<noteq> None)" unfolding L_def by (rule len_octets_mask)
  have key: "(case mk of None \<Rightarrow> 0 | Some k \<Rightarrow> k) = (if mk \<noteq> None then be_acc 0 (substr inp (1 + length L) 4) else 0)"
    by (cases mk) (simp_all add: inp key_octets_def key_octets_key)
  have n: "unat (of_nat n :: u64) = n" using assms(1) by (simp add: unat_of_nat)
  have "\<not> length inp < 2" "\<not> (mk \<noteq> None \<and> length inp < 1 + length L + 4)" using inp L by auto
  then show ?thesis
    unfolding L_def [symmetric] parse_ws_header_def Let_def i1 len msk key
    by (simp add: inp header_octet0 opcode_not_reserved opcode_roundtrip n)
qed

lemma mask_body_involution: "mask_body mk (mask_body mk p) = p"
  by (cases mk) (simp_all add: mask_body_def apply_mask_involution)

text \<open>A reader that has not seen the whole header asks for more.\<close>

lemma parse_prefix_incomplete:
  assumes "n < 2 ^ 63" and inp: "inp = ((if fin then 0x80 else 0x00) OR opcode_val op) # len_octets (mk \<noteq> None) n @ key_octets mk @ tail"
    and k: "k < 1 + length (len_octets (mk \<noteq> None) n) + length (key_octets mk)"
  shows "parse_ws_header (take k inp) = WsIncomplete"
proof (cases "k < 2")
  case False
  define L where "L = len_octets (mk \<noteq> None) n"
  have L: "length L \<ge> 1" by (simp add: L_def len_octets_length)
  have inp': "inp = ((if fin then 0x80 else 0x00) OR opcode_val op) # L @ key_octets mk @ tail" using inp L_def by simp
  have i1: "take k inp ! 1 = L ! 0" and i0: "take k inp ! 0 = (if fin then 0x80 else 0x00) OR opcode_val op"
    using inp' L False by (cases L; simp)+
  have lk: "length (take k inp) = k" using k inp by simp
  show ?thesis
  proof (cases "k < 1 + length L")
    case True
    then have "126 \<le> n" using False by (simp add: L_def len_octets_length split: if_splits)
    then have "ws_length (take k inp) (L ! 0) = Inl WsIncomplete"
      using True header_octet1(1) [of 126 "mk \<noteq> None"] header_octet1(1) [of 127 "mk \<noteq> None"]
      unfolding L_def ws_length_def lk by (simp add: len_octets_def Let_def split: if_splits)
    then show ?thesis
      unfolding parse_ws_header_def Let_def i0 i1 by (simp add: lk False header_octet0 opcode_not_reserved)
  next
    case le: False
    then have "take k inp = ((if fin then 0x80 else 0x00) OR opcode_val op) # L @ take (k - 1 - length L) (key_octets mk @ tail)"
      using False inp' by (cases k) (simp_all add: take_append)
    then have len: "ws_length (take k inp) (L ! 0) = Inr (of_nat n, 1 + length L)"
      unfolding L_def by (intro ws_length_enc [OF assms(1)])
    have "mk \<noteq> None" using le k L_def by (cases mk) (simp_all add: key_octets_def)
    moreover have "k < 1 + length L + 4" using le k L_def calculation by simp
    moreover have "L ! 0 AND 0x80 \<noteq> 0" using len_octets_mask [of "mk \<noteq> None" n] calculation L_def by simp
    ultimately show ?thesis
      unfolding parse_ws_header_def Let_def i0 i1 len lk by (simp add: False header_octet0 opcode_not_reserved)
  qed
qed (simp add: parse_ws_header_def min_def)

lemma frame_parse:
  assumes "length p < 2 ^ 63"
  shows "length (encode_frame op p fin mk) = frame_size (length p) (mk \<noteq> None) \<and>
    (\<exists>h. parse_ws_header (encode_frame op p fin mk @ rest) = WsComplete h \<and>
       fh_op h = op \<and> fh_fin h = fin \<and> fh_masked h = (mk \<noteq> None) \<and> (\<forall>k. mk = Some k \<longrightarrow> fh_masking_key h = k) \<and>
       \<not> fh_rsv1 h \<and> \<not> fh_rsv2 h \<and> \<not> fh_rsv3 h \<and>
       fh_payload_length h = length p \<and> fh_header_size h + length p = frame_size (length p) (mk \<noteq> None) \<and>
       (let body = substr (encode_frame op p fin mk @ rest) (fh_header_size h) (fh_payload_length h)
        in (if fh_masked h then apply_mask (fh_masking_key h) 0 body else body) = p) \<and>
       (\<forall>k < fh_header_size h. parse_ws_header (take k (encode_frame op p fin mk @ rest)) = WsIncomplete))"
proof -
  let ?h = "\<lparr>fh_payload_length = length p, fh_masking_key = (case mk of None \<Rightarrow> 0 | Some k \<Rightarrow> k),
           fh_header_size = 1 + length (len_octets (mk \<noteq> None) (length p)) + length (key_octets mk), fh_op = op, fh_fin = fin,
           fh_rsv1 = False, fh_rsv2 = False, fh_rsv3 = False, fh_masked = (mk \<noteq> None)\<rparr>"
  let ?i = "encode_frame op p fin mk @ rest"
  have i: "?i = ((if fin then 0x80 else 0x00) OR opcode_val op) # len_octets (mk \<noteq> None) (length p) @ key_octets mk @ mask_body mk p @ rest"
    by (simp add: encode_frame_parts)
  have body: "substr ?i (fh_header_size ?h) (fh_payload_length ?h) = mask_body mk p"
    unfolding i by (simp add: drop_append)
  have "(if fh_masked ?h then apply_mask (fh_masking_key ?h) 0 (mask_body mk p) else mask_body mk p) = p"
    using mask_body_involution [of mk p] by (cases mk) (simp_all add: mask_body_def)
  moreover have "fh_header_size ?h + length p = frame_size (length p) (mk \<noteq> None)"
    by (simp add: len_octets_length frame_size_def)
  moreover have "\<forall>k < fh_header_size ?h. parse_ws_header (take k ?i) = WsIncomplete"
    using parse_prefix_incomplete [OF assms i] by simp
  ultimately show ?thesis
    using parse_encoded [OF assms i] length_encode_frame [of op p fin mk] body
    by (intro conjI exI [of _ ?h]) (simp_all add: Let_def)
qed

text \<open>
  C28. Frame round trip.  Every frame that \<^verbatim>\<open>encode_frame\<close> writes, masked or not and of any of the three length
  forms, has the size \<^verbatim>\<open>frame_size\<close> announces; \<^verbatim>\<open>parse_header\<close> reads back from it, whatever follows, the
  opcode, the FIN flag, the masking key and the payload length, with the reserved bits clear; the octets after the
  header are the payload once unmasked; and on any proper prefix of the header the parser asks for more input.
\<close>

theorem ws_frame_roundtrip:
  assumes "length p < 2 ^ 63"
  shows "length (encode_frame op p fin mk) = frame_size (length p) (mk \<noteq> None) \<and>
    (\<exists>h. parse_ws_header (encode_frame op p fin mk @ rest) = WsComplete h \<and>
       fh_op h = op \<and> fh_fin h = fin \<and> fh_masked h = (mk \<noteq> None) \<and> (\<forall>k. mk = Some k \<longrightarrow> fh_masking_key h = k) \<and>
       \<not> fh_rsv1 h \<and> \<not> fh_rsv2 h \<and> \<not> fh_rsv3 h \<and>
       fh_payload_length h = length p \<and> fh_header_size h + length p = frame_size (length p) (mk \<noteq> None) \<and>
       (let body = substr (encode_frame op p fin mk @ rest) (fh_header_size h) (fh_payload_length h)
        in (if fh_masked h then apply_mask (fh_masking_key h) 0 body else body) = p) \<and>
       (\<forall>k < fh_header_size h. parse_ws_header (take k (encode_frame op p fin mk @ rest)) = WsIncomplete))"
  using assms by (rule frame_parse)

theorem ws_frame_roundtrip_witness:
  "length (encode_frame Op_text [0x48, 0x69] True (Some 0x01020304)) = 8 \<and>
   (\<exists>h. parse_ws_header (encode_frame Op_text [0x48, 0x69] True (Some 0x01020304) @ [7]) = WsComplete h \<and>
     fh_header_size h = 6 \<and> fh_op h = Op_text)"
  using ws_frame_roundtrip [of "[0x48, 0x69]" Op_text True "Some 0x01020304" "[7]"]
  by (auto simp: frame_size_def)

section \<open>Close payloads\<close>

lemma utf8_cut_le: "utf8_cut s k \<le> k"
  by (induction k) auto

lemma utf8_prefix_le: "length (utf8_prefix s mx) \<le> mx"
  using utf8_cut_le [of s mx] by (simp add: utf8_prefix_def)

lemma close_code_octets: "push_bit 8 (ucast (octets 2 c ! 0)) OR ucast (octets 2 c ! 1) = (c :: u16)"
proof (rule unat_eqI)
  have "push_bit 8 (ucast (octets 2 c ! 0)) OR ucast (octets 2 c ! 1) = (be_acc 0 (octets 2 c) :: u16)"
    by (simp add: octets_Suc be_acc_Cons numeral_2_eq_2)
  moreover have "unat c < 256 ^ 2" using unsigned_less [of c, where ?'a = nat] by simp
  ultimately show "unat (push_bit 8 (ucast (octets 2 c ! 0)) OR ucast (octets 2 c ! 1) :: u16) = unat c"
    by (simp add: unat_be_acc_0 be_nat_octets)
qed

lemma parse_close_payload_encoded:
  assumes "is_valid_close_code c"
  shows "parse_close_payload (close_payload c r) = Some (c, utf8_prefix r 123)"
proof -
  have "c \<noteq> cc_no_status" "c \<noteq> cc_abnormal"
    using assms by (auto simp: is_valid_close_code_def cc_no_status_def cc_abnormal_def word_le_nat_alt)
  moreover have "octets 2 c = [octet c 8, octet c 0]" by (simp add: numeral_2_eq_2 octets_Suc)
  ultimately show ?thesis
    using assms close_code_octets [of c] by (simp add: close_payload_def parse_close_payload_def Let_def)
qed

section \<open>UTF-8\<close>

lemma u8_all:
  assumes "list_all (\<lambda>n. P (of_nat n :: u8)) [0..<256]"
  shows "P (c :: u8)"
proof -
  have "unat c \<in> set [0..<256]" by simp
  then have "P (of_nat (unat c))" using assms by (metis list_all_iff)
  then show ?thesis by simp
qed

lemma lead_classes:
  "(c AND 0xE0 = 0xC0) = (unat (c :: u8) div 32 = 6)"
  by (rule u8_all [of _ c]) code_simp

lemma lead_classes3: "(c AND 0xF0 = 0xE0) = (unat (c::u8) div 16 = 14)"
  by (rule u8_all [of _ c]) code_simp
lemma lead_classes4:"(c AND 0xF8 = 0xF0) = (unat (c::u8) div 8 = 30)"
  by (rule u8_all [of _ c]) code_simp

lemma cont_class: "((b :: u8) AND 0xC0 = 0x80) = (unat b div 64 = 2)"
  by (rule u8_all [of _ b]) code_simp


lemma u8_less_numeral: "((c :: u8) < numeral k) = (unat c < unat (numeral k :: u8))"
  by (rule word_less_nat_alt)

text \<open>The value that the loop accumulates.\<close>

lemma unat_bits_step:
  fixes cp :: u32
  assumes "unat cp < 2 ^ 20"
  shows "unat (push_bit 6 cp OR ucast (b AND 0x3F)) = unat cp * 64 + unat (b :: u8) mod 64"
  using unat_push_or [of cp 6 "ucast (b AND 0x3F)"] assms by (simp add: unat_ucast_up unat_and_low_masks)

lemma unat_and7: "unat ((c :: u8) AND 0x07) = unat c mod 8"
  using unat_take_bit [of 3 c] by (simp add: take_bit_eq_mask mask_numeral)

abbreviation cont :: "u8 \<Rightarrow> bool" where
  "cont b \<equiv> unat b div 64 = 2"

definition scalar :: "nat \<Rightarrow> bool" where
  "scalar cp \<longleftrightarrow> cp \<le> 0x10FFFF \<and> \<not> (0xD800 \<le> cp \<and> cp \<le> 0xDFFF)"

lemma utf8_1: "unat c < 128 \<Longrightarrow> is_valid_utf8 (c # s) = is_valid_utf8 s"
  by (simp add: word_less_nat_alt)

lemma utf8_bad:
  assumes "128 \<le> unat c" "unat c < 194 \<or> 244 < unat c"
  shows "\<not> is_valid_utf8 (c # s)"
proof -
  have "utf8_lead c = None"
    using assms unfolding utf8_lead_def lead_classes lead_classes3 lead_classes4 by (auto simp: word_less_nat_alt)
  then show ?thesis using assms by (simp add: word_less_nat_alt)
qed

lemma utf8_step:
  assumes "128 \<le> unat c" "utf8_lead c = Some (n, cp0)"
  shows "is_valid_utf8 (c # s) =
    (n \<le> length s \<and> list_all cont (take n s) \<and> \<not> (n = 2 \<and> unat (utf8_bits cp0 (take n s)) < 0x800) \<and>
     \<not> (n = 3 \<and> unat (utf8_bits cp0 (take n s)) < 0x10000) \<and> scalar (unat (utf8_bits cp0 (take n s))) \<and> is_valid_utf8 (drop n s))"
  using assms unfolding is_valid_utf8.simps(2) cont_class
  by (simp add: word_less_nat_alt word_le_nat_alt Let_def scalar_def) (simp only: not_le not_less conj_ac de_Morgan_conj, blast)

declare is_valid_utf8.simps(2) [simp del]

lemma utf8_bits_Cons: "utf8_bits cp (b # bs) = utf8_bits (push_bit 6 cp OR ucast (b AND 0x3F)) bs"
  by (simp add: utf8_bits_def)

lemma utf8_bits_1: "unat cp < 2 ^ 20 \<Longrightarrow> unat (utf8_bits cp [b]) = unat cp * 64 + unat b mod 64"
  by (simp add: utf8_bits_def unat_bits_step)

lemma utf8_bits_2: "unat cp < 2 ^ 14 \<Longrightarrow> unat (utf8_bits cp [b, d]) = unat cp * 4096 + (unat b mod 64) * 64 + unat d mod 64"
  unfolding utf8_bits_Cons [of cp b] using mod_less_divisor [of 64 "unat b"] by (simp add: utf8_bits_1 unat_bits_step del: push_bit_or)

lemma utf8_bits_3: "unat cp < 2 ^ 8 \<Longrightarrow> unat (utf8_bits cp [b, d, e]) =
    unat cp * 262144 + (unat b mod 64) * 4096 + (unat d mod 64) * 64 + unat e mod 64"
  unfolding utf8_bits_Cons [of cp b] using mod_less_divisor [of 64 "unat b"] by (simp add: utf8_bits_2 unat_bits_step)

lemma split_2: "(2 \<le> length s) = (\<exists>b d s'. s = b # d # s')"
  by (cases s; cases "tl s") auto

lemma split_3: "(3 \<le> length s) = (\<exists>b d e s'. s = b # d # e # s')"
  by (cases s; cases "tl s"; cases "tl (tl s)") auto

lemma utf8_2:
  assumes "194 \<le> unat c" "unat c < 224"
  shows "is_valid_utf8 (c # s) = (\<exists>b s'. s = b # s' \<and> cont b \<and> is_valid_utf8 s')"
proof -
  have "unat c div 32 = 6" using assms by simp
  then have lead: "utf8_lead c = Some (1, ucast (c AND 0x1F))"
    using assms unfolding utf8_lead_def lead_classes by (simp add: word_less_nat_alt)
  have v: "unat (utf8_bits (ucast (c AND 0x1F)) [b]) = (unat c mod 32) * 64 + unat b mod 64" for b
    by (simp add: utf8_bits_1 unat_ucast_up unat_and_low_masks)
  moreover have "scalar ((unat c mod 32) * 64 + unat b mod 64)" for b :: u8
    using mod_less_divisor [of 32 "unat c"] mod_less_divisor [of 64 "unat b"] unfolding scalar_def by linarith
  ultimately show ?thesis using assms by (cases s) (simp_all add: utf8_step [OF _ lead])
qed

lemma utf8_3:
  assumes "224 \<le> unat c" "unat c < 240"
  shows "is_valid_utf8 (c # s) = (\<exists>b d s'. s = b # d # s' \<and> cont b \<and> cont d \<and>
     0x800 \<le> (unat c - 224) * 4096 + (unat b mod 64) * 64 + unat d mod 64 \<and>
     scalar ((unat c - 224) * 4096 + (unat b mod 64) * 64 + unat d mod 64) \<and> is_valid_utf8 s')"
proof -
  have q: "unat c div 16 = 14" "unat c div 32 = 7" using assms by simp_all
  have m: "unat c mod 16 = unat c - 224" using q(1) by (simp add: minus_mult_div_eq_mod [symmetric])
  have lead: "utf8_lead c = Some (2, ucast (c AND 0x0F))"
    using q unfolding utf8_lead_def lead_classes lead_classes3 by simp
  have v: "unat (utf8_bits (ucast (c AND 0x0F)) [b, d]) = (unat c - 224) * 4096 + (unat b mod 64) * 64 + unat d mod 64" for b d
    unfolding m [symmetric] using mod_less_divisor [of 16 "unat c"]
    by (simp add: utf8_bits_2 unat_ucast_up unat_and_low_masks)
  show ?thesis
  proof (cases "2 \<le> length s")
    case True
    then obtain b d s' where "s = b # d # s'" unfolding split_2 by blast
    then show ?thesis using assms by (simp add: utf8_step [OF _ lead] v not_less)
  next
    case False
    then show ?thesis using assms by (auto simp: utf8_step [OF _ lead])
  qed
qed

lemma utf8_4:
  assumes "240 \<le> unat c" "unat c \<le> 244"
  shows "is_valid_utf8 (c # s) = (\<exists>b d e s'. s = b # d # e # s' \<and> cont b \<and> cont d \<and> cont e \<and>
     0x10000 \<le> (unat c - 240) * 262144 + (unat b mod 64) * 4096 + (unat d mod 64) * 64 + unat e mod 64 \<and>
     scalar ((unat c - 240) * 262144 + (unat b mod 64) * 4096 + (unat d mod 64) * 64 + unat e mod 64) \<and> is_valid_utf8 s')"
proof -
  have q: "unat c div 16 = 15" "unat c div 32 = 7" "unat c div 8 = 30" using assms by simp_all
  have m: "unat c mod 8 = unat c - 240" using q(3) by (simp add: minus_mult_div_eq_mod [symmetric])
  have lead: "utf8_lead c = Some (3, ucast (c AND 0x07))"
    using q assms unfolding utf8_lead_def lead_classes lead_classes3 lead_classes4 by (simp add: word_less_nat_alt)
  have v: "unat (utf8_bits (ucast (c AND 0x07)) [b, d, e]) =
      (unat c - 240) * 262144 + (unat b mod 64) * 4096 + (unat d mod 64) * 64 + unat e mod 64" for b d e
    unfolding m [symmetric] using mod_less_divisor [of 8 "unat c"]
    by (simp add: utf8_bits_3 unat_ucast_up unat_and7)
  show ?thesis
  proof (cases "3 \<le> length s")
    case True
    then obtain b d e s' where "s = b # d # e # s'" unfolding split_3 by blast
    then show ?thesis using assms by (simp add: utf8_step [OF _ lead] v not_less)
  next
    case False
    then show ?thesis using assms by (auto simp: utf8_step [OF _ lead])
  qed
qed

text \<open>The octets of a code point (RFC 3629, section 3).\<close>

definition utf8_enc :: "nat \<Rightarrow> bytes" where
  "utf8_enc cp =
     (if cp < 0x80 then [of_nat cp]
      else if cp < 0x800 then [of_nat (192 + cp div 64), of_nat (128 + cp mod 64)]
      else if cp < 0x10000 then [of_nat (224 + cp div 4096), of_nat (128 + cp div 64 mod 64), of_nat (128 + cp mod 64)]
      else [of_nat (240 + cp div 262144), of_nat (128 + cp div 4096 mod 64), of_nat (128 + cp div 64 mod 64),
            of_nat (128 + cp mod 64)])"

lemma u8_of_nat: "n < 256 \<Longrightarrow> unat (of_nat n :: u8) = n"
  by (simp add: unat_of_nat)

lemma mod64_add: "(x * 64 + d) mod 64 = d mod (64 :: nat)"
  by simp

lemma u8_cont [simp]: "unat (of_nat (128 + n mod 64) :: u8) = 128 + n mod 64" "(128 + n mod 64) div 64 = 2" "(128 + n mod 64) mod 64 = n mod 64"
proof -
  have "n mod 64 < 64" by simp
  then show "unat (of_nat (128 + n mod 64) :: u8) = 128 + n mod 64" by (intro u8_of_nat) linarith
qed (use mod64_add [of 2 "n mod 64"] in simp_all)

lemma split64: "n div 4096 * 4096 + n div 64 mod 64 * 64 + n mod 64 = (n :: nat)"
proof -
  have "n div 4096 = n div 64 div 64" by (simp add: div_mult2_eq [symmetric])
  then show ?thesis using div_mult_mod_eq [of "n div 64" 64] div_mult_mod_eq [of n 64] by linarith
qed

lemma utf8_enc_valid:
  assumes "scalar cp"
  shows "is_valid_utf8 (utf8_enc cp @ rest) = is_valid_utf8 rest"
proof -
  consider "cp < 0x80" | "0x80 \<le> cp" "cp < 0x800" | "0x800 \<le> cp" "cp < 0x10000" | "0x10000 \<le> cp" by linarith
  then show ?thesis
  proof cases
    case 1
    then show ?thesis by (simp add: utf8_enc_def utf8_1 u8_of_nat)
  next
    case 2
    then have "cp div 64 < 32" "2 \<le> cp div 64" by simp_all
    then show ?thesis using 2 by (simp add: utf8_enc_def utf8_2 u8_of_nat del: of_nat_add)
  next
    case 3
    then have c: "unat (of_nat (224 + cp div 4096) :: u8) = 224 + cp div 4096" by (intro u8_of_nat) simp
    have "cp div 4096 < 16" using 3 by simp
    then show ?thesis using 3 assms split64 [of cp] by (simp add: utf8_enc_def utf8_3 c del: of_nat_add)
  next
    case 4
    have cp: "cp div 262144 \<le> 4" using assms less_mult_imp_div_less [of cp 5 262144] by (simp add: scalar_def)
    then have c: "unat (of_nat (240 + cp div 262144) :: u8) = 240 + cp div 262144" by (intro u8_of_nat) simp
    have "cp div 262144 * 262144 + cp div 4096 mod 64 * 4096 = cp div 4096 * 4096"
      using div_mult_mod_eq [of "cp div 4096" 64] by (simp add: div_mult2_eq [symmetric])
    then have "cp div 262144 * 262144 + cp div 4096 mod 64 * 4096 + cp div 64 mod 64 * 64 + cp mod 64 = cp"
      using split64 [of cp] by simp
    then show ?thesis using 4 assms cp by (simp add: utf8_enc_def utf8_4 c del: of_nat_add)
  qed
qed

lemma cont_eq: "cont b \<Longrightarrow> b = of_nat (128 + unat b mod 64)"
proof (rule unat_eqI)
  assume "cont b"
  then have "unat b = 128 + unat b mod 64" using div_mult_mod_eq [of "unat b" 64] by simp
  then show "unat b = unat (of_nat (128 + unat b mod 64) :: u8)" by simp
qed

lemma utf8_enc_2: "b < 64 \<Longrightarrow> 2 \<le> a \<Longrightarrow> a < 32 \<Longrightarrow> utf8_enc (a * 64 + b) = [of_nat (192 + a), of_nat (128 + b)]"
  by (simp add: utf8_enc_def)

lemma utf8_enc_3:
  assumes "b < 64" "d < 64" "a < 16" "0x800 \<le> a * 4096 + b * 64 + d"
  shows "utf8_enc (a * 4096 + b * 64 + d) = [of_nat (224 + a), of_nat (128 + b), of_nat (128 + d)]"
proof -
  have "a * 4096 + b * 64 + d < 0x10000" using assms by linarith
  moreover have "(a * 4096 + b * 64 + d) div 64 = a * 64 + b" "(a * 4096 + b * 64 + d) mod 64 = d"
    "(a * 4096 + b * 64 + d) div 4096 = a" using assms mod64_add [of "a * 64 + b" d] by (simp_all add: algebra_simps)
  ultimately show ?thesis using assms by (simp add: utf8_enc_def)
qed

lemma utf8_enc_4:
  assumes "b < 64" "d < 64" "e < 64" "0x10000 \<le> a * 262144 + b * 4096 + d * 64 + e"
  shows "utf8_enc (a * 262144 + b * 4096 + d * 64 + e) = [of_nat (240 + a), of_nat (128 + b), of_nat (128 + d), of_nat (128 + e)]"
proof -
  let ?n = "a * 262144 + b * 4096 + d * 64 + e"
  have "?n div 64 = a * 4096 + b * 64 + d" "?n mod 64 = e" "?n div 4096 = a * 64 + b" "?n div 262144 = a"
    using assms mod64_add [of "a * 4096 + b * 64 + d" e] by (simp_all add: algebra_simps)
  moreover have "(a * 4096 + b * 64 + d) mod 64 = d"
    using mod64_add [of "a * 64 + b" d] assms by (simp add: algebra_simps)
  ultimately show ?thesis using assms by (simp add: utf8_enc_def)
qed

lemma utf8_valid_split:
  assumes "is_valid_utf8 (c # s)"
  shows "\<exists>cp rest. scalar cp \<and> c # s = utf8_enc cp @ rest \<and> is_valid_utf8 rest"
proof -
  consider "unat c < 128" | "128 \<le> unat c" "unat c < 194 \<or> 244 < unat c" | "194 \<le> unat c" "unat c < 224"
    | "224 \<le> unat c" "unat c < 240" | "240 \<le> unat c" "unat c \<le> 244" by linarith
  then show ?thesis
  proof cases
    case 1
    then show ?thesis using assms by (intro exI [of _ "unat c"] exI [of _ s]) (simp add: utf8_1 utf8_enc_def scalar_def)
  next
    case 2
    then show ?thesis using assms utf8_bad by blast
  next
    case 3
    then obtain b s' where s: "s = b # s'" "cont b" "is_valid_utf8 s'" using assms by (auto simp: utf8_2)
    have "utf8_enc ((unat c - 192) * 64 + unat b mod 64) = [c, b]"
      using 3 utf8_enc_2 [of "unat b mod 64" "unat c - 192"] cont_eq [OF s(2)] by simp
    moreover have "scalar ((unat c - 192) * 64 + unat b mod 64)"
      using 3 mod_less_divisor [of 64 "unat b"] unfolding scalar_def by linarith
    ultimately show ?thesis using s by (intro exI [of _ "(unat c - 192) * 64 + unat b mod 64"] exI [of _ s']) simp
  next
    case 4
    then obtain b d s' where s: "s = b # d # s'" "cont b" "cont d" "is_valid_utf8 s'"
      and cp: "0x800 \<le> (unat c - 224) * 4096 + (unat b mod 64) * 64 + unat d mod 64"
        "scalar ((unat c - 224) * 4096 + (unat b mod 64) * 64 + unat d mod 64)"
      using assms utf8_3 [of c s] by blast
    have "utf8_enc ((unat c - 224) * 4096 + (unat b mod 64) * 64 + unat d mod 64) = [c, b, d]"
      using 4 utf8_enc_3 [OF _ _ _ cp(1)] cont_eq [OF s(2)] cont_eq [OF s(3)] by simp
    then show ?thesis using s cp(2) by (intro exI conjI) auto
  next
    case 5
    then obtain b d e s' where s: "s = b # d # e # s'" "cont b" "cont d" "cont e" "is_valid_utf8 s'"
      and cp: "0x10000 \<le> (unat c - 240) * 262144 + (unat b mod 64) * 4096 + (unat d mod 64) * 64 + unat e mod 64"
        "scalar ((unat c - 240) * 262144 + (unat b mod 64) * 4096 + (unat d mod 64) * 64 + unat e mod 64)"
      using assms utf8_4 [of c s] by blast
    have "utf8_enc ((unat c - 240) * 262144 + (unat b mod 64) * 4096 + (unat d mod 64) * 64 + unat e mod 64) = [c, b, d, e]"
      using 5 utf8_enc_4 [OF _ _ _ cp(1)] cont_eq [OF s(2)] cont_eq [OF s(3)] cont_eq [OF s(4)] by simp
    then show ?thesis using s cp(2) by (intro exI conjI) auto
  qed
qed

lemma utf8_enc_nonempty: "utf8_enc cp \<noteq> []"
  by (simp add: utf8_enc_def)

lemma utf8_characterisation:
  "is_valid_utf8 s \<longleftrightarrow> (\<exists>cps. list_all scalar cps \<and> s = concat (map utf8_enc cps))"
proof
  assume "is_valid_utf8 s"
  then show "\<exists>cps. list_all scalar cps \<and> s = concat (map utf8_enc cps)"
  proof (induction "length s" arbitrary: s rule: less_induct)
    case less
    show ?case
    proof (cases s)
      case Nil
      then show ?thesis by (intro exI [of _ "[]"]) simp
    next
      case (Cons c t)
      then obtain cp rest where cp: "scalar cp" "s = utf8_enc cp @ rest" "is_valid_utf8 rest"
        using less.prems utf8_valid_split [of c t] by auto
      then have "length rest < length s" using utf8_enc_nonempty [of cp] by simp
      from less.hyps [OF this cp(3)] obtain cps where "list_all scalar cps" "rest = concat (map utf8_enc cps)" by blast
      then show ?thesis using cp by (intro exI [of _ "cp # cps"]) simp
    qed
  qed
next
  assume "\<exists>cps. list_all scalar cps \<and> s = concat (map utf8_enc cps)"
  then obtain cps where "list_all scalar cps" "s = concat (map utf8_enc cps)" by blast
  then show "is_valid_utf8 s"
    by (induction cps arbitrary: s) (simp_all add: utf8_enc_valid)
qed


text \<open>
  C29. UTF-8.  \<^verbatim>\<open>is_valid_utf8\<close> accepts exactly the octet strings that are the UTF-8 form of some sequence of Unicode
  scalar values: overlong forms, surrogates, code points above U+10FFFF, truncated sequences and stray continuation
  octets are all refused, and every well-formed text is accepted.
\<close>

theorem is_valid_utf8_exact:
  "is_valid_utf8 s \<longleftrightarrow> (\<exists>cps. list_all scalar cps \<and> s = concat (map utf8_enc cps))"
  by (rule utf8_characterisation)

lemma utf8_enc_shape: "list_all cont (tl (utf8_enc cp))" and utf8_enc_lead: "scalar cp \<Longrightarrow> \<not> cont (hd (utf8_enc cp))"
proof -
  show "list_all cont (tl (utf8_enc cp))" by (simp add: utf8_enc_def del: of_nat_add)
next
  assume "scalar cp"
  then have v: "is_valid_utf8 (utf8_enc cp)" using utf8_enc_valid [of cp "[]"] by simp
  then obtain c s where c: "utf8_enc cp = c # s" using utf8_enc_nonempty by (metis neq_Nil_conv)
  show "\<not> cont (hd (utf8_enc cp))"
  proof
    assume "cont (hd (utf8_enc cp))"
    then have "cont c" using c by simp
    then have "128 \<le> unat c" "unat c < 192" using div_mult_mod_eq [of "unat c" 64] mod_less_divisor [of 64 "unat c"] by simp_all
    then show False using utf8_bad [of c s] v c by simp
  qed
qed

text \<open>Cutting a valid text before an octet that continues nothing leaves a valid text.\<close>

lemma take_valid:
  assumes "list_all scalar cps" "k < length (concat (map utf8_enc cps))" "k = 0 \<or> \<not> cont (concat (map utf8_enc cps) ! k)"
  shows "is_valid_utf8 (take k (concat (map utf8_enc cps)))"
  using assms
proof (induction cps arbitrary: k)
  case (Cons cp cps)
  let ?e = "utf8_enc cp" and ?t = "concat (map utf8_enc cps)"
  show ?case
  proof (cases "k < length ?e")
    case True
    have "k = 0"
    proof (rule ccontr)
      assume "k \<noteq> 0"
      then have "?e ! k \<in> set (tl ?e)" using True utf8_enc_nonempty [of cp] by (cases ?e; cases k) auto
      then have "cont (?e ! k)" using utf8_enc_shape [of cp] by (auto simp: list_all_iff)
      then show False using Cons.prems(3) True \<open>k \<noteq> 0\<close> by (simp add: nth_append)
    qed
    then show ?thesis by simp
  next
    case False
    then have "is_valid_utf8 (take (k - length ?e) ?t)"
      using Cons.prems by (intro Cons.IH) (auto simp: nth_append)
    then show ?thesis using False Cons.prems(1) by (simp add: utf8_enc_valid)
  qed
qed simp

lemma utf8_cut_boundary: "k < length s \<Longrightarrow> utf8_cut s k = 0 \<or> \<not> cont (s ! utf8_cut s k)"
  by (induction k) (simp_all add: cont_class)

lemma utf8_prefix_valid:
  assumes "is_valid_utf8 s"
  shows "is_valid_utf8 (utf8_prefix s mx)"
proof (cases "length s \<le> mx")
  case False
  obtain cps where "list_all scalar cps" "s = concat (map utf8_enc cps)"
    using assms utf8_characterisation by blast
  then show ?thesis
    using False take_valid [of cps "utf8_cut s mx"] utf8_cut_boundary [of mx s] utf8_cut_le [of s mx]
    by (simp add: utf8_prefix_def)
qed (use assms in \<open>simp add: utf8_prefix_def\<close>)

text \<open>
  Close frames.  The payload that \<^verbatim>\<open>close_payload\<close> builds fits a control frame, and the peer's
  \<^verbatim>\<open>parse_close_payload\<close> reads the code back with a reason that is a prefix of the one given, cut so that a valid
  UTF-8 reason stays valid; the two codes that must never be sent produce an empty payload.
\<close>

theorem ws_close_roundtrip:
  assumes "is_valid_utf8 reason"
  shows "length (close_payload c reason) \<le> 125 \<and>
    (c = cc_no_status \<or> c = cc_abnormal \<longrightarrow> close_payload c reason = []) \<and>
    (is_valid_close_code c \<longrightarrow> (\<exists>r. parse_close_payload (close_payload c reason) = Some (c, r) \<and> is_valid_utf8 r \<and>
       (\<exists>t. reason = r @ t \<and> (length reason \<le> 123 \<longrightarrow> t = []))))"
proof (intro conjI impI)
  show "length (close_payload c reason) \<le> 125" using utf8_prefix_le [of reason 123] by (simp add: close_payload_def)
  show "c = cc_no_status \<or> c = cc_abnormal \<Longrightarrow> close_payload c reason = []" by (simp add: close_payload_def)
  assume "is_valid_close_code c"
  moreover have "\<exists>t. reason = utf8_prefix reason 123 @ t \<and> (length reason \<le> 123 \<longrightarrow> t = [])"
    unfolding utf8_prefix_def by (cases "length reason \<le> 123") (auto intro: append_take_drop_id [symmetric])
  ultimately show "\<exists>r. parse_close_payload (close_payload c reason) = Some (c, r) \<and> is_valid_utf8 r \<and>
       (\<exists>t. reason = r @ t \<and> (length reason \<le> 123 \<longrightarrow> t = []))"
    using parse_close_payload_encoded utf8_prefix_valid [OF assms] by blast
qed

theorem ws_close_roundtrip_witness:
  "is_valid_utf8 [0xC3, 0xA9] \<and> length (close_payload 1000 [0xC3, 0xA9]) \<le> 125"
proof
  show v: "is_valid_utf8 [0xC3, 0xA9]" by code_simp
  show "length (close_payload 1000 [0xC3, 0xA9]) \<le> 125" using ws_close_roundtrip [OF v, of 1000] by blast
qed

section \<open>Base64\<close>

lemma kAlphabet_values: "map base64_value kAlphabet = map int [0..<64]"
  unfolding kAlphabet_def list.map base64_value_def Let_def
  by (simp add: upt_conv_Cons)

lemma base64_alphabet:
  assumes "n < 64"
  shows "base64_value (kAlphabet ! n) = int n" "kAlphabet ! n \<noteq> CHR ''=''"
proof -
  have l: "length kAlphabet = 64" by (simp add: kAlphabet_def)
  then have "map base64_value kAlphabet ! n = base64_value (kAlphabet ! n)" using assms by simp
  then show v: "base64_value (kAlphabet ! n) = int n" using assms unfolding kAlphabet_values by simp
  have "base64_value (CHR ''='') = -1" by (simp add: base64_value_def)
  with v show "kAlphabet ! n \<noteq> CHR ''=''" by auto
qed

lemma u32_of_int: "n < 64 \<Longrightarrow> unat (of_int (int n) :: u32) = n"
  by (simp add: unat_of_nat)

lemma unat_group:
  assumes "a < 64" "b < 64" "c < 64" "d < 64"
  shows "unat (push_bit 18 (of_int (int a)) OR push_bit 12 (of_int (int b)) OR push_bit 6 (of_int (int c)) OR of_int (int d) :: u32)
    = a * 262144 + b * 4096 + c * 64 + d"
proof -
  let ?a = "of_int (int a) :: u32" and ?b = "of_int (int b) :: u32" and ?c = "of_int (int c) :: u32" and ?d = "of_int (int d) :: u32"
  note u = assms [THEN u32_of_int]
  have cd: "unat (push_bit 6 ?c OR ?d) = c * 64 + d"
    using unat_push_or [of ?c 6 ?d] assms u by simp
  have bcd: "unat (push_bit 12 ?b OR (push_bit 6 ?c OR ?d)) = b * 4096 + (c * 64 + d)"
    using unat_push_or [of ?b 12 "push_bit 6 ?c OR ?d"] assms u cd by simp
  have "unat (push_bit 18 ?a OR (push_bit 12 ?b OR (push_bit 6 ?c OR ?d))) = a * 262144 + (b * 4096 + (c * 64 + d))"
    using unat_push_or [of ?a 18 "push_bit 12 ?b OR (push_bit 6 ?c OR ?d)"] assms u bcd by simp
  then show ?thesis by (simp add: or.assoc)
qed

text \<open>Reading back a 24-bit group.\<close>

lemma unat_triple:
  "unat (push_bit 16 (ucast (a :: u8)) OR push_bit 8 (ucast (b :: u8)) OR ucast (c :: u8) :: u32) = unat a * 65536 + unat b * 256 + unat c"
proof -
  have bc: "unat (push_bit 8 (ucast b) OR ucast c :: u32) = unat b * 256 + unat c"
    using unat_push_or [of "ucast b :: u32" 8 "ucast c"] u8_less [of b] by (simp add: unat_ucast_up)
  have "unat (push_bit 16 (ucast a) OR (push_bit 8 (ucast b) OR ucast c) :: u32) = unat a * 65536 + (unat b * 256 + unat c)"
    using unat_push_or [of "ucast a :: u32" 16 "push_bit 8 (ucast b) OR ucast c"] u8_less [of a] u8_less [of b] u8_less [of c] bc
    by (simp add: unat_ucast_up)
  then show ?thesis by (simp add: or.assoc)
qed

lemma sextet_nth: "sextet v k = kAlphabet ! (unat v div 2 ^ k mod 64)"
  by (simp add: sextet_def unat_and_low_masks unat_drop_bit)

lemma sextets_join:
  assumes "v < 16777216"
  shows "v div 262144 mod 64 * 262144 + v div 4096 mod 64 * 4096 + v div 64 mod 64 * 64 + v mod 64 = (v :: nat)"
proof -
  have "v div 262144 < 64" using assms less_mult_imp_div_less [of v 64 262144] by simp
  moreover have "v div 262144 * 262144 + v div 4096 mod 64 * 4096 = v div 4096 * 4096"
    using div_mult_mod_eq [of "v div 4096" 64] by (simp add: div_mult2_eq [symmetric])
  ultimately show ?thesis using split64 [of v] by simp
qed

lemma octets_split:
  assumes "a < 256" "b < 256" "c < (256 :: nat)"
  shows "(a * 65536 + b * 256 + c) div 65536 mod 256 = a" "(a * 65536 + b * 256 + c) div 256 mod 256 = b" "(a * 65536 + b * 256 + c) mod 256 = c"
proof -
  have d: "(a * 65536 + b * 256 + c) div 256 = a * 256 + b" "(a * 65536 + b * 256 + c) div 65536 = a" using assms by simp_all
  show "(a * 65536 + b * 256 + c) div 65536 mod 256 = a" "(a * 65536 + b * 256 + c) div 256 mod 256 = b" using assms unfolding d by simp_all
  have "(a * 65536 + b * 256 + c) = (a * 256 + b) * 256 + c" by simp
  then show "(a * 65536 + b * 256 + c) mod 256 = c" using assms(3) by (metis mod_less mod_mult_self3)
qed

lemma octet_triple:
  assumes "unat (v :: u32) = unat (a :: u8) * 65536 + unat (b :: u8) * 256 + unat (c :: u8)"
  shows "octet v 16 = a" "octet v 8 = b" "octet v 0 = c"
  by (rule unat_eqI, simp add: unat_octet assms octets_split)+

definition group_word :: "nat \<Rightarrow> u32" where
  "group_word v = push_bit 18 (of_int (int (v div 262144 mod 64))) OR push_bit 12 (of_int (int (v div 4096 mod 64)))
     OR push_bit 6 (of_int (int (v div 64 mod 64))) OR of_int (int (v mod 64))"

lemma group_word: "v < 16777216 \<Longrightarrow> unat (group_word v) = v"
  unfolding group_word_def
  by (subst unat_group) (simp_all only: sextets_join mod_less_divisor zero_less_numeral)

lemma triple_bound: "unat (a :: u8) * 65536 + unat (b :: u8) * 256 + unat (c :: u8) < 16777216"
  using u8_le [of a] u8_le [of b] u8_le [of c] by linarith

lemma sextet_value: "base64_value (sextet v k) = int (unat v div 2 ^ k mod 64)" "sextet v k \<noteq> CHR ''=''"
  by (simp_all add: sextet_nth base64_alphabet)

lemma base64_group_3:
  assumes "unat v = unat a * 65536 + unat b * 256 + unat c"
  shows "base64_group (sextet v 18) (sextet v 12) (sextet v 6) (sextet v 0) l = Some [a, b, c]"
proof -
  have "base64_group (sextet v 18) (sextet v 12) (sextet v 6) (sextet v 0) l =
      Some ([octet (group_word (unat v)) 16] @ [octet (group_word (unat v)) 8] @ [octet (group_word (unat v)) 0])"
    unfolding base64_group_def Let_def sextet_value group_word_def by (simp add: sextet_value)
  then show ?thesis using octet_triple [of "group_word (unat v)" a b c] triple_bound [of a b c] assms by (simp add: group_word)
qed

lemma base64_group_2:
  assumes "unat v = unat a * 65536 + unat b * 256"
  shows "base64_group (sextet v 18) (sextet v 12) (sextet v 6) (CHR ''='') True = Some [a, b]"
proof -
  have "unat v mod 64 = 0" unfolding assms by (simp add: mod_add_eq [symmetric] mod_mult_right_eq [symmetric])
  then have "base64_group (sextet v 18) (sextet v 12) (sextet v 6) (CHR ''='') True =
      Some ([octet (group_word (unat v)) 16] @ [octet (group_word (unat v)) 8])"
    unfolding base64_group_def Let_def sextet_value group_word_def by (simp add: sextet_value)
  then show ?thesis using octet_triple [of "group_word (unat v)" a b 0] triple_bound [of a b 0] assms by (simp add: group_word)
qed

lemma base64_group_1:
  assumes "unat v = unat a * 65536"
  shows "base64_group (sextet v 18) (sextet v 12) (CHR ''='') (CHR ''='') True = Some [a]"
proof -
  have v: "unat v = (unat a * 16 * 64) * 64" using assms by simp
  have "unat v mod 64 = 0" "unat v div 64 mod 64 = 0"
    unfolding v by (simp_all only: mod_mult_self2_is_0 nonzero_mult_div_cancel_right zero_neq_numeral not_False_eq_True)
  then have "base64_group (sextet v 18) (sextet v 12) (CHR ''='') (CHR ''='') True = Some [octet (group_word (unat v)) 16]"
    unfolding base64_group_def Let_def sextet_value group_word_def by (simp add: sextet_value)
  then show ?thesis using octet_triple [of "group_word (unat v)" a 0 0] triple_bound [of a 0 0] assms by (simp add: group_word)
qed

lemma div3_Suc: "(5 + n) div 3 = Suc (Suc (Suc n) div 3)"
  by presburger

lemma base64_encode_length: "length (base64_encode s) = (length s + 2) div 3 * 4"
  by (induction s rule: base64_encode.induct) (simp_all add: Let_def div3_Suc)

lemma base64_encode_groups: "base64_decode_groups (base64_encode s) = Some s"
proof (induction s rule: base64_encode.induct)
  case (1 a b c rest)
  then show ?case by (simp add: Let_def base64_group_3 unat_triple)
next
  case (2 a b)
  then show ?case using unat_triple [of a b 0] by (simp add: Let_def base64_group_2)
next
  case (3 a)
  then show ?case using unat_triple [of a 0 0] by (simp add: Let_def base64_group_1)
qed simp

lemma sha1_length: "length (sha1 m) = 20"
  by (simp add: sha1_def Let_def split: prod.splits)

text \<open>
  Base64.  Decoding what \<^verbatim>\<open>base64_encode\<close> wrote gives the octets back, for every input length; the encoded
  text has four characters for every three octets or part of them.  So a client key made from sixteen octets passes
  \<^verbatim>\<open>is_valid_client_key\<close>, and the accept key is 28 characters that decode to the digest.
\<close>

theorem ws_base64_roundtrip:
  "base64_decode (base64_encode s) = Some s \<and> length (base64_encode s) = (length s + 2) div 3 * 4 \<and>
   (is_valid_client_key (base64_encode s) \<longleftrightarrow> length s = 16) \<and>
   length (compute_accept_key k) = 28 \<and> base64_decode (compute_accept_key k) = Some (sha1 (bytes_of (k @ kHandshakeGuid)))"
proof -
  have dec: "base64_decode (base64_encode s) = Some s" for s
    by (simp add: base64_decode_def base64_encode_length base64_encode_groups)
  then show ?thesis
    by (auto simp: is_valid_client_key_def base64_encode_length compute_accept_key_def sha1_length)
qed

end
