(* ===== verification/WebSocket_Session_Proofs.thy ===== *)
theory WebSocket_Session_Proofs
  imports WebSocket_Session WebSocket_Proofs
begin

text \<open>
  Correctness of the WebSocket session: what the application reads is what the peer sent, however it was fragmented
  and however the transport cut it; and what goes to the transport is a sequence of whole frames that ends with the
  close frame, for every interleaving of senders, reader and writer.
\<close>

section \<open>The specification of a message stream\<close>

type_synonym ws_frame = "opcode \<times> bytes \<times> bool \<times> u32"

text \<open>The octets of a frame on its way to an endpoint with the given role.\<close>

fun frame_wire :: "ws_role \<Rightarrow> ws_frame \<Rightarrow> bytes" where
  "frame_wire r (op, p, fin, k) = encode_frame op p fin (if r = Server then Some k else None)"

definition wire :: "ws_role \<Rightarrow> ws_frame list \<Rightarrow> bytes" where
  "wire r fs = concat (map (frame_wire r) fs)"

text \<open>
  Fragments are joined, pings and pongs may stand between them; the result is the first message and what follows it.
\<close>

fun reassemble :: "nat \<Rightarrow> bool \<Rightarrow> opcode \<Rightarrow> bytes \<Rightarrow> ws_frame list \<Rightarrow> (ws_message \<times> ws_frame list) option" where
  "reassemble mx inm ty acc [] = None"
| "reassemble mx inm ty acc ((op, p, fin, k) # fs) =
     (if is_control op then
        if op \<noteq> Op_close \<and> fin \<and> length p \<le> 125 then reassemble mx inm ty acc fs else None
      else if (op = Op_continuation) \<noteq> inm then None
      else let ty1 = (if inm then ty else op); acc1 = (if inm then acc @ p else p) in
        if length acc1 > mx then None
        else if fin then Some (\<lparr>m_data = acc1, m_type = ty1\<rparr>, fs)
        else reassemble mx True ty1 acc1 fs)"

fun carries :: "nat \<Rightarrow> ws_frame list \<Rightarrow> ws_message list \<Rightarrow> bool" where
  "carries mx fs [] = (fs = [])"
| "carries mx fs (m # ms) =
     (case reassemble mx False Op_text [] fs of None \<Rightarrow> False | Some (m1, fs1) \<Rightarrow> m1 = m \<and> carries mx fs1 ms)"

definition valid_text :: "ws_options \<Rightarrow> ws_message \<Rightarrow> bool" where
  "valid_text opts m \<longleftrightarrow> (m_type m = Op_text \<and> validate_utf8 opts \<longrightarrow> is_valid_utf8 (m_data m))"

definition good_read :: "transport_read \<Rightarrow> bool" where
  "good_read t \<longleftrightarrow> t_data t \<noteq> [] \<and> t_error t = None \<and> \<not> t_timed_out t"

abbreviation arriving :: "transport_read list \<Rightarrow> bytes" where
  "arriving ts \<equiv> concat (map t_data ts)"

section \<open>The reader\<close>

definition rd_inv :: "ws_conn \<Rightarrow> bool" where
  "rd_inv c \<longleftrightarrow> w_rbuf_consumed c \<le> length (w_rbuf c) \<and> (\<not> w_in_message c \<longrightarrow> w_message c = []) \<and> \<not> w_read_closed c"

lemma control_cases: "is_control op \<longleftrightarrow> op = Op_close \<or> op = Op_ping \<or> op = Op_pong"
  by (cases op) (simp_all add: is_control_def opcode_val_def)

lemma fill_good:
  assumes "good_read t" "rd_inv c"
  shows "fst (fill t c) = None" "avail (snd (fill t c)) = avail c @ t_data t" "rd_inv (snd (fill t c))"
    "w_in_message (snd (fill t c)) = w_in_message c" "w_message (snd (fill t c)) = w_message c"
    "w_message_type (snd (fill t c)) = w_message_type c" "w_role (snd (fill t c)) = w_role c" "w_opts (snd (fill t c)) = w_opts c"
  using assms by (auto simp: fill_def good_read_def rd_inv_def compact_def avail_def Let_def)

lemma enqueue_keeps [simp]:
  "w_in_message (snd (enqueue op p k c)) = w_in_message c" "w_message (snd (enqueue op p k c)) = w_message c"
  "w_message_type (snd (enqueue op p k c)) = w_message_type c" "w_role (snd (enqueue op p k c)) = w_role c"
  "w_opts (snd (enqueue op p k c)) = w_opts c" "w_read_closed (snd (enqueue op p k c)) = w_read_closed c"
  "w_rbuf (snd (enqueue op p k c)) = w_rbuf c" "w_rbuf_consumed (snd (enqueue op p k c)) = w_rbuf_consumed c"
  by (simp_all add: enqueue_def draw_mask_def Let_def)

lemma take_payload_keeps [simp]:
  "w_in_message (snd (take_payload h c)) = w_in_message c" "w_message (snd (take_payload h c)) = w_message c"
  "w_message_type (snd (take_payload h c)) = w_message_type c" "w_role (snd (take_payload h c)) = w_role c"
  "w_opts (snd (take_payload h c)) = w_opts c" "w_read_closed (snd (take_payload h c)) = w_read_closed c"
  "w_close_sent (snd (take_payload h c)) = w_close_sent c"
  by (simp_all add: take_payload_def Let_def)

text \<open>A whole frame at the front of the buffer.\<close>

lemma frame_at_front:
  assumes av: "avail c = encode_frame op p fin mk @ rest" and "length p < 2 ^ 63" and "rd_inv c"
  obtains h where "parse_ws_header (avail c) = WsComplete h" "fst (take_payload h c) = p" "avail (snd (take_payload h c)) = rest"
    "rd_inv (snd (take_payload h c))" "fh_header_size h + fh_payload_length h \<le> length (avail c)"
    "fh_op h = op" "fh_fin h = fin" "fh_masked h = (mk \<noteq> None)" "fh_payload_length h = length p"
    "\<not> fh_rsv1 h" "\<not> fh_rsv2 h" "\<not> fh_rsv3 h"
proof -
  obtain h where h: "parse_ws_header (avail c) = WsComplete h" "fh_op h = op" "fh_fin h = fin" "fh_masked h = (mk \<noteq> None)"
    "fh_payload_length h = length p" "fh_header_size h + length p = frame_size (length p) (mk \<noteq> None)"
    "\<not> fh_rsv1 h" "\<not> fh_rsv2 h" "\<not> fh_rsv3 h"
    and body: "(let body = substr (avail c) (fh_header_size h) (fh_payload_length h)
       in (if fh_masked h then apply_mask (fh_masking_key h) 0 body else body) = p)"
    and len: "length (encode_frame op p fin mk) = frame_size (length p) (mk \<noteq> None)"
    using frame_parse [OF assms(2), of op fin mk rest] unfolding av by blast
  have le: "fh_header_size h + fh_payload_length h \<le> length (avail c)" using h len av by simp
  have two: "2 \<le> fh_header_size h" by (rule parse_ws_header_size [OF h(1)])
  have "fst (take_payload h c) = p" using body by (simp add: take_payload_def Let_def avail_def add.commute)
  moreover have "avail (snd (take_payload h c)) = rest" using take_payload_avail [OF le two] h len av by simp
  moreover have "rd_inv (snd (take_payload h c))"
    using assms(3) le two unfolding rd_inv_def by (auto simp: take_payload_def Let_def avail_def)
  ultimately show ?thesis using that h le by blast
qed

text \<open>A frame the reader accepts in its state.\<close>

definition legal :: "ws_conn \<Rightarrow> opcode \<Rightarrow> bytes \<Rightarrow> bool \<Rightarrow> bool" where
  "legal c op p fin \<longleftrightarrow>
     (if is_control op then op \<noteq> Op_close \<and> fin \<and> length p \<le> 125
      else (op = Op_continuation) = w_in_message c \<and> length (w_message c) + length p \<le> max_message_size (w_opts c))
     \<and> length p < 2 ^ 63"

definition rd_state :: "ws_conn \<Rightarrow> bool \<times> opcode \<times> bytes \<times> ws_role \<times> ws_options" where
  "rd_state c = (w_in_message c, w_message_type c, w_message c, w_role c, w_opts c)"

lemma legal_no_violation:
  assumes "legal c op p fin" "fh_op h = op" "fh_fin h = fin" "fh_masked h = (w_role c = Server)" "fh_payload_length h = length p"
    "\<not> fh_rsv1 h" "\<not> fh_rsv2 h" "\<not> fh_rsv3 h"
  shows "\<not> header_violation h c" "\<not> (\<not> is_control op \<and> length (w_message c) + length p > max_message_size (w_opts c))"
  using assms by (auto simp: header_violation_def legal_def Let_def split: if_splits)

lemma turn_on_frame:
  assumes "avail c = frame_wire (w_role c) (op, p, fin, k) @ rest" "rd_inv c" "legal c op p fin"
  obtains h where "read_turn c = on_frame h c" "fh_op h = op" "fh_fin h = fin" "fst (take_payload h c) = p"
    "avail (snd (take_payload h c)) = rest" "rd_inv (snd (take_payload h c))"
proof -
  let ?mk = "if w_role c = Server then Some k else None"
  have av: "avail c = encode_frame op p fin ?mk @ rest" using assms(1) by simp
  have lp: "length p < 2 ^ 63" using assms(3) by (simp add: legal_def)
  obtain h where h: "parse_ws_header (avail c) = WsComplete h" "fst (take_payload h c) = p" "avail (snd (take_payload h c)) = rest"
    "rd_inv (snd (take_payload h c))" "fh_header_size h + fh_payload_length h \<le> length (avail c)"
    "fh_op h = op" "fh_fin h = fin" "fh_masked h = (?mk \<noteq> None)" "fh_payload_length h = length p"
    "\<not> fh_rsv1 h" "\<not> fh_rsv2 h" "\<not> fh_rsv3 h"
    by (rule frame_at_front [OF av lp assms(2)])
  have m: "fh_masked h = (w_role c = Server)" using h(8) by simp
  note ok = legal_no_violation [OF assms(3) h(6,7) m h(9,10,11,12)]
  have "read_turn c = on_frame h c"
    using assms(2) h(1,5,6,9) ok by (auto simp: read_turn_def rd_inv_def)
  then show ?thesis using that h by blast
qed

lemma turn_control:
  assumes "avail c = frame_wire (w_role c) (op, p, fin, k) @ rest" "rd_inv c" "legal c op p fin" "is_control op"
  obtains c1 where "read_turn c = (Continue, c1)" "avail c1 = rest" "rd_inv c1" "rd_state c1 = rd_state c"
proof -
  obtain h where h: "read_turn c = on_frame h c" "fh_op h = op" "fst (take_payload h c) = p"
    "avail (snd (take_payload h c)) = rest" "rd_inv (snd (take_payload h c))"
    by (rule turn_on_frame [OF assms(1-3)])
  have op: "op = Op_ping \<or> op = Op_pong" using assms(3,4) by (auto simp: legal_def control_cases)
  define c2 where "c2 = snd (take_payload h c)"
  have tp: "take_payload h c = (p, c2)" using h(3) by (simp add: c2_def prod_eq_iff)
  let ?c1 = "if op = Op_ping \<and> \<not> w_close_sent c2 then snd (enqueue Op_pong p False c2) else c2"
  have "read_turn c = (Continue, ?c1)"
    using op h(1,2) by (auto simp: on_frame_def Let_def tp)
  moreover have "rd_inv ?c1" using h(5) by (simp add: rd_inv_def c2_def)
  moreover have "rd_state ?c1 = rd_state c" by (simp add: rd_state_def c2_def)
  moreover have "avail ?c1 = rest" using h(4) by (simp add: c2_def)
  ultimately show ?thesis using that by blast
qed

lemma turn_data:
  assumes "avail c = frame_wire (w_role c) (op, p, fin, k) @ rest" "rd_inv c" "legal c op p fin" "\<not> is_control op"
    and ty: "ty1 = (if w_in_message c then w_message_type c else op)" and acc: "acc1 = (if w_in_message c then w_message c @ p else p)"
    and vt: "fin \<Longrightarrow> valid_text (w_opts c) \<lparr>m_data = acc1, m_type = ty1\<rparr>"
  obtains c1 where "read_turn c = (if fin then Return (Inl \<lparr>m_data = acc1, m_type = ty1\<rparr>) else Continue, c1)" "avail c1 = rest" "rd_inv c1"
    "w_role c1 = w_role c" "w_opts c1 = w_opts c" "w_in_message c1 = (\<not> fin)" "\<not> fin \<longrightarrow> w_message c1 = acc1 \<and> w_message_type c1 = ty1"
proof -
  obtain h where h: "read_turn c = on_frame h c" "fh_op h = op" "fh_fin h = fin" "fst (take_payload h c) = p"
    "avail (snd (take_payload h c)) = rest" "rd_inv (snd (take_payload h c))"
    by (rule turn_on_frame [OF assms(1-3)])
  define c2 where "c2 = snd (take_payload h c)"
  have c2: "avail c2 = rest" "rd_inv c2" "w_in_message c2 = w_in_message c" "w_message c2 = w_message c"
    "w_message_type c2 = w_message_type c" "w_opts c2 = w_opts c" "w_role c2 = w_role c"
    using h by (simp_all add: c2_def)
  have op: "op \<noteq> Op_ping" "op \<noteq> Op_pong" "op \<noteq> Op_close" using assms(4) by (auto simp: control_cases)
  have cont: "(op = Op_continuation) = w_in_message c" using assms(3,4) by (simp add: legal_def)
  have turn: "read_turn c = on_data_frame h p c2"
    using h op by (simp add: on_frame_def Let_def c2_def split: prod.splits)
  let ?c1 = "c2\<lparr>w_in_message := (\<not> fin), w_message_type := ty1, w_message := (if fin then [] else acc1)\<rparr>"
  have "on_data_frame h p c2 = (if fin then Return (Inl \<lparr>m_data = acc1, m_type = ty1\<rparr>) else Continue, ?c1)"
    using cont vt c2 unfolding ty acc
    by (cases "w_in_message c"; cases fin) (auto simp: on_data_frame_def Let_def h valid_text_def)
  moreover have "rd_inv ?c1" using c2(2) by (simp add: rd_inv_def)
  moreover have "avail ?c1 = rest" using c2(1) by (simp add: avail_def)
  ultimately show ?thesis using that turn c2 by simp
qed

text \<open>Part of a frame at the front of the buffer: the reader waits.\<close>

lemma take_of_prefix:
  assumes "a @ x = w @ r" "length a < length w"
  shows "a = take (length a) w"
proof -
  have "take (length a) (a @ x) = take (length a) (w @ r)" using assms(1) by simp
  then show ?thesis using assms(2) by simp
qed

lemma turn_await:
  assumes "avail c @ x = frame_wire (w_role c) (op, p, fin, k) @ rest" "length (avail c) < length (frame_wire (w_role c) (op, p, fin, k))"
    "rd_inv c" "legal c op p fin"
  shows "read_turn c = (Await, c)"
proof -
  let ?mk = "if w_role c = Server then Some k else None"
  let ?i = "((if fin then 0x80 else 0x00) OR opcode_val op) # len_octets (?mk \<noteq> None) (length p) @ key_octets ?mk @ mask_body ?mk p"
  have lp: "length p < 2 ^ 63" using assms(4) by (simp add: legal_def)
  have f: "frame_wire (w_role c) (op, p, fin, k) = ?i" by (simp only: frame_wire.simps encode_frame_parts)
  have av: "avail c = take (length (avail c)) ?i" by (rule take_of_prefix [OF assms(1,2), unfolded f])
  define hs where "hs = 1 + length (len_octets (?mk \<noteq> None) (length p)) + length (key_octets ?mk)"
  show ?thesis
  proof (cases "length (avail c) < hs")
    case True
    then have "parse_ws_header (take (length (avail c)) ?i) = WsIncomplete"
      unfolding hs_def by (rule parse_prefix_incomplete [OF lp refl])
    then have "parse_ws_header (avail c) = WsIncomplete" using av by simp
    then show ?thesis using assms(3) by (simp add: read_turn_def rd_inv_def)
  next
    case False
    let ?L = "len_octets (?mk \<noteq> None) (length p)"
    have "take (length (avail c)) ?i = ((if fin then 0x80 else 0x00) OR opcode_val op) # ?L @ key_octets ?mk
        @ take (length (avail c) - hs) (mask_body ?mk p)"
      using False unfolding hs_def by (cases "length (avail c)") (simp_all add: take_append)
    then have "avail c = ((if fin then 0x80 else 0x00) OR opcode_val op) # ?L @ key_octets ?mk
        @ take (length (avail c) - hs) (mask_body ?mk p)" using av by simp
    note h = parse_encoded [OF lp this]
    have "length ?i = hs + length p" by (simp add: hs_def)
    then have short: "length (avail c) < hs + length p" using assms(2) unfolding f by simp
    show ?thesis
      using assms(3) legal_no_violation [OF assms(4), of "case parse_ws_header (avail c) of WsComplete h \<Rightarrow> h"] short
      unfolding read_turn_def h rd_inv_def hs_def by auto
  qed
qed

lemma reassemble_fresh: "reassemble mx False ty acc fs = reassemble mx False ty' acc' fs"
  by (induction fs) (auto simp: Let_def)

lemma reassemble_legal:
  assumes "reassemble (max_message_size (w_opts c)) (w_in_message c) (w_message_type c) (w_message c) ((op, p, fin, k) # fs) = Some r"
    "max_message_size (w_opts c) < 2 ^ 63" "rd_inv c"
  shows "legal c op p fin"
  using assms by (auto simp: legal_def rd_inv_def Let_def split: if_splits)

lemma reassemble_data:
  assumes "reassemble mx inm ty acc ((op, p, fin, k) # fs) = Some r" "\<not> is_control op"
  shows "reassemble mx inm ty acc ((op, p, fin, k) # fs) =
     (if fin then Some (\<lparr>m_data = if inm then acc @ p else p, m_type = if inm then ty else op\<rparr>, fs)
      else reassemble mx True (if inm then ty else op) (if inm then acc @ p else p) fs)"
  using assms by (simp add: Let_def split: if_splits)

lemma reassemble_control:
  "reassemble mx inm ty acc ((op, p, fin, k) # fs) = Some r \<Longrightarrow> is_control op \<Longrightarrow> reassemble mx inm ty acc fs = Some r"
  by (simp split: if_splits)

lemma split_prefix:
  assumes "a @ x = w @ r" "\<not> length a < length w"
  obtains b where "a = w @ b" "b @ x = r"
  using assms by (auto simp: append_eq_append_conv2)

lemma ws_read_continue: "read_turn c = (Continue, c1) \<Longrightarrow> ws_read ts c = ws_read ts c1"
  by (subst ws_read.simps) simp

lemma ws_read_return: "read_turn c = (Return r, c1) \<Longrightarrow> ws_read ts c = (Some r, c1, ts)"
  by (subst ws_read.simps) simp

lemma ws_read_await: "read_turn c = (Await, c1) \<Longrightarrow> fst (fill t c1) = None \<Longrightarrow> ws_read (t # ts) c = ws_read ts (snd (fill t c1))"
  by (subst ws_read.simps) (auto split: prod.splits)

lemma wire_Cons: "wire r (f # fs) = frame_wire r f @ wire r fs"
  by (simp add: wire_def)

definition delivers :: "ws_role \<Rightarrow> ws_options \<Rightarrow> ws_message \<Rightarrow> bytes \<Rightarrow> transport_read list \<Rightarrow> ws_conn \<Rightarrow> bool" where
  "delivers r opts m after ts c \<longleftrightarrow>
     (\<exists>c' ts'. ws_read ts c = (Some (Inl m), c', ts') \<and> avail c' @ arriving ts' = after \<and> rd_inv c' \<and> list_all good_read ts'
        \<and> \<not> w_in_message c' \<and> w_role c' = r \<and> w_opts c' = opts)"

lemma read_message:
  assumes "rd_inv c" "max_message_size (w_opts c) < 2 ^ 63" "valid_text (w_opts c) m" "list_all good_read ts"
    "reassemble (max_message_size (w_opts c)) (w_in_message c) (w_message_type c) (w_message c) fs = Some (m, fs')"
    "avail c @ arriving ts = wire (w_role c) fs @ tail"
  shows "delivers (w_role c) (w_opts c) m (wire (w_role c) fs' @ tail) ts c"
  using assms
proof (induction ts c arbitrary: fs rule: ws_read.induct)
  case (1 ts c)
  obtain op p fin k fs2 where fs: "fs = (op, p, fin, k) # fs2"
    using "1.prems"(5) by (cases fs) auto
  let ?f = "frame_wire (w_role c) (op, p, fin, k)"
  have legal: "legal c op p fin"
    by (rule reassemble_legal [OF "1.prems"(5) [unfolded fs] "1.prems"(2,1)])
  have split: "avail c @ arriving ts = ?f @ wire (w_role c) fs2 @ tail"
    using "1.prems"(6) unfolding fs wire_Cons by simp
  show ?case
  proof (cases "length (avail c) < length ?f")
    case True
    have turn: "read_turn c = (Await, c)" by (rule turn_await [OF split True "1.prems"(1) legal])
    obtain t ts1 where ts: "ts = t # ts1" using split True by (cases ts) auto
    have t: "good_read t" "list_all good_read ts1" using "1.prems"(4) ts by simp_all
    note f = fill_good [OF t(1) "1.prems"(1)]
    obtain c2 where c2: "fill t c = (None, c2)" using f(1) by (cases "fill t c") simp
    have "delivers (w_role c2) (w_opts c2) m (wire (w_role c2) fs' @ tail) ts1 c2"
      using "1.prems" f t c2 by (intro "1.IH"(2) [OF turn [symmetric] refl ts c2 [symmetric] refl]) (simp_all add: ts)
    then show ?thesis using f c2 by (simp add: delivers_def ws_read_await [OF turn] ts)
  next
    case False
    obtain rest where rest: "avail c = ?f @ rest" "rest @ arriving ts = wire (w_role c) fs2 @ tail"
      by (rule split_prefix [OF split False])
    show ?thesis
    proof (cases "is_control op")
      case True
      obtain c1 where c1: "read_turn c = (Continue, c1)" "avail c1 = rest" "rd_inv c1" "rd_state c1 = rd_state c"
        by (rule turn_control [OF rest(1) "1.prems"(1) legal True])
      have "delivers (w_role c1) (w_opts c1) m (wire (w_role c1) fs' @ tail) ts c1"
        using "1.prems"(2-4) c1(2-4) rest(2) reassemble_control [OF "1.prems"(5) [unfolded fs] True] unfolding rd_state_def
        by (intro "1.IH"(1) [OF c1(1) [symmetric] refl, of fs2]) simp_all
      then show ?thesis using c1 by (simp add: delivers_def ws_read_continue [OF c1(1)] rd_state_def)
    next
      case data: False
      define ty1 acc1 where "ty1 = (if w_in_message c then w_message_type c else op)"
        and "acc1 = (if w_in_message c then w_message c @ p else p)"
      have re: "reassemble (max_message_size (w_opts c)) (w_in_message c) (w_message_type c) (w_message c) fs =
          (if fin then Some (\<lparr>m_data = acc1, m_type = ty1\<rparr>, fs2)
           else reassemble (max_message_size (w_opts c)) True ty1 acc1 fs2)"
        unfolding fs ty1_def acc1_def by (rule reassemble_data [OF "1.prems"(5) [unfolded fs] data])
      have "fin \<Longrightarrow> valid_text (w_opts c) \<lparr>m_data = acc1, m_type = ty1\<rparr>" using re "1.prems"(3,5) by simp
      then obtain c1 where c1: "read_turn c = (if fin then Return (Inl \<lparr>m_data = acc1, m_type = ty1\<rparr>) else Continue, c1)"
        "avail c1 = rest" "rd_inv c1" "w_role c1 = w_role c" "w_opts c1 = w_opts c" "w_in_message c1 = (\<not> fin)"
        "\<not> fin \<longrightarrow> w_message c1 = acc1 \<and> w_message_type c1 = ty1"
        by (rule turn_data [OF rest(1) "1.prems"(1) legal data ty1_def acc1_def])
      show ?thesis
      proof (cases fin)
        case True
        then show ?thesis using c1 re "1.prems"(4,5) rest(2)
          by (simp add: delivers_def ws_read_return [of c])
      next
        case False
        then have cont: "read_turn c = (Continue, c1)" using c1(1) by simp
        have "delivers (w_role c1) (w_opts c1) m (wire (w_role c1) fs' @ tail) ts c1"
          using "1.prems"(2-5) c1(2-7) rest(2) re False by (intro "1.IH"(1) [OF cont [symmetric] refl, of fs2]) simp_all
        then show ?thesis using c1(4,5) by (simp add: delivers_def ws_read_continue [OF cont])
      qed
    qed
  qed
qed

text \<open>A client of the session that reads \<open>n\<close> messages.\<close>

fun reads :: "nat \<Rightarrow> transport_read list \<Rightarrow> ws_conn \<Rightarrow> ws_message list" where
  "reads 0 ts c = []"
| "reads (Suc n) ts c = (case ws_read ts c of (Some (Inl m), c, ts) \<Rightarrow> m # reads n ts c | _ \<Rightarrow> [])"

lemma reads_all:
  assumes "rd_inv c" "\<not> w_in_message c" "max_message_size (w_opts c) < 2 ^ 63" "list_all (valid_text (w_opts c)) ms"
    "list_all good_read ts" "carries (max_message_size (w_opts c)) fs ms" "avail c @ arriving ts = wire (w_role c) fs"
  shows "reads (length ms) ts c = ms"
  using assms
proof (induction ms arbitrary: ts c fs)
  case (Cons m ms)
  obtain fs1 where fs1: "reassemble (max_message_size (w_opts c)) False Op_text [] fs = Some (m, fs1)"
    "carries (max_message_size (w_opts c)) fs1 ms"
    using Cons.prems(6) by (auto split: option.splits)
  have "reassemble (max_message_size (w_opts c)) (w_in_message c) (w_message_type c) (w_message c) fs = Some (m, fs1)"
    using fs1(1) Cons.prems(2) reassemble_fresh [of _ "w_message_type c" "w_message c" fs Op_text "[]"] by simp
  then have "delivers (w_role c) (w_opts c) m (wire (w_role c) fs1 @ []) ts c"
    using Cons.prems by (intro read_message) simp_all
  then obtain c' ts' where c': "ws_read ts c = (Some (Inl m), c', ts')" "avail c' @ arriving ts' = wire (w_role c') fs1"
    "rd_inv c'" "list_all good_read ts'" "\<not> w_in_message c'" "w_role c' = w_role c" "w_opts c' = w_opts c"
    by (auto simp: delivers_def)
  have "reads (length ms) ts' c' = ms"
    using Cons.prems c' fs1(2) by (intro Cons.IH [of c' ts' fs1]) simp_all
  then show ?case by (simp add: c'(1))
qed simp

text \<open>
  C25. Delivery.  When the octets that reach a session, those left over from the handshake and then one transport read
  after another, are the frames of a list of messages (each message in any number of fragments, with pings and pongs
  of any legal payload between them), then successive calls of \<^verbatim>\<open>read\<close> return exactly those messages in order,
  wherever the transport cut the octets, for both roles and whatever the session does to its buffer in between.
\<close>

theorem ws_messages_delivered:
  assumes "max_message_size opts < 2 ^ 63" "list_all (valid_text opts) ms" "list_all good_read ts"
    "carries (max_message_size opts) fs ms" "leftover @ arriving ts = wire r fs"
  shows "reads (length ms) ts (ws_connection rnd leftover opts r sp) = ms"
  using assms by (intro reads_all [of _ _ _ fs]) (simp_all add: ws_connection_def rd_inv_def avail_def)

definition sample_frames :: "ws_frame list" where
  "sample_frames = [(Op_text, [0x48], False, 0x01020304), (Op_ping, [7], True, 9), (Op_continuation, [0x69], True, 5)]"

theorem ws_messages_delivered_witness:
  "reads 1 (map (\<lambda>b. \<lparr>t_data = [b], t_error = None, t_timed_out = False\<rparr>) (drop 3 (wire Server sample_frames)))
     (ws_connection (\<lambda>_. 0) (take 3 (wire Server sample_frames)) \<lparr>max_message_size = 100, max_buffered_amount = 1000, validate_utf8 = True\<rparr> Server [])
   = [\<lparr>m_data = [0x48, 0x69], m_type = Op_text\<rparr>]"
proof -
  let ?m = "[\<lparr>m_data = [0x48, 0x69], m_type = Op_text\<rparr>]"
  let ?o = "\<lparr>max_message_size = 100, max_buffered_amount = 1000, validate_utf8 = True\<rparr>"
  have "is_valid_utf8 [0x48, 0x69]" by code_simp
  then have "list_all (valid_text ?o) ?m" by (simp add: valid_text_def)
  moreover have "carries 100 sample_frames ?m" by (simp add: sample_frames_def control_cases)
  moreover have "arriving (map (\<lambda>b. \<lparr>t_data = [b], t_error = None, t_timed_out = False\<rparr>) xs) = xs" for xs
    by (induction xs) simp_all
  ultimately show ?thesis
    using ws_messages_delivered [of ?o ?m "map (\<lambda>b. \<lparr>t_data = [b], t_error = None, t_timed_out = False\<rparr>) (drop 3 (wire Server sample_frames))"
        sample_frames "take 3 (wire Server sample_frames)" Server "\<lambda>_. 0" "[]"]
    by (simp add: good_read_def list_all_iff)
qed

section \<open>The writer\<close>

text \<open>A frame as the session queues it, and the octets of a list of them.\<close>

type_synonym out_frame = "opcode \<times> bytes \<times> u32 option"

definition out_wire :: "out_frame list \<Rightarrow> bytes" where
  "out_wire fs = concat (map (\<lambda>(op, p, mk). encode_frame op p True mk) fs)"

text \<open>
  Only the last frame may be a close frame, it is there exactly when the session has sent its close, and frames are
  masked exactly when the session is a client.
\<close>

definition frames_wf :: "bool \<Rightarrow> bool \<Rightarrow> out_frame list \<Rightarrow> bool" where
  "frames_wf closed client fs \<longleftrightarrow> list_all (\<lambda>(op, p, mk). op \<noteq> Op_close) (butlast fs)
     \<and> (closed \<longleftrightarrow> fs \<noteq> [] \<and> fst (last fs) = Op_close)
     \<and> list_all (\<lambda>(op, p, mk). (mk \<noteq> None) = client) fs"

lemma frames_wf_snoc:
  assumes "frames_wf False client fs" "(mk \<noteq> None) = client"
  shows "frames_wf (op = Op_close) client (fs @ [(op, p, mk)])"
  using assms by (cases fs rule: rev_cases) (auto simp: frames_wf_def butlast_append)

text \<open>
  The invariant of a session that has handed the octets \<open>handed\<close> to the transport; \<open>flying\<close> says that the writer waits
  for the answer.  After a failed write or an abort the queue is gone and no more octets are handed over.
\<close>

definition wr_inv :: "bytes \<Rightarrow> bool \<Rightarrow> ws_conn \<Rightarrow> bool" where
  "wr_inv handed flying c \<longleftrightarrow>
     (\<exists>fs rest. out_wire fs = handed @ rest \<and> frames_wf (w_close_sent c) (w_role c = Client) fs \<and> (\<not> w_write_failed c \<longrightarrow> rest = w_outbox c))
     \<and> (w_write_failed c \<longrightarrow> w_outbox c = [] \<and> w_buffered c = 0)
     \<and> (\<not> w_write_failed c \<longrightarrow> w_buffered c = length (w_writing c) + length (w_outbox c))
     \<and> (\<not> flying \<longrightarrow> w_writing c = [])
     \<and> (w_outbox c \<noteq> [] \<or> flying \<longrightarrow> w_writer_active c)"

lemma wr_inv_enqueue:
  assumes "wr_inv handed flying c" "is_close = (op = Op_close)"
  shows "wr_inv handed flying (snd (enqueue op p is_close c))"
proof -
  obtain mk c0 where d: "draw_mask c = (mk, c0)" by (cases "draw_mask c")
  have c0: "c0 = c\<lparr>w_drawn := w_drawn c0\<rparr>" and mk: "(mk \<noteq> None) = (w_role c = Client)"
    using d by (auto simp: draw_mask_def split: if_splits)
  have I0: "wr_inv handed flying c0"
    using assms(1) by (subst c0) (simp add: wr_inv_def frames_wf_def)
  show ?thesis
  proof (cases "fst (enqueue op p is_close c)")
    case False
    then have "snd (enqueue op p is_close c) = c0" by (auto simp: enqueue_def d Let_def split: if_splits)
    then show ?thesis using I0 by simp
  next
    case True
    then have nf: "\<not> w_write_failed c0" "\<not> w_close_sent c0" by (auto simp: enqueue_def d Let_def split: if_splits)
    let ?c1 = "snd (enqueue op p is_close c)"
    have c1: "?c1 = c0\<lparr>w_close_sent := is_close, w_buffered := w_buffered c0 + length (encode_frame op p True mk),
        w_outbox := w_outbox c0 @ encode_frame op p True mk, w_writer_active := True\<rparr>"
      using True nf by (auto simp: enqueue_def d Let_def length_encode_frame split: if_splits)
    obtain fs where fs: "out_wire fs = handed @ w_outbox c0" "frames_wf False (w_role c0 = Client) fs" using I0 nf by (auto simp: wr_inv_def)
    have "out_wire (fs @ [(op, p, mk)]) = handed @ w_outbox ?c1" using fs(1) by (simp add: c1 out_wire_def)
    moreover have "frames_wf is_close (w_role c0 = Client) (fs @ [(op, p, mk)])"
      unfolding assms(2) using mk by (intro frames_wf_snoc [OF fs(2)]) (subst c0, simp)
    ultimately show ?thesis using I0 nf unfolding wr_inv_def c1
      by (intro conjI exI [of _ "fs @ [(op, p, mk)]"] exI [of _ "w_outbox c0 @ encode_frame op p True mk"]) auto
  qed
qed

lemma wr_inv_cong:
  assumes "wr_inv handed flying c" "w_outbox c' = w_outbox c" "w_writing c' = w_writing c" "w_buffered c' = w_buffered c"
    "w_write_failed c' = w_write_failed c" "w_close_sent c' = w_close_sent c" "w_role c' = w_role c" "w_writer_active c' = w_writer_active c"
  shows "wr_inv handed flying c'"
  using assms by (simp add: wr_inv_def)

lemma wr_inv_close: "wr_inv handed flying c \<Longrightarrow> wr_inv handed flying (snd (ws_close cd r c))"
  by (simp add: ws_close_def wr_inv_enqueue)

lemma wr_inv_failed: "wr_inv handed flying c \<Longrightarrow> wr_inv handed flying (snd (failed_with cd e c))"
  using wr_inv_close [of handed flying c cd "[]"]
  by (simp add: failed_with_def ws_fail_def Let_def) (erule wr_inv_cong, simp_all)

lemma wr_inv_take: "wr_inv handed flying c \<Longrightarrow> wr_inv handed flying (snd (take_payload h c))"
  by (erule wr_inv_cong) (simp_all add: take_payload_def Let_def)

lemma wr_inv_on_close:
  assumes "wr_inv handed flying c"
  shows "wr_inv handed flying (snd (on_close_frame p c))"
proof -
  have "wr_inv handed flying (snd (ws_close cd [] (c\<lparr>w_close_reason := r, w_close_code := cd, w_close_received := True\<rparr>)))" for cd r
    by (rule wr_inv_close, rule wr_inv_cong [OF assms]) simp_all
  then have "wr_inv handed flying ((snd (ws_close cd [] (c\<lparr>w_close_reason := r, w_close_code := cd, w_close_received := True\<rparr>)))\<lparr>w_read_closed := True\<rparr>)" for cd r
    by (rule wr_inv_cong) simp_all
  then show ?thesis
    using wr_inv_failed [OF assms] by (simp add: on_close_frame_def Let_def split: option.splits)
qed

lemma wr_inv_on_data:
  assumes "wr_inv handed flying c"
  shows "wr_inv handed flying (snd (on_data_frame h p c))"
  by (auto simp: on_data_frame_def Let_def intro!: wr_inv_failed wr_inv_cong [OF assms])

lemma wr_inv_on_frame:
  assumes "wr_inv handed flying c"
  shows "wr_inv handed flying (snd (on_frame h c))"
proof -
  obtain p c1 where t: "take_payload h c = (p, c1)" by (cases "take_payload h c")
  then have "wr_inv handed flying c1" using wr_inv_take [OF assms, of h] by simp
  then show ?thesis
    by (simp add: on_frame_def t wr_inv_enqueue wr_inv_on_close wr_inv_on_data)
qed

lemma wr_inv_read_turn:
  assumes "wr_inv handed flying c"
  shows "wr_inv handed flying (snd (read_turn c))"
  by (cases "parse_ws_header (avail c)") (simp_all add: read_turn_def assms wr_inv_failed wr_inv_on_frame)

lemma wr_inv_fill: "wr_inv handed flying c \<Longrightarrow> wr_inv handed flying (snd (fill t c))"
  by (erule wr_inv_cong) (simp_all add: fill_def compact_def Let_def)

lemma wr_inv_drain_begin:
  assumes "wr_inv handed False c" "drain_begin c = (Some d, c1)" "w_writer_active c"
  shows "wr_inv (handed @ d) True c1"
proof -
  have c1: "d = w_outbox c" "w_outbox c \<noteq> []" "c1 = c\<lparr>w_writing := w_outbox c, w_outbox := w_writing c\<rparr>"
    using assms(2) by (auto simp: drain_begin_def split: if_splits)
  have nf: "\<not> w_write_failed c" "w_writing c = []" using assms(1) c1(2) by (auto simp: wr_inv_def)
  then show ?thesis using assms(1,3) unfolding c1 wr_inv_def by auto
qed

lemma wr_inv_idle: "wr_inv handed False c \<Longrightarrow> w_outbox c = [] \<Longrightarrow> wr_inv handed False (c\<lparr>w_writer_active := False\<rparr>)"
  by (simp add: wr_inv_def)

lemma wr_inv_drain_end: "wr_inv handed True c \<Longrightarrow> wr_inv handed False (drain_end b c)"
  by (auto simp: wr_inv_def drain_end_def Let_def)

lemma wr_inv_abort: "wr_inv handed flying c \<Longrightarrow> wr_inv handed flying (ws_abort c)"
  by (auto simp: wr_inv_def ws_abort_def)

lemma role_failed_with: "w_role (snd (failed_with cd e c)) = w_role c"
  by (simp add: failed_with_def ws_fail_def ws_close_def Let_def)

lemma role_read_turn: "w_role (snd (read_turn c)) = w_role c"
proof -
  have "w_role (snd (on_close_frame p c1)) = w_role c1" for p c1
    by (simp add: on_close_frame_def ws_close_def Let_def role_failed_with split: option.splits)
  moreover have "w_role (snd (on_data_frame h p c1)) = w_role c1" for h p c1
    by (simp add: on_data_frame_def Let_def role_failed_with)
  ultimately have "w_role (snd (on_frame h c)) = w_role c" for h
    by (simp add: on_frame_def Let_def split: prod.splits) (metis snd_conv take_payload_keeps(4))
  then show ?thesis by (simp add: read_turn_def role_failed_with split: ws_parse.splits)
qed

text \<open>
  Every interleaving: senders of any thread, turns of the reader, answers of the transport and the two critical
  sections of the writer, which runs while \<open>w_writer_active\<close>.
\<close>

inductive ws_run :: "ws_conn \<Rightarrow> bytes \<Rightarrow> bool \<Rightarrow> ws_conn \<Rightarrow> bool" for c0 where
  run_start: "ws_run c0 [] False c0"
| run_text: "ws_run c0 h f c \<Longrightarrow> ws_run c0 h f (snd (send_text t c))"
| run_binary: "ws_run c0 h f c \<Longrightarrow> ws_run c0 h f (snd (send_binary t c))"
| run_ping: "ws_run c0 h f c \<Longrightarrow> ws_run c0 h f (snd (ws_ping t c))"
| run_pong: "ws_run c0 h f c \<Longrightarrow> ws_run c0 h f (snd (ws_pong t c))"
| run_close: "ws_run c0 h f c \<Longrightarrow> ws_run c0 h f (snd (ws_close cd t c))"
| run_turn: "ws_run c0 h f c \<Longrightarrow> ws_run c0 h f (snd (read_turn c))"
| run_fill: "ws_run c0 h f c \<Longrightarrow> ws_run c0 h f (snd (fill r c))"
| run_failed: "ws_run c0 h f c \<Longrightarrow> ws_run c0 h f (read_failed c)"
| run_begin: "ws_run c0 h False c \<Longrightarrow> w_writer_active c \<Longrightarrow> drain_begin c = (Some d, c') \<Longrightarrow> ws_run c0 (h @ d) True c'"
| run_idle: "ws_run c0 h False c \<Longrightarrow> w_writer_active c \<Longrightarrow> drain_begin c = (None, c') \<Longrightarrow> ws_run c0 h False c'"
| run_written: "ws_run c0 h True c \<Longrightarrow> ws_run c0 h False (drain_end b c)"
| run_abort: "ws_run c0 h f c \<Longrightarrow> ws_run c0 h f (ws_abort c)"

lemma ws_run_inv:
  assumes "ws_run c0 h f c" "wr_inv [] False c0"
  shows "wr_inv h f c \<and> w_role c = w_role c0"
  using assms
proof (induction rule: ws_run.induct)
  case (run_failed h f c)
  then show ?case using wr_inv_cong [of h f c "read_failed c"] by (simp add: read_failed_def)
next
  case (run_begin h c d c')
  moreover have "w_role c' = w_role c" using run_begin.hyps(3) by (auto simp: drain_begin_def split: if_splits)
  ultimately show ?case using wr_inv_drain_begin [of h c d c'] by simp
next
  case (run_idle h c c')
  moreover have "c' = c\<lparr>w_writer_active := False\<rparr>" "w_outbox c = []" using run_idle.hyps(3) by (auto simp: drain_begin_def split: if_splits)
  ultimately show ?case using wr_inv_idle by simp
next
  case (run_fill h f c r)
  then show ?case using wr_inv_fill [of h f c r] by (simp add: fill_def compact_def Let_def)
next
  case (run_written h c b)
  then show ?case using wr_inv_drain_end [of h c b] by (simp add: drain_end_def Let_def)
next
  case (run_abort h f c)
  then show ?case using wr_inv_abort [of h f c] by (simp add: ws_abort_def)
next
  case (run_close h f c cd t)
  then show ?case using wr_inv_close [of h f c cd t] by (simp add: ws_close_def)
qed (simp_all add: send_text_def send_binary_def ws_ping_def ws_pong_def wr_inv_enqueue wr_inv_read_turn role_read_turn)

lemma wr_inv_start: "wr_inv [] False (ws_connection rnd l opts r sp)"
  by (simp add: wr_inv_def ws_connection_def frames_wf_def out_wire_def exI [of _ "[]"])



section \<open>Any peer\<close>

definition rs_inv :: "ws_options \<Rightarrow> ws_conn \<Rightarrow> bool" where
  "rs_inv opts c \<longleftrightarrow> w_opts c = opts \<and> length (w_message c) \<le> max_message_size opts
     \<and> (w_in_message c \<longrightarrow> w_message_type c \<in> {Op_text, Op_binary}) \<and> (\<not> w_in_message c \<longrightarrow> w_message c = [])"

definition message_ok :: "ws_options \<Rightarrow> ws_message \<Rightarrow> bool" where
  "message_ok opts m \<longleftrightarrow> length (m_data m) \<le> max_message_size opts \<and> m_type m \<in> {Op_text, Op_binary} \<and> valid_text opts m"

definition turn_ok :: "ws_options \<Rightarrow> read_turn \<times> ws_conn \<Rightarrow> bool" where
  "turn_ok opts x \<longleftrightarrow> rs_inv opts (snd x) \<and> (\<forall>m. fst x = Return (Inl m) \<longrightarrow> message_ok opts m)"

lemma turn_ok_failed: "rs_inv opts c \<Longrightarrow> turn_ok opts (failed_with cd e c)"
  by (simp add: turn_ok_def failed_with_def ws_fail_def ws_close_def rs_inv_def Let_def)

lemma turn_ok_close: "rs_inv opts c \<Longrightarrow> turn_ok opts (on_close_frame p c)"
  by (auto simp: on_close_frame_def Let_def turn_ok_failed split: option.splits)
    (simp_all add: turn_ok_def ws_close_def rs_inv_def)

lemma data_opcode: "\<not> is_control op \<Longrightarrow> op \<noteq> Op_continuation \<Longrightarrow> op \<in> {Op_text, Op_binary}"
  by (cases op) (simp_all add: control_cases)

lemma turn_ok_data:
  assumes "rs_inv opts c" "\<not> is_control (fh_op h)" "(fh_op h = Op_continuation) = w_in_message c"
    "length (w_message c) + length p \<le> max_message_size opts"
  shows "turn_ok opts (on_data_frame h p c)"
proof -
  define c0 where "c0 = (if fh_op h \<noteq> Op_continuation then c\<lparr>w_in_message := True, w_message_type := fh_op h, w_message := []\<rparr> else c)"
  define c1 where "c1 = c0\<lparr>w_message := w_message c0 @ p\<rparr>"
  define c2 where "c2 = c1\<lparr>w_in_message := False, w_message := []\<rparr>"
  have c1: "rs_inv opts c1" "w_in_message c1"
    using assms data_opcode [of "fh_op h"] by (auto simp: rs_inv_def c1_def c0_def)
  have c2: "rs_inv opts c2" "w_opts c2 = opts" using c1 by (simp_all add: rs_inv_def c2_def)
  let ?m = "\<lparr>m_data = w_message c1, m_type = w_message_type c1\<rparr>"
  have eq: "on_data_frame h p c = (if fh_fin h then
      if m_type ?m = Op_text \<and> validate_utf8 (w_opts c2) \<and> \<not> is_valid_utf8 (m_data ?m) then failed_with cc_invalid_payload Err_utf8 c2
      else (Return (Inl ?m), c2) else (Continue, c1))"
    unfolding on_data_frame_def Let_def c2_def c1_def c0_def by (rule refl)
  have "\<not> (m_type ?m = Op_text \<and> validate_utf8 opts \<and> \<not> is_valid_utf8 (m_data ?m)) \<Longrightarrow> message_ok opts ?m"
    using c1 by (auto simp: message_ok_def valid_text_def rs_inv_def)
  then show ?thesis
    unfolding eq using c1 c2 turn_ok_failed [OF c2(1)] by (simp add: turn_ok_def)
qed

lemma turn_ok_take:
  assumes "rs_inv opts c"
  shows "rs_inv opts (snd (take_payload h c))" "length (fst (take_payload h c)) \<le> fh_payload_length h"
  using assms by (simp_all add: rs_inv_def take_payload_def Let_def)

lemma turn_ok_read:
  assumes "rs_inv opts c"
  shows "turn_ok opts (read_turn c)"
proof (cases "w_read_closed c \<or> (\<forall>h. parse_ws_header (avail c) \<noteq> WsComplete h)")
  case True
  then show ?thesis using assms turn_ok_failed [OF assms]
    by (auto simp: read_turn_def turn_ok_def split: ws_parse.splits)
next
  case False
  then obtain h where h: "\<not> w_read_closed c" "parse_ws_header (avail c) = WsComplete h" by blast
  obtain p c1 where t: "take_payload h c = (p, c1)" by (cases "take_payload h c")
  have c1: "rs_inv opts c1" "length p \<le> fh_payload_length h" "w_in_message c1 = w_in_message c" "w_message c1 = w_message c"
    using turn_ok_take [OF assms, of h] take_payload_keeps [of h c] by (simp_all add: t)
  have "turn_ok opts (on_frame h c)" if "\<not> header_violation h c"
    "is_control (fh_op h) \<or> length (w_message c) + fh_payload_length h \<le> max_message_size opts"
  proof (cases "is_control (fh_op h)")
    case True
    then show ?thesis using c1 turn_ok_close [OF c1(1), of p]
      by (auto simp: on_frame_def t control_cases turn_ok_def rs_inv_def)
  next
    case False
    then have "on_frame h c = on_data_frame h p c1" by (simp add: on_frame_def t control_cases)
    moreover have "(fh_op h = Op_continuation) = w_in_message c1"
      using that(1) False c1(3) by (auto simp: header_violation_def Let_def)
    ultimately show ?thesis using that(2) False c1 by (simp add: turn_ok_data)
  qed
  moreover have "turn_ok opts (Await, c)" using assms by (simp add: turn_ok_def)
  moreover have "w_opts c = opts" using assms by (simp add: rs_inv_def)
  ultimately show ?thesis
    using h turn_ok_failed [OF assms] by (auto simp: read_turn_def not_less)
qed

lemma ws_read_ok:
  assumes "rs_inv opts c" "ws_read ts c = (r, c', ts')"
  shows "rs_inv opts c' \<and> (\<forall>m. r = Some (Inl m) \<longrightarrow> message_ok opts m)"
  using assms
proof (induction ts c rule: ws_read.induct)
  case (1 ts c)
  have ok: "turn_ok opts (read_turn c)" by (rule turn_ok_read [OF "1.prems"(1)])
  obtain x c1 where x: "read_turn c = (x, c1)" by (cases "read_turn c")
  have c1: "rs_inv opts c1" using ok x by (simp add: turn_ok_def)
  have fill: "rs_inv opts (snd (fill t c1))" for t using c1 by (simp add: rs_inv_def fill_def compact_def Let_def)
  show ?case
  proof (cases x)
    case (Return y)
    then show ?thesis using "1.prems"(2) ok c1 x by (auto simp: ws_read.simps [of ts c] turn_ok_def)
  next
    case Continue
    then show ?thesis using "1.IH"(1) [OF x [symmetric] Continue c1] "1.prems"(2) x by (simp add: ws_read_continue)
  next
    case Await
    show ?thesis
    proof (cases ts)
      case Nil
      then show ?thesis using "1.prems"(2) x Await c1 by (auto simp: ws_read.simps [of "[]" c])
    next
      case (Cons t ts1)
      obtain e c2 where f: "fill t c1 = (e, c2)" by (cases "fill t c1")
      have c2: "rs_inv opts c2" using fill [of t] f by simp
      show ?thesis
      proof (cases e)
        case None
        then show ?thesis
          using "1.IH"(2) [OF x [symmetric] Await Cons f [symmetric] None c2] "1.prems"(2) x Await Cons f
          by (simp add: ws_read.simps [of "t # ts1" c])
      next
        case (Some ec)
        have "rs_inv opts (read_failed c2)" using c2 by (simp add: rs_inv_def read_failed_def)
        then show ?thesis using "1.prems"(2) x Await Cons f Some by (auto simp: ws_read.simps [of "t # ts1" c])
      qed
    qed
  qed
qed

text \<open>
  C27. Limits, for any peer.  Whatever octets arrive and whatever the transport reports, every message that \<^verbatim>\<open>read\<close>
  returns is at most \<^verbatim>\<open>max_message_size\<close> octets long, its type is text or binary, and it is valid UTF-8 if it is text
  and validation is on.
\<close>

theorem ws_read_limits:
  "list_all (\<lambda>m. length (m_data m) \<le> max_message_size opts \<and> (m_type m = Op_text \<or> m_type m = Op_binary)
      \<and> (m_type m = Op_text \<and> validate_utf8 opts \<longrightarrow> is_valid_utf8 (m_data m)))
    (reads n ts (ws_connection rnd leftover opts r sp))"
proof -
  have "list_all (message_ok opts) (reads n ts c)" if "rs_inv opts c" for c
    using that
  proof (induction n arbitrary: ts c)
    case (Suc n)
    obtain r c1 ts1 where x: "ws_read ts c = (r, c1, ts1)" by (cases "ws_read ts c")
    then show ?case using ws_read_ok [OF Suc.prems x] Suc.IH [of c1 ts1] by (auto split: option.splits sum.splits)
  qed simp
  moreover have "rs_inv opts (ws_connection rnd leftover opts r sp)" by (simp add: rs_inv_def ws_connection_def)
  ultimately have "list_all (message_ok opts) (reads n ts (ws_connection rnd leftover opts r sp))" by blast
  then show ?thesis by (simp add: message_ok_def valid_text_def list_all_iff)
qed

theorem ws_read_limits_witness:
  "list_all (\<lambda>m. length (m_data m) \<le> 100 \<and> (m_type m = Op_text \<or> m_type m = Op_binary)
      \<and> (m_type m = Op_text \<and> True \<longrightarrow> is_valid_utf8 (m_data m)))
    (reads 1 [\<lparr>t_data = [0x82, 0x01, 0x05], t_error = None, t_timed_out = False\<rparr>]
      (ws_connection (\<lambda>_. 0) [] \<lparr>max_message_size = 100, max_buffered_amount = 1000, validate_utf8 = True\<rparr> Client []))"
  using ws_read_limits [of "\<lparr>max_message_size = 100, max_buffered_amount = 1000, validate_utf8 = True\<rparr>"
    1 "[\<lparr>t_data = [0x82, 0x01, 0x05], t_error = None, t_timed_out = False\<rparr>]" "\<lambda>_. 0" "[]" Client "[]"]
  by simp

end
