(* ===== verification/Hpack.thy ===== *)
theory Hpack
  imports Http1_Codec
begin

unbundle bit_operations_syntax

text \<open>
  HPACK header compression: the namespace \<^verbatim>\<open>hpack\<close> of \<^verbatim>\<open>src/include/wavex/protos/http/http2codec.hpp\<close>.  Header blocks
  are octets, names and values are strings.  Lengths read from the peer are 64-bit words that are added to cursors of
  the same width, so the decoder's loop may run forever and is a partial function.  A shift of a 32-bit value by 32 or
  more, which the C++ standard leaves undefined, is the outcome \<open>Undefined\<close>.
\<close>

section \<open>Tables\<close>

definition STATIC_TABLE :: "header list" where
  "STATIC_TABLE =
    [([], []), ('':authority'', []), ('':method'', ''GET''), ('':method'', ''POST''), ('':path'', ''/''),
     ('':path'', ''/index.html''), ('':scheme'', ''http''), ('':scheme'', ''https''), ('':status'', ''200''),
     ('':status'', ''204''), ('':status'', ''206''), ('':status'', ''304''), ('':status'', ''400''),
     ('':status'', ''404''), ('':status'', ''500''), (''accept-charset'', []),
     (''accept-encoding'', ''gzip, deflate''), (''accept-language'', []), (''accept-ranges'', []), (''accept'', []),
     (''access-control-allow-origin'', []), (''age'', []), (''allow'', []), (''authorization'', []),
     (''cache-control'', []), (''content-disposition'', []), (''content-encoding'', []), (''content-language'', []),
     (''content-length'', []), (''content-location'', []), (''content-range'', []), (''content-type'', []),
     (''cookie'', []), (''date'', []), (''etag'', []), (''expect'', []), (''expires'', []), (''from'', []),
     (''host'', []), (''if-match'', []), (''if-modified-since'', []), (''if-none-match'', []), (''if-range'', []),
     (''if-unmodified-since'', []), (''last-modified'', []), (''link'', []), (''location'', []),
     (''max-forwards'', []), (''proxy-authenticate'', []), (''proxy-authorization'', []), (''range'', []),
     (''referer'', []), (''refresh'', []), (''retry-after'', []), (''server'', []), (''set-cookie'', []),
     (''strict-transport-security'', []), (''transfer-encoding'', []), (''user-agent'', []), (''vary'', []),
     (''via'', []), (''www-authenticate'', [])]"

text \<open>\<^verbatim>\<open>find_static\<close>: the loop from \<open>i\<close> with the first index whose name matches.\<close>

fun find_static_from :: "string \<Rightarrow> string \<Rightarrow> header list \<Rightarrow> nat \<Rightarrow> nat \<Rightarrow> nat \<times> bool" where
  "find_static_from name value [] i name_match = (name_match, False)"
| "find_static_from name value ((n, v) # es) i name_match =
     (if is_equal n name then
        if v = value then (i, True)
        else find_static_from name value es (Suc i) (if name_match = 0 then i else name_match)
      else find_static_from name value es (Suc i) name_match)"

definition find_static :: "string \<Rightarrow> string \<Rightarrow> nat \<times> bool" where
  "find_static name value = find_static_from name value (tl STATIC_TABLE) 1 0"

section \<open>Integers\<close>

definition max_prefix :: "nat \<Rightarrow> u8" where
  "max_prefix bits = ucast (push_bit bits 1 - 1 :: u32)"

function int_tail :: "u64 \<Rightarrow> bytes" where
  "int_tail v = (if v \<ge> 128 then (ucast (v mod 128) OR 0x80) # int_tail (v div 128) else [ucast v])"
  by pat_completeness auto

termination
proof (relation "measure unat")
  fix v :: u64
  assume "128 \<le> v"
  then have "unat v div 128 < unat v" by (simp add: word_le_nat_alt)
  then show "(v div 128, v) \<in> measure unat" by (simp add: unat_div)
qed simp

declare int_tail.simps [simp del]

definition encode_integer :: "u64 \<Rightarrow> nat \<Rightarrow> u8 \<Rightarrow> bytes" where
  "encode_integer v bits msk =
     (if v < ucast (max_prefix bits) then [msk OR ucast v]
      else (msk OR max_prefix bits) # int_tail (v - ucast (max_prefix bits)))"

text \<open>The loop of \<^verbatim>\<open>decode_integer\<close>; a result is the value and the new cursor.\<close>

function int_loop :: "bytes \<Rightarrow> nat \<Rightarrow> u64 \<Rightarrow> nat \<Rightarrow> (u64 \<times> nat) option" where
  "int_loop inp cursor result m =
     (if \<not> cursor < length inp then None
      else let b = inp ! cursor; result = result + push_bit m (ucast (b AND 0x7F)) in
        if b AND 0x80 = 0 then Some (result, cursor + 1)
        else if m + 7 > 63 then None
        else int_loop inp (cursor + 1) result (m + 7))"
  by pat_completeness auto

termination by (relation "measure (\<lambda>(inp, cursor, r, m). length inp - cursor)") auto

declare int_loop.simps [simp del]

definition decode_integer :: "bytes \<Rightarrow> nat \<Rightarrow> nat \<Rightarrow> (u64 \<times> nat) option" where
  "decode_integer inp cursor bits =
     (if cursor \<ge> length inp then None
      else let result = inp ! cursor AND max_prefix bits in
        if result < max_prefix bits then Some (ucast result, cursor + 1)
        else int_loop inp (cursor + 1) (ucast result) 0)"

section \<open>Strings\<close>

datatype 'a outcome = Done 'a | Refused | Undefined

definition encode_string :: "string \<Rightarrow> bytes" where
  "encode_string s = encode_integer (of_nat (length s)) 7 0x00 @ bytes_of s"

text \<open>The array has 257 elements and 256 initialisers; the last element is zero.\<close>

definition huff_table :: "(u32 \<times> nat) list" where
  "huff_table =
    [(0x1ff8, 13), (0x7fffd8, 23), (0xfffffe2, 28), (0xfffffe3, 28), (0xfffffe4, 28), (0xfffffe5, 28),
     (0xfffffe6, 28), (0xfffffe7, 28), (0xfffffe8, 28), (0xffffea, 24), (0x3ffffffc, 30), (0xfffffe9, 28),
     (0xfffffea, 28), (0x3ffffffd, 30), (0xfffffeb, 28), (0xfffffec, 28), (0xfffffed, 28), (0xfffffee, 28),
     (0xfffffef, 28), (0xffffff0, 28), (0xffffff1, 28), (0xffffff2, 28), (0x3ffffffe, 30), (0xffffff3, 28),
     (0xffffff4, 28), (0xffffff5, 28), (0xffffff6, 28), (0xffffff7, 28), (0xffffff8, 28), (0xffffff9, 28),
     (0xffffffa, 28), (0xffffffb, 28), (0x14, 6), (0x3f8, 10), (0x3f9, 10), (0xffa, 12), (0x1ff9, 13), (0x15, 6),
     (0xf8, 8), (0x7fa, 11), (0x3fa, 10), (0x3fb, 10), (0xf9, 8), (0x7fb, 11), (0xfa, 8), (0x16, 6), (0x17, 6),
     (0x18, 6), (0x0, 5), (0x1, 5), (0x2, 5), (0x19, 6), (0x1a, 6), (0x1b, 6), (0x1c, 6), (0x1d, 6), (0x1e, 6),
     (0x1f, 6), (0x5c, 7), (0xfb, 8), (0x7ffc, 15), (0x20, 6), (0xffb, 12), (0x3fc, 10), (0x1ffa, 13), (0x21, 6),
     (0x5d, 7), (0x5e, 7), (0x5f, 7), (0x60, 7), (0x61, 7), (0x62, 7), (0x63, 7), (0x64, 7), (0x65, 7), (0x66, 7),
     (0x67, 7), (0x68, 7), (0x69, 7), (0x6a, 7), (0x6b, 7), (0x6c, 7), (0x6d, 7), (0x6e, 7), (0x6f, 7), (0x70, 7),
     (0x71, 7), (0x72, 7), (0xfc, 8), (0x73, 7), (0xfd, 8), (0x1ffb, 13), (0x7fff0, 19), (0x1ffc, 13), (0x3ffc, 14),
     (0x22, 6), (0x7ffd, 15), (0x3, 5), (0x23, 6), (0x4, 5), (0x24, 6), (0x5, 5), (0x25, 6), (0x26, 6), (0x27, 6),
     (0x6, 5), (0x74, 7), (0x75, 7), (0x28, 6), (0x29, 6), (0x2a, 6), (0x7, 5), (0x2b, 6), (0x76, 7), (0x2c, 6),
     (0x8, 5), (0x9, 5), (0x2d, 6), (0x77, 7), (0x78, 7), (0x79, 7), (0x7a, 7), (0x7b, 7), (0x7ffe, 15), (0x7fc, 11),
     (0x3ffd, 14), (0x1ffd, 13), (0xffffffc, 28), (0xfffe6, 20), (0x3fffd2, 22), (0xfffe7, 20), (0xfffe8, 20),
     (0x3fffd3, 22), (0x3fffd4, 22), (0xffffffd, 28), (0x7fffd9, 23), (0x3fffd5, 22), (0x7fffda, 23), (0x7fffdb, 23),
     (0x7fffdc, 23), (0x7fffdd, 23), (0x7fffde, 23), (0xffffeb, 24), (0x7fffdf, 23), (0xffffec, 24), (0xffffed, 24),
     (0x3fffd6, 22), (0x7fffe0, 23), (0x1fffdc, 21), (0x3fffd7, 22), (0x7fffe1, 23), (0x7fffe2, 23), (0x7fffe3, 23),
     (0x7fffe4, 23), (0x1fffdd, 21), (0x7fffe5, 23), (0x7fffe6, 23), (0x7fffe7, 23), (0x7fffe8, 23), (0x7ffffff, 30),
     (0x3fffe, 18), (0x7fffe9, 23), (0xfffe9, 20), (0x3fffd8, 22), (0x7fffea, 23), (0x3fffd9, 22), (0x3fffda, 22),
     (0x7fffeb, 23), (0x7fffec, 23), (0x7fffed, 23), (0x7fffee, 23), (0x7fffef, 23), (0x7ffff0, 23), (0x3fffdb, 22),
     (0x3fffdc, 22), (0x7ffff1, 23), (0x7ffff2, 23), (0x1fffde, 21), (0x7ffff3, 23), (0x7ffff4, 23), (0x7ffff5, 23),
     (0x7ffff6, 23), (0x7ffff7, 23), (0x7ffff8, 23), (0x7ffff9, 23), (0x7ffffa, 23), (0x7ffffb, 23), (0x1fffdf, 21),
     (0x7ffffc, 23), (0xfffea, 20), (0x3fffdd, 22), (0x1fffe0, 21), (0x1fffe1, 21), (0x3fffde, 22), (0x7ffffd, 23),
     (0x3fffdf, 22), (0x7ffffe, 23), (0xffffff0, 24), (0xffffff1, 24), (0x3fffe0, 22), (0x1fffe2, 21),
     (0x1fffe3, 21), (0x3fffe1, 22), (0x1fffe4, 21), (0x7ffea, 19), (0x3fffe2, 22), (0x3fffe3, 22), (0x3fffe4, 22),
     (0x7ffeb, 19), (0x7ffec, 19), (0x3fffe5, 22), (0x3fffe6, 22), (0x3fffe7, 22), (0x3fffe8, 22), (0x3fffe9, 22),
     (0x3fffea, 22), (0x3fffeb, 22), (0x1fffe5, 21), (0x3fffec, 22), (0x3fffed, 22), (0x3fffee, 22), (0x3fffef, 22),
     (0x3ffff0, 22), (0x3ffff1, 22), (0x3ffff2, 22), (0x3ffff3, 22), (0x1fffe6, 21), (0x3ffff4, 22), (0x3ffff5, 22),
     (0x3ffff6, 22), (0x3ffff7, 22), (0x3ffff8, 22), (0x3ffff9, 22), (0x3ffffa, 22), (0x3ffffb, 22), (0x1fffe7, 21),
     (0x1fffe8, 21), (0x3ffffc, 22), (0x3ffffd, 22), (0x1fffe9, 21), (0x1fffea, 21), (0x1fffeb, 21), (0x1fffec, 21),
     (0x1fffed, 21), (0x1fffee, 21), (0x1fffef, 21), (0xfffeeb, 24), (0xfffeec, 24), (0xfffeed, 24), (0xfffeee, 24),
     (0x7fffec, 24), (0x7fffed, 24), (0x7fffee, 24), (0x7ffff0, 24), (0x7ffff1, 24), (0x3fffffe, 30), (0, 0)]"

text \<open>The search for the first symbol, from \<open>smb\<close> on, whose code is at the top of the \<open>bits\<close> collected bits.\<close>

fun huff_search :: "(u32 \<times> nat) list \<Rightarrow> nat \<Rightarrow> u32 \<Rightarrow> nat \<Rightarrow> (nat \<times> nat) option outcome" where
  "huff_search [] smb current bits = Done None"
| "huff_search ((e_code, e_bits) # es) smb current bits =
     (if e_bits \<le> bits then
        if bits - e_bits \<ge> 32 then Undefined
        else if drop_bit (bits - e_bits) current AND (push_bit e_bits 1 - 1) = e_code then Done (Some (smb, e_bits))
        else huff_search es (Suc smb) current bits
      else huff_search es (Suc smb) current bits)"

definition low_bits :: "nat \<Rightarrow> u32 \<Rightarrow> u32" where
  "low_bits bits current = (if bits = 0 then 0 else current AND (push_bit bits 1 - 1))"

definition huff_codes :: "(u32 \<times> nat) list" where
  "huff_codes = take 256 huff_table"

lemma huff_codes_bits: "list_all (\<lambda>e. 5 \<le> snd e \<and> snd e \<le> 30) huff_codes"
  by code_simp

lemma huff_search_bits:
  "huff_search es smb current bits = Done (Some (s, e_bits)) \<Longrightarrow> e_bits \<in> snd ` set es \<and> e_bits \<le> bits"
proof (induction es arbitrary: smb)
  case (Cons e es)
  then show ?case using Cons.IH [of "Suc smb"] by (cases e) (auto split: if_splits)
qed simp

text \<open>The inner loop: symbols are taken while one matches.\<close>

function huff_symbols :: "u32 \<Rightarrow> nat \<Rightarrow> string \<Rightarrow> (u32 \<times> nat \<times> string) outcome" where
  "huff_symbols current bits out =
     (if \<not> bits \<ge> 5 then Done (current, bits, out)
      else case huff_search huff_codes 0 current bits of
             Done (Some (smb, e_bits)) \<Rightarrow>
               huff_symbols (low_bits (bits - e_bits) current) (bits - e_bits) (out @ [char_of smb])
           | Done None \<Rightarrow> Done (current, bits, out)
           | Refused \<Rightarrow> Refused
           | Undefined \<Rightarrow> Undefined)"
  by pat_completeness auto

termination
proof (relation "measure (\<lambda>(current, bits, out). bits)", goal_cases)
  case (2 current bits out r p smb e_bits)
  then have "e_bits \<in> snd ` set huff_codes" using huff_search_bits [of huff_codes 0 current bits smb e_bits] by simp
  then have "5 \<le> e_bits" using huff_codes_bits by (auto simp: list_all_iff)
  then show ?case using 2 by simp
qed simp

declare huff_symbols.simps [simp del]

fun huff_octets :: "bytes \<Rightarrow> u32 \<Rightarrow> nat \<Rightarrow> string \<Rightarrow> (u32 \<times> nat \<times> string) outcome" where
  "huff_octets [] current bits out = Done (current, bits, out)"
| "huff_octets (c # cs) current bits out =
     (case huff_symbols (push_bit 8 current OR ucast c) ((bits + 8) mod 256) out of
        Done (current, bits, out) \<Rightarrow> huff_octets cs current bits out
      | Refused \<Rightarrow> Refused
      | Undefined \<Rightarrow> Undefined)"

definition huffman_decode :: "bytes \<Rightarrow> string \<Rightarrow> string outcome" where
  "huffman_decode inp out =
     (case huff_octets inp 0 0 out of
        Done (current, bits, out) \<Rightarrow>
          if bits > 0 then
            if bits > 7 then Refused
            else let mk = push_bit bits 1 - 1 in if current AND mk \<noteq> mk then Refused else Done out
          else Done out
      | Refused \<Rightarrow> Refused
      | Undefined \<Rightarrow> Undefined)"

text \<open>The sum of cursor and length wraps around at 64 bits, \<^verbatim>\<open>substr\<close> clamps its count.\<close>

definition decode_string :: "bytes \<Rightarrow> nat \<Rightarrow> (string \<times> nat) outcome" where
  "decode_string inp cursor =
     (if cursor \<ge> length inp then Refused
      else let is_huffman = (inp ! cursor AND 0x80 \<noteq> 0) in
        case decode_integer inp cursor 7 of
          None \<Rightarrow> Refused
        | Some (str_len, cursor) \<Rightarrow>
            let e = (cursor + unat str_len) mod SIZE_MOD in
            if e > length inp then Refused
            else let raw_str = substr inp cursor (unat str_len) in
              if is_huffman
              then (case huffman_decode raw_str [] of Done s \<Rightarrow> Done (s, e) | Refused \<Rightarrow> Refused | Undefined \<Rightarrow> Undefined)
              else Done (str_of raw_str, e))"

section \<open>Dynamic table\<close>

record dynamic_table =
  dt_entries :: "header list"
  dt_current_size :: nat
  dt_max_capacity :: nat

definition dynamic_table_new :: "nat \<Rightarrow> dynamic_table" where
  "dynamic_table_new cap = \<lparr>dt_entries = [], dt_current_size = 0, dt_max_capacity = cap\<rparr>"

definition entry_size :: "header \<Rightarrow> nat" where
  "entry_size e = length (fst e) + length (snd e) + 32"

function evict_to_fit :: "dynamic_table \<Rightarrow> dynamic_table" where
  "evict_to_fit t =
     (if dt_current_size t > dt_max_capacity t \<and> dt_entries t \<noteq> []
      then evict_to_fit (t\<lparr>dt_current_size := dt_current_size t - entry_size (last (dt_entries t)),
                           dt_entries := butlast (dt_entries t)\<rparr>)
      else t)"
  by pat_completeness auto

termination by (relation "measure (\<lambda>t. length (dt_entries t))") auto

declare evict_to_fit.simps [simp del]

definition dt_set_max_capacity :: "nat \<Rightarrow> dynamic_table \<Rightarrow> dynamic_table" where
  "dt_set_max_capacity new_cap t = evict_to_fit (t\<lparr>dt_max_capacity := new_cap\<rparr>)"

definition dt_insert :: "string \<Rightarrow> string \<Rightarrow> dynamic_table \<Rightarrow> dynamic_table" where
  "dt_insert name value t =
     (let e = (name, value) in
      if entry_size e > dt_max_capacity t then t\<lparr>dt_entries := [], dt_current_size := 0\<rparr>
      else evict_to_fit (t\<lparr>dt_entries := e # dt_entries t, dt_current_size := dt_current_size t + entry_size e\<rparr>))"

definition dt_get :: "nat \<Rightarrow> dynamic_table \<Rightarrow> header option" where
  "dt_get i t = (if i < length (dt_entries t) then Some (dt_entries t ! i) else None)"

section \<open>Encoder\<close>

text \<open>\<open>s\<close> is the static index that is used for the name when the code does not take the one found.\<close>

definition encode_indexed_or :: "nat \<Rightarrow> string \<Rightarrow> string \<Rightarrow> bytes" where
  "encode_indexed_or s name value =
     (case find_static name value of (idx, exact) \<Rightarrow>
        if exact then encode_integer (of_nat idx) 7 0x80 else encode_integer (of_nat s) 4 0x00 @ encode_string value)"

definition encode_field :: "header \<Rightarrow> bytes" where
  "encode_field h =
     (case find_static (fst h) (snd h) of (idx, exact) \<Rightarrow>
        if exact then encode_integer (of_nat idx) 7 0x80
        else if idx > 0 then encode_integer (of_nat idx) 4 0x00 @ encode_string (snd h)
        else encode_integer 0 4 0x00 @ encode_string (fst h) @ encode_string (snd h))"

definition is_pseudo :: "header \<Rightarrow> bool" where
  "is_pseudo h \<longleftrightarrow> fst h \<noteq> [] \<and> hd (fst h) = CHR '':''"

definition lower_name :: "header \<Rightarrow> header" where
  "lower_name h = (map ascii_lower (fst h), snd h)"

definition encode_fields :: "header list \<Rightarrow> bytes" where
  "encode_fields hs = concat (map (\<lambda>h. encode_field (lower_name h)) (filter (\<lambda>h. \<not> is_pseudo h) hs))"

definition encode_scheme :: "string \<Rightarrow> bytes" where
  "encode_scheme scheme = encode_indexed_or 6 '':scheme'' (if scheme = [] then ''https'' else scheme)"

definition encode_path :: "string \<Rightarrow> bytes" where
  "encode_path trg =
     (let path = (if trg = [] then ''/'' else trg) in
      if path = ''/'' then encode_integer 4 7 0x80
      else if path = ''/index.html'' then encode_integer 5 7 0x80
      else encode_integer 4 4 0x00 @ encode_string path)"

definition encode_authority :: "string \<Rightarrow> bytes" where
  "encode_authority a = (if a = [] then [] else encode_integer 1 4 0x00 @ encode_string a)"

definition encode_request_headers :: "http_method \<Rightarrow> string \<Rightarrow> string \<Rightarrow> string \<Rightarrow> header list \<Rightarrow> bytes" where
  "encode_request_headers m trg scheme authority hs =
     encode_field ('':method'', method_to_string m) @ encode_scheme scheme @ encode_path trg @ encode_authority authority
     @ encode_fields hs"

definition encode_response_headers :: "nat \<Rightarrow> header list \<Rightarrow> bytes" where
  "encode_response_headers status hs = encode_indexed_or 8 '':status'' (to_chars 10 status) @ encode_fields hs"

section \<open>Decoder\<close>

text \<open>An empty name is the result for an index that is not in the tables.\<close>

definition lookup_index :: "u64 \<Rightarrow> dynamic_table \<Rightarrow> header" where
  "lookup_index idx dt =
     (if idx = 0 then ([], [])
      else if unat idx < length STATIC_TABLE then STATIC_TABLE ! unat idx
      else case dt_get (unat idx - length STATIC_TABLE) dt of Some e \<Rightarrow> e | None \<Rightarrow> ([], []))"

text \<open>A literal after its first octet was recognised: the name by index or as text, then the value.\<close>

definition decode_name :: "bytes \<Rightarrow> nat \<Rightarrow> nat \<Rightarrow> dynamic_table \<Rightarrow> (string \<times> nat) outcome" where
  "decode_name block cursor bits dt =
     (case decode_integer block cursor bits of
        None \<Rightarrow> Refused
      | Some (name_idx, cursor) \<Rightarrow>
          if name_idx = 0 then decode_string block cursor
          else let n = fst (lookup_index name_idx dt) in if n = [] then Refused else Done (n, cursor))"

definition decode_literal :: "bytes \<Rightarrow> nat \<Rightarrow> nat \<Rightarrow> dynamic_table \<Rightarrow> (header \<times> nat) outcome" where
  "decode_literal block cursor bits dt =
     (case decode_name block cursor bits dt of
        Done (name, cursor) \<Rightarrow>
          (case decode_string block cursor of
             Done (val, cursor) \<Rightarrow> Done ((name, val), cursor)
           | Refused \<Rightarrow> Refused
           | Undefined \<Rightarrow> Undefined)
      | Refused \<Rightarrow> Refused
      | Undefined \<Rightarrow> Undefined)"

text \<open>One turn of the loop of \<^verbatim>\<open>decode_header_block\<close>: the table, the field if there is one, the cursor.\<close>

definition decode_field :: "bytes \<Rightarrow> nat \<Rightarrow> dynamic_table \<Rightarrow> (dynamic_table \<times> header option \<times> nat) outcome" where
  "decode_field block cursor dt =
     (let b = block ! cursor in
      if b AND 0x80 \<noteq> 0 then
        (case decode_integer block cursor 7 of
           None \<Rightarrow> Refused
         | Some (index, cursor) \<Rightarrow>
             let e = lookup_index index dt in if fst e = [] then Refused else Done (dt, Some e, cursor))
      else if b AND 0x40 \<noteq> 0 then
        (case decode_literal block cursor 6 dt of
           Done (e, cursor) \<Rightarrow> Done (dt_insert (fst e) (snd e) dt, Some e, cursor)
         | Refused \<Rightarrow> Refused
         | Undefined \<Rightarrow> Undefined)
      else if b AND 0x20 \<noteq> 0 then
        (case decode_integer block cursor 5 of
           None \<Rightarrow> Refused
         | Some (new_max_size, cursor) \<Rightarrow> Done (dt_set_max_capacity (unat new_max_size) dt, None, cursor))
      else
        (case decode_literal block cursor 4 dt of
           Done (e, cursor) \<Rightarrow> Done (dt, Some e, cursor)
         | Refused \<Rightarrow> Refused
         | Undefined \<Rightarrow> Undefined))"

datatype block_status = Blk_ok | Blk_error | Blk_limit | Blk_undefined

text \<open>\<open>max_list\<close> is the cap on the decoded list, 0 for none; \<open>lst\<close> counts the octets of the fields decoded so far.\<close>

definition over_limit :: "nat \<Rightarrow> nat \<Rightarrow> bool" where
  "over_limit max_list lst \<longleftrightarrow> max_list \<noteq> 0 \<and> lst > max_list"

partial_function (option) decode_loop ::
    "nat \<Rightarrow> bytes \<Rightarrow> nat \<Rightarrow> nat \<Rightarrow> dynamic_table \<Rightarrow> header list \<Rightarrow> (block_status \<times> dynamic_table \<times> header list) option" where
  "decode_loop max_list block cursor lst dt out =
     (if over_limit max_list lst then Some (Blk_limit, dt, out)
      else if \<not> cursor < length block then Some (Blk_ok, dt, out)
      else case decode_field block cursor dt of
             Refused \<Rightarrow> Some (Blk_error, dt, out)
           | Undefined \<Rightarrow> Some (Blk_undefined, dt, out)
           | Done (dt, f, cursor) \<Rightarrow>
               (case f of
                  None \<Rightarrow> decode_loop max_list block cursor lst dt out
                | Some e \<Rightarrow> decode_loop max_list block cursor (lst + entry_size e) dt (out @ [e])))"

definition decode_header_block :: "nat \<Rightarrow> bytes \<Rightarrow> dynamic_table \<Rightarrow> header list \<Rightarrow> (block_status \<times> dynamic_table \<times> header list) option" where
  "decode_header_block max_list block dt out = decode_loop max_list block 0 0 dt out"

end
