(* ===== verification/Http2_Codec.thy ===== *)
theory Http2_Codec
  imports Hpack
begin

unbundle bit_operations_syntax

text \<open>
  The HTTP/2 codec: frames, messages, parser and encoder of
  \<^verbatim>\<open>src/include/wavex/protos/http/http2codec.hpp\<close> and the helpers of
  \<^verbatim>\<open>src/src/protos/http/http2session.cpp\<close>.  Buffers are lists of octets, header names and values and the bodies of
  messages are texts.  \<^verbatim>\<open>frame_type\<close> has a fixed underlying type and holds every octet a peer may send, so types are
  octets.  The parsers take the message that the caller passes in, because its stream identifier and method survive
  failed attempts, and return it updated on every path; the views \<open>h2_target\<close>, \<open>h2_scheme\<close> and \<open>h2_authority\<close> keep
  their old text on the failing paths, where the code leaves them pointing into cleared strings and the callers do not
  read them.  A parser returns \<open>None\<close> exactly when the header decoder does not return.
\<close>

section \<open>Frames\<close>

definition CONNECTION_PREFACE :: bytes where
  "CONNECTION_PREFACE = bytes_of (''PRI * HTTP/2.0'' @ CRLF @ CRLF @ ''SM'' @ CRLF @ CRLF)"

abbreviation FT_DATA :: u8 where "FT_DATA \<equiv> 0x0"
abbreviation FT_HEADERS :: u8 where "FT_HEADERS \<equiv> 0x1"
abbreviation FT_PRIORITY :: u8 where "FT_PRIORITY \<equiv> 0x2"
abbreviation FT_RST_STREAM :: u8 where "FT_RST_STREAM \<equiv> 0x3"
abbreviation FT_SETTINGS :: u8 where "FT_SETTINGS \<equiv> 0x4"
abbreviation FT_PUSH_PROMISE :: u8 where "FT_PUSH_PROMISE \<equiv> 0x5"
abbreviation FT_PING :: u8 where "FT_PING \<equiv> 0x6"
abbreviation FT_GOAWAY :: u8 where "FT_GOAWAY \<equiv> 0x7"
abbreviation FT_WINDOW_UPDATE :: u8 where "FT_WINDOW_UPDATE \<equiv> 0x8"
abbreviation FT_CONTINUATION :: u8 where "FT_CONTINUATION \<equiv> 0x9"

abbreviation FL_NONE :: u8 where "FL_NONE \<equiv> 0x00"
abbreviation FL_END_STREAM :: u8 where "FL_END_STREAM \<equiv> 0x01"
abbreviation FL_ACK :: u8 where "FL_ACK \<equiv> 0x01"
abbreviation FL_END_HEADERS :: u8 where "FL_END_HEADERS \<equiv> 0x04"
abbreviation FL_PADDED :: u8 where "FL_PADDED \<equiv> 0x08"
abbreviation FL_PRIORITY :: u8 where "FL_PRIORITY \<equiv> 0x20"

datatype h2_error = NO_ERROR | PROTOCOL_ERROR | INTERNAL_ERROR | FLOW_CONTROL_ERROR | SETTINGS_TIMEOUT | STREAM_CLOSED
  | FRAME_SIZE_ERROR | REFUSED_STREAM | CANCEL | COMPRESSION_ERROR | CONNECT_ERROR | ENHANCE_YOUR_CALM
  | INADEQUATE_SECURITY | HTTP_1_1_REQUIRED

definition h2_error_code :: "h2_error \<Rightarrow> u32" where
  "h2_error_code e = (case e of NO_ERROR \<Rightarrow> 0x0 | PROTOCOL_ERROR \<Rightarrow> 0x1 | INTERNAL_ERROR \<Rightarrow> 0x2 | FLOW_CONTROL_ERROR \<Rightarrow> 0x3
     | SETTINGS_TIMEOUT \<Rightarrow> 0x4 | STREAM_CLOSED \<Rightarrow> 0x5 | FRAME_SIZE_ERROR \<Rightarrow> 0x6 | REFUSED_STREAM \<Rightarrow> 0x7 | CANCEL \<Rightarrow> 0x8
     | COMPRESSION_ERROR \<Rightarrow> 0x9 | CONNECT_ERROR \<Rightarrow> 0xa | ENHANCE_YOUR_CALM \<Rightarrow> 0xb | INADEQUATE_SECURITY \<Rightarrow> 0xc
     | HTTP_1_1_REQUIRED \<Rightarrow> 0xd)"

datatype settings_parameter = HEADER_TABLE_SIZE | ENABLE_PUSH | MAX_CONCURRENT_STREAMS | INITIAL_WINDOW_SIZE
  | MAX_FRAME_SIZE | MAX_HEADER_LIST_SIZE | ENABLE_CONNECT_PROTOCOL

definition settings_id :: "settings_parameter \<Rightarrow> u16" where
  "settings_id p = (case p of HEADER_TABLE_SIZE \<Rightarrow> 0x1 | ENABLE_PUSH \<Rightarrow> 0x2 | MAX_CONCURRENT_STREAMS \<Rightarrow> 0x3
     | INITIAL_WINDOW_SIZE \<Rightarrow> 0x4 | MAX_FRAME_SIZE \<Rightarrow> 0x5 | MAX_HEADER_LIST_SIZE \<Rightarrow> 0x6 | ENABLE_CONNECT_PROTOCOL \<Rightarrow> 0x8)"

record h2_frame_header =
  f_length :: u32
  f_stream_id :: u32
  f_type :: u8
  f_flags :: u8

definition has_flag :: "u8 \<Rightarrow> h2_frame_header \<Rightarrow> bool" where
  "has_flag f hdr \<longleftrightarrow> f_flags hdr AND f = f"

definition pack_frame_header :: "h2_frame_header \<Rightarrow> bytes" where
  "pack_frame_header hdr =
     [octet (f_length hdr) 16, octet (f_length hdr) 8, octet (f_length hdr) 0, f_type hdr, f_flags hdr]
     @ (let sid = f_stream_id hdr AND 0x7FFFFFFF in [octet sid 24, octet sid 16, octet sid 8, octet sid 0])"

definition unpack_frame_header :: "bytes \<Rightarrow> h2_frame_header option" where
  "unpack_frame_header buf =
     (if length buf < 9 then None
      else Some \<lparr>f_length = push_bit 16 (ucast (buf ! 0)) OR push_bit 8 (ucast (buf ! 1)) OR ucast (buf ! 2),
                 f_stream_id = push_bit 24 (ucast (buf ! 5) AND 0x7F) OR push_bit 16 (ucast (buf ! 6))
                   OR push_bit 8 (ucast (buf ! 7)) OR ucast (buf ! 8),
                 f_type = buf ! 3, f_flags = buf ! 4\<rparr>)"

section \<open>Messages\<close>

record h2_request = message_base +
  h2_target :: string
  h2_scheme :: string
  h2_authority :: string
  h2_protocol :: string
  h2_stream_id :: u32
  h2_method :: http_method

record h2_response = message_base +
  h2_status_text :: string
  h2_status_code :: nat
  h2_res_stream_id :: u32

definition h2_request_new :: h2_request where
  "h2_request_new = \<lparr>headers = [], body = [], version_major = 2, version_minor = 0, h2_target = [], h2_scheme = ''https'',
     h2_authority = [], h2_protocol = [], h2_stream_id = 1, h2_method = M_UNKNOWN\<rparr>"

definition h2_response_new :: h2_response where
  "h2_response_new = \<lparr>headers = [], body = [], version_major = 2, version_minor = 0, h2_status_text = ''OK'',
     h2_status_code = 200, h2_res_stream_id = 1\<rparr>"

section \<open>Parser\<close>

text \<open>\<open>H2_undefined\<close> stands for the undefined shift of the Huffman decoder.\<close>

datatype h2_result = H2_success | H2_incomplete | H2_error | H2_headers_too_large | H2_undefined

datatype frame_parse = Frame h2_frame_header bytes nat | Frame_incomplete

definition h2_parse_frame :: "bytes \<Rightarrow> frame_parse" where
  "h2_parse_frame buffer =
     (case unpack_frame_header buffer of
        None \<Rightarrow> Frame_incomplete
      | Some hdr \<Rightarrow>
          let total = 9 + unat (f_length hdr) in
          if length buffer < total then Frame_incomplete
          else Frame hdr (substr buffer 9 (unat (f_length hdr))) total)"

lemma parse_frame_bytes: "h2_parse_frame buf = Frame hdr payload n \<Longrightarrow> 9 \<le> n \<and> n \<le> length buf"
  by (auto simp: h2_parse_frame_def Let_def split: option.splits if_splits)

text \<open>The header block of a HEADERS frame and the data of a DATA frame, without padding and priority; \<open>None\<close> is an error.\<close>

definition frame_block :: "h2_frame_header \<Rightarrow> bytes \<Rightarrow> bytes option" where
  "frame_block hdr payload =
     (if has_flag FL_PADDED hdr \<and> payload = [] then None
      else let pad_len = (if has_flag FL_PADDED hdr then unat (payload ! 0) else 0);
               header_cursor = (if has_flag FL_PADDED hdr then 1 else 0) in
        if has_flag FL_PRIORITY hdr \<and> length payload < header_cursor + 5 then None
        else let header_cursor = (if has_flag FL_PRIORITY hdr then header_cursor + 5 else header_cursor) in
          if length payload < header_cursor + pad_len then None
          else Some (substr payload header_cursor (length payload - header_cursor - pad_len)))"

definition frame_data :: "h2_frame_header \<Rightarrow> bytes \<Rightarrow> bytes option" where
  "frame_data hdr payload =
     (if has_flag FL_PADDED hdr \<and> payload = [] then None
      else let pad_len = (if has_flag FL_PADDED hdr then unat (payload ! 0) else 0);
               data_offset = (if has_flag FL_PADDED hdr then 1 else 0) in
        if length payload < data_offset + pad_len then None
        else Some (substr payload data_offset (length payload - data_offset - pad_len)))"

definition kDefaultMaxHeaderListSize :: nat where "kDefaultMaxHeaderListSize = 65536"

text \<open>The variables of the frame loops, which the two parsers share.\<close>

record h2_loop =
  l_stream_id :: u32
  l_decoded :: "header list"
  l_received :: bool
  l_body :: bytes
  l_table :: dynamic_table

datatype loop_exit = Leave nat h2_loop | Return_with h2_result h2_loop

text \<open>
  The loops of \<^verbatim>\<open>parse_request\<close> and \<^verbatim>\<open>parse_response\<close>; they differ only in the result for a header list over the cap,
  \<open>too_large\<close>.
\<close>

function frame_loop :: "h2_result \<Rightarrow> bytes \<Rightarrow> nat \<Rightarrow> h2_loop \<Rightarrow> loop_exit option" where
  "frame_loop too_large buffer cursor l =
     (if \<not> cursor < length buffer then Some (Leave cursor l)
      else case h2_parse_frame (drop cursor buffer) of
        Frame_incomplete \<Rightarrow> Some (Return_with H2_incomplete l)
      | Frame hdr payload frame_bytes \<Rightarrow>
          if f_type hdr = FT_SETTINGS then frame_loop too_large buffer (cursor + frame_bytes) l
          else if f_type hdr = FT_HEADERS then
            (let l = l\<lparr>l_stream_id := f_stream_id hdr\<rparr> in
             case frame_block hdr payload of
               None \<Rightarrow> Some (Return_with H2_error l)
             | Some block \<Rightarrow>
                 (case decode_header_block kDefaultMaxHeaderListSize block (l_table l) (l_decoded l) of
                    None \<Rightarrow> None
                  | Some (Blk_error, _) \<Rightarrow> Some (Return_with H2_error l)
                  | Some (Blk_undefined, _) \<Rightarrow> Some (Return_with H2_undefined l)
                  | Some (Blk_limit, _) \<Rightarrow> Some (Return_with too_large l)
                  | Some (Blk_ok, dt, decoded) \<Rightarrow>
                      let l = l\<lparr>l_table := dt, l_decoded := decoded, l_received := True\<rparr> in
                      if has_flag FL_END_STREAM hdr then Some (Leave (cursor + frame_bytes) l)
                      else frame_loop too_large buffer (cursor + frame_bytes) l))
          else if f_type hdr = FT_DATA \<and> f_stream_id hdr = l_stream_id l then
            (case frame_data hdr payload of
               None \<Rightarrow> Some (Return_with H2_error l)
             | Some d \<Rightarrow>
                 let l = l\<lparr>l_body := l_body l @ d\<rparr> in
                 if has_flag FL_END_STREAM hdr then Some (Leave (cursor + frame_bytes) l)
                 else frame_loop too_large buffer (cursor + frame_bytes) l)
          else frame_loop too_large buffer (cursor + frame_bytes) l)"
  by pat_completeness auto

termination
  by (relation "measure (\<lambda>(t, buffer, cursor, l). length buffer - cursor)") (auto dest!: parse_frame_bytes)

declare frame_loop.simps [simp del]

definition take_field :: "header \<Rightarrow> h2_request \<Rightarrow> h2_request" where
  "take_field h req =
     (if fst h = '':method'' then req\<lparr>h2_method := method_from_string (snd h)\<rparr>
      else if fst h = '':path'' then req\<lparr>h2_target := snd h\<rparr>
      else if fst h = '':scheme'' then req\<lparr>h2_scheme := snd h\<rparr>
      else if fst h = '':authority'' then req\<lparr>h2_authority := snd h\<rparr>
      else if fst h = '':protocol'' then req\<lparr>h2_protocol := snd h\<rparr>
      else req\<lparr>headers := headers req @ [h]\<rparr>)"

text \<open>The check of RFC 8441 and the assignments to the views, on a request that holds the stored strings.\<close>

definition finish_request :: "h2_request \<Rightarrow> h2_request option" where
  "finish_request req =
     (if h2_protocol req \<noteq> [] \<and>
         (h2_method req \<noteq> M_CONNECT \<or> h2_target req = [] \<or> h2_scheme req = [] \<or> h2_authority req = []) then None
      else Some (req\<lparr>h2_scheme := if h2_scheme req = [] then ''https'' else h2_scheme req\<rparr>))"

definition h2_parse_request :: "bytes \<Rightarrow> h2_request \<Rightarrow> dynamic_table \<Rightarrow> (h2_result \<times> h2_request \<times> nat \<times> dynamic_table) option" where
  "h2_parse_request buffer req dt =
     (let req = req\<lparr>headers := [], h2_protocol := [], body := []\<rparr>;
          cursor = (if take (length CONNECTION_PREFACE) buffer = CONNECTION_PREFACE then length CONNECTION_PREFACE else 0);
          l0 = \<lparr>l_stream_id = h2_stream_id req, l_decoded = [], l_received = False, l_body = [], l_table = dt\<rparr> in
      case frame_loop H2_headers_too_large buffer cursor l0 of
        None \<Rightarrow> None
      | Some (Return_with r l) \<Rightarrow> Some (r, req\<lparr>h2_stream_id := l_stream_id l\<rparr>, 0, dt)
      | Some (Leave cursor l) \<Rightarrow>
          let req = req\<lparr>h2_stream_id := l_stream_id l\<rparr> in
          if \<not> l_received l then Some (H2_incomplete, req, 0, dt)
          else let stored = fold take_field (l_decoded l) (req\<lparr>h2_target := [], h2_scheme := [], h2_authority := []\<rparr>) in
            case finish_request stored of
              None \<Rightarrow> Some (H2_error, req\<lparr>h2_method := h2_method stored, h2_protocol := h2_protocol stored\<rparr>, 0, dt)
            | Some r \<Rightarrow> Some (H2_success, r\<lparr>body := str_of (l_body l)\<rparr>, cursor, l_table l))"

definition take_res_field :: "header \<Rightarrow> h2_response \<Rightarrow> h2_response" where
  "take_res_field h res =
     (if fst h = '':status'' then
        (let parsed_code = (case from_chars 10 SIZE_MOD (snd h) of None \<Rightarrow> 200 | Some v \<Rightarrow> v);
             c = parsed_code mod 2 ^ 32 in
         res\<lparr>h2_status_code := c, h2_status_text := status_text_for c\<rparr>)
      else res\<lparr>headers := headers res @ [h]\<rparr>)"

definition h2_parse_response :: "bytes \<Rightarrow> h2_response \<Rightarrow> dynamic_table \<Rightarrow> (h2_result \<times> h2_response \<times> nat \<times> dynamic_table) option" where
  "h2_parse_response buffer res dt =
     (let res = res\<lparr>headers := [], body := []\<rparr>;
          l0 = \<lparr>l_stream_id = h2_res_stream_id res, l_decoded = [], l_received = False, l_body = [], l_table = dt\<rparr> in
      case frame_loop H2_error buffer 0 l0 of
        None \<Rightarrow> None
      | Some (Return_with r l) \<Rightarrow> Some (r, res\<lparr>h2_res_stream_id := l_stream_id l\<rparr>, 0, dt)
      | Some (Leave cursor l) \<Rightarrow>
          let res = res\<lparr>h2_res_stream_id := l_stream_id l\<rparr> in
          if \<not> l_received l then Some (H2_incomplete, res, 0, dt)
          else Some (H2_success, (fold take_res_field (l_decoded l) res)\<lparr>body := str_of (l_body l)\<rparr>, cursor, l_table l))"

section \<open>Encoder\<close>

definition serialize_headers :: "h2_response \<Rightarrow> bool \<Rightarrow> bytes" where
  "serialize_headers res end_stream =
     (let header_block = encode_response_headers (h2_status_code res) (headers res) in
      pack_frame_header \<lparr>f_length = of_nat (length header_block), f_stream_id = h2_res_stream_id res, f_type = FT_HEADERS,
        f_flags = if end_stream then FL_END_HEADERS OR FL_END_STREAM else FL_END_HEADERS\<rparr> @ header_block)"

text \<open>
  The loop over the body, in frames of at most 16384 octets.  The encoder ends the stream with the last one; the
  session's \<^verbatim>\<open>build_request_wire\<close> has the same loop and ends it when \<open>end_stream\<close> is set.
\<close>

function data_frames :: "bool \<Rightarrow> u32 \<Rightarrow> bytes \<Rightarrow> nat \<Rightarrow> bytes" where
  "data_frames end_stream sid bdy offset =
     (if offset < length bdy then
        let chunk_len = min (length bdy - offset) 16384;
            is_last = (offset + chunk_len = length bdy) in
        pack_frame_header \<lparr>f_length = of_nat chunk_len, f_stream_id = sid, f_type = FT_DATA,
          f_flags = if is_last \<and> end_stream then FL_END_STREAM else FL_NONE\<rparr>
        @ substr bdy offset chunk_len @ data_frames end_stream sid bdy (offset + chunk_len)
      else [])"
  by pat_completeness auto

termination by (relation "measure (\<lambda>(e, sid, bdy, offset). length bdy - offset)") auto

declare data_frames.simps [simp del]

definition h2_serialize_response :: "h2_response \<Rightarrow> bytes" where
  "h2_serialize_response res =
     (let header_block = encode_response_headers (h2_status_code res) (headers res) in
      pack_frame_header \<lparr>f_length = of_nat (length header_block), f_stream_id = h2_res_stream_id res, f_type = FT_HEADERS,
        f_flags = if body res = [] then FL_END_HEADERS OR FL_END_STREAM else FL_END_HEADERS\<rparr>
      @ header_block @ data_frames True (h2_res_stream_id res) (bytes_of (body res)) 0)"

definition h2_serialize_request :: "h2_request \<Rightarrow> bytes" where
  "h2_serialize_request req =
     (let header_block = encode_request_headers (h2_method req) (h2_target req) (h2_scheme req) (h2_authority req) (headers req) in
      pack_frame_header \<lparr>f_length = of_nat (length header_block), f_stream_id = h2_stream_id req, f_type = FT_HEADERS,
        f_flags = if body req = [] then FL_END_HEADERS OR FL_END_STREAM else FL_END_HEADERS\<rparr>
      @ header_block @ data_frames True (h2_stream_id req) (bytes_of (body req)) 0)"

definition serialize_settings :: "(settings_parameter \<times> u32) list \<Rightarrow> bytes" where
  "serialize_settings settings =
     pack_frame_header \<lparr>f_length = of_nat (length settings * 6), f_stream_id = 0, f_type = FT_SETTINGS, f_flags = FL_NONE\<rparr>
     @ concat (map (\<lambda>(p, v). octets 2 (settings_id p) @ octets 4 v) settings)"

definition serialize_settings_ack :: bytes where
  "serialize_settings_ack = pack_frame_header \<lparr>f_length = 0, f_stream_id = 0, f_type = FT_SETTINGS, f_flags = FL_ACK\<rparr>"

definition serialize_ping :: "u64 \<Rightarrow> bool \<Rightarrow> bytes" where
  "serialize_ping opaque_data ack =
     pack_frame_header \<lparr>f_length = 8, f_stream_id = 0, f_type = FT_PING, f_flags = if ack then FL_ACK else FL_NONE\<rparr>
     @ octets 8 opaque_data"

definition serialize_window_update :: "u32 \<Rightarrow> u32 \<Rightarrow> bytes" where
  "serialize_window_update sid increment =
     pack_frame_header \<lparr>f_length = 4, f_stream_id = sid, f_type = FT_WINDOW_UPDATE, f_flags = FL_NONE\<rparr>
     @ octets 4 (increment AND 0x7FFFFFFF)"

definition serialize_goaway :: "u32 \<Rightarrow> h2_error \<Rightarrow> string \<Rightarrow> bytes" where
  "serialize_goaway last_stream_id err debug_data =
     pack_frame_header \<lparr>f_length = of_nat (8 + length debug_data), f_stream_id = 0, f_type = FT_GOAWAY, f_flags = FL_NONE\<rparr>
     @ octets 4 (last_stream_id AND 0x7FFFFFFF) @ octets 4 (h2_error_code err) @ bytes_of debug_data"

definition serialize_rst_stream :: "u32 \<Rightarrow> h2_error \<Rightarrow> bytes" where
  "serialize_rst_stream sid err =
     pack_frame_header \<lparr>f_length = 4, f_stream_id = sid, f_type = FT_RST_STREAM, f_flags = FL_NONE\<rparr>
     @ octets 4 (h2_error_code err)"

definition serialize_data_frame :: "u32 \<Rightarrow> bytes \<Rightarrow> bool \<Rightarrow> bytes" where
  "serialize_data_frame sid d end_stream =
     pack_frame_header \<lparr>f_length = of_nat (length d), f_stream_id = sid, f_type = FT_DATA,
       f_flags = if end_stream then FL_END_STREAM else FL_NONE\<rparr> @ d"

definition h2_format_terminal_chunk :: bytes where
  "h2_format_terminal_chunk = [0x00, 0x00, 0x00, 0x00, 0x01, 0x00, 0x00, 0x00, 0x01]"

definition h2_format_chunk_to :: "bytes \<Rightarrow> bytes \<Rightarrow> bytes" where
  "h2_format_chunk_to out d =
     (if d = [] then out @ h2_format_terminal_chunk
      else out @ pack_frame_header \<lparr>f_length = of_nat (length d), f_stream_id = 1, f_type = FT_DATA, f_flags = FL_NONE\<rparr> @ d)"

definition h2_format_chunk :: "bytes \<Rightarrow> bytes" where
  "h2_format_chunk d = (if d = [] then h2_format_terminal_chunk else serialize_data_frame 1 d False)"

section \<open>Helpers of the session\<close>

definition h2_encode_frame :: "u8 \<Rightarrow> u8 \<Rightarrow> u32 \<Rightarrow> bytes \<Rightarrow> bytes" where
  "h2_encode_frame type flags sid payload =
     pack_frame_header \<lparr>f_length = of_nat (length payload), f_stream_id = sid, f_type = type, f_flags = flags\<rparr> @ payload"

text \<open>The loop of \<^verbatim>\<open>encode_header_frames\<close>; a maximum of zero, which no setting gives, would not end.\<close>

function continuation_frames :: "u32 \<Rightarrow> bytes \<Rightarrow> nat \<Rightarrow> nat \<Rightarrow> bytes" where
  "continuation_frames sid block mx offset =
     (if mx \<noteq> 0 \<and> offset < length block then
        let piece = substr block offset mx;
            is_last = (offset + length piece = length block) in
        h2_encode_frame FT_CONTINUATION (if is_last then FL_END_HEADERS else FL_NONE) sid piece
        @ continuation_frames sid block mx (offset + mx)
      else [])"
  by pat_completeness auto

termination by (relation "measure (\<lambda>(sid, block, mx, offset). length block - offset)") auto

declare continuation_frames.simps [simp del]

definition encode_header_frames :: "u32 \<Rightarrow> bytes \<Rightarrow> bool \<Rightarrow> nat \<Rightarrow> bytes" where
  "encode_header_frames sid block end_stream mx =
     (let es = (if end_stream then FL_END_STREAM else FL_NONE) in
      if length block \<le> mx then h2_encode_frame FT_HEADERS (es OR FL_END_HEADERS) sid block
      else h2_encode_frame FT_HEADERS es sid (take mx block) @ continuation_frames sid block mx mx)"

definition headers_fragment :: "h2_frame_header \<Rightarrow> bytes \<Rightarrow> bytes option" where
  "headers_fragment hdr payload =
     (if has_flag FL_PADDED hdr \<and> payload = [] then None
      else let pad = (if has_flag FL_PADDED hdr then unat (payload ! 0) else 0);
               cursor = (if has_flag FL_PADDED hdr then 1 else 0) + (if has_flag FL_PRIORITY hdr then 5 else 0) in
        if length payload < cursor + pad then None
        else Some (substr payload cursor (length payload - cursor - pad)))"

definition data_payload :: "h2_frame_header \<Rightarrow> bytes \<Rightarrow> bytes option" where
  "data_payload hdr payload =
     (if \<not> has_flag FL_PADDED hdr then Some payload
      else if payload = [] then None
      else let pad = unat (payload ! 0) in
        if length payload < 1 + pad then None else Some (substr payload 1 (length payload - 1 - pad)))"

definition read_u32 :: "bytes \<Rightarrow> u32" where
  "read_u32 p =
     (if length p < 4 then 0
      else push_bit 24 (ucast (p ! 0)) OR push_bit 16 (ucast (p ! 1)) OR push_bit 8 (ucast (p ! 2)) OR ucast (p ! 3))"

definition literal_field :: "header \<Rightarrow> bytes" where
  "literal_field h = encode_integer 0 4 0x00 @ encode_string (fst h) @ encode_string (snd h)"

definition build_request_wire :: "u32 \<Rightarrow> header list \<Rightarrow> bytes \<Rightarrow> bool \<Rightarrow> bytes" where
  "build_request_wire sid hs bdy end_stream =
     (let block = concat (map literal_field hs);
          hflags = (if end_stream \<and> bdy = [] then FL_END_HEADERS OR FL_END_STREAM else FL_END_HEADERS) in
      h2_encode_frame FT_HEADERS hflags sid block @ data_frames end_stream sid bdy 0)"

definition session_preamble :: bytes where
  "session_preamble =
     serialize_settings [(MAX_CONCURRENT_STREAMS, 100), (INITIAL_WINDOW_SIZE, 2 ^ 20), (ENABLE_PUSH, 0),
       (MAX_HEADER_LIST_SIZE, of_nat kDefaultMaxHeaderListSize), (ENABLE_CONNECT_PROTOCOL, 1)]
     @ serialize_window_update 0 (16 * 2 ^ 20 - 65535)"

end
