(* ===== verification/Http2_Session.thy ===== *)
theory Http2_Session
  imports Http2_Codec
begin

unbundle bit_operations_syntax

text \<open>
  The multiplexed HTTP/2 server connection: \<^verbatim>\<open>server_session\<close> of
  \<^verbatim>\<open>src/include/wavex/protos/http/http2session.hpp\<close>.  All coroutines of a session run on one executor, so the code
  between two suspension points is atomic; each such piece is one operation here, and what happens at a suspension
  point (the result of a read or a write, a passed deadline, what the application's handler sends) is an argument.
  Timers only wake waiting coroutines, which test their condition again, so they are not part of the state; the
  coroutines that are handed to the executor are collected in \<open>n_spawned\<close>.  Stream states are held by pointers that
  the session's table and the task of the stream share; a dispatched stream stays in the table until its task is
  finished, so the table owns them here.  An operation returns \<open>None\<close> when the header decoder shifts by more than the
  width of a word, which C++ leaves undefined.
\<close>

section \<open>State\<close>

abbreviation kMaxConcurrentStreams :: nat where "kMaxConcurrentStreams \<equiv> 100"
abbreviation kInitialStreamWindow :: nat where "kInitialStreamWindow \<equiv> 1048576"
abbreviation kConnectionWindow :: nat where "kConnectionWindow \<equiv> 16777216"
abbreviation kMaxFrameSize :: nat where "kMaxFrameSize \<equiv> 16384"
abbreviation kMaxHeaderBlock :: nat where "kMaxHeaderBlock \<equiv> 262144"
abbreviation kMaxOutboxBytes :: nat where "kMaxOutboxBytes \<equiv> 1048576"
abbreviation kMaxWindow :: int where "kMaxWindow \<equiv> 0x7FFFFFFF"

record h2_stream =
  s_headers :: "header list"
  s_header_block :: bytes
  s_body :: bytes
  s_tunnel_in :: bytes
  s_send_window :: int
  s_recv_unacked :: nat
  s_id :: u32
  s_end_stream_received :: bool
  s_headers_done :: bool
  s_dispatched :: bool
  s_tunnel :: bool
  s_reset :: bool
  s_local_closed :: bool
  s_read_cancelled :: bool
  s_rejected :: bool

definition stream_new :: "u32 \<Rightarrow> int \<Rightarrow> h2_stream" where
  "stream_new sid window = \<lparr>s_headers = [], s_header_block = [], s_body = [], s_tunnel_in = [], s_send_window = window,
     s_recv_unacked = 0, s_id = sid, s_end_stream_received = False, s_headers_done = False, s_dispatched = False,
     s_tunnel = False, s_reset = False, s_local_closed = False, s_read_cancelled = False, s_rejected = False\<rparr>"

text \<open>The errors that the reader answers itself, and the coroutines that it starts.\<close>

datatype session_error = Limits_exceeded | Payload_too_large

datatype stream_task = Run_stream u32 | Run_error u32 session_error

record h2_session =
  n_streams :: "(u32 \<times> h2_stream) list"
  n_outbox :: "bytes list"
  n_rbuf :: bytes
  n_rbuf_offset :: nat
  n_decode_table :: dynamic_table
  n_outbox_bytes :: nat
  n_active_tasks :: nat
  n_conn_send_window :: int
  n_peer_initial_window :: int
  n_conn_recv_unacked :: nat
  n_peer_max_frame_size :: nat
  n_last_peer_stream_id :: u32
  n_continuation_sid :: u32
  n_writer_active :: bool
  n_dead :: bool
  n_goaway_sent :: bool
  n_goaway_received :: bool
  n_spawned :: "stream_task list"

definition session_new :: "bytes \<Rightarrow> h2_session" where
  "session_new buffered = \<lparr>n_streams = [], n_outbox = [], n_rbuf = buffered, n_rbuf_offset = 0,
     n_decode_table = dynamic_table_new 4096, n_outbox_bytes = 0, n_active_tasks = 0, n_conn_send_window = 65535,
     n_peer_initial_window = 65535, n_conn_recv_unacked = 0, n_peer_max_frame_size = 16384, n_last_peer_stream_id = 0,
     n_continuation_sid = 0, n_writer_active = False, n_dead = False, n_goaway_sent = False, n_goaway_received = False,
     n_spawned = []\<rparr>"

text \<open>The table of streams: look up, change in place, remove.\<close>

definition stream_at :: "u32 \<Rightarrow> h2_session \<Rightarrow> h2_stream option" where
  "stream_at sid c = map_of (n_streams c) sid"

definition on_stream :: "u32 \<Rightarrow> (h2_stream \<Rightarrow> h2_stream) \<Rightarrow> h2_session \<Rightarrow> h2_session" where
  "on_stream sid f c = c\<lparr>n_streams := map (\<lambda>(k, s). (k, if k = sid then f s else s)) (n_streams c)\<rparr>"

definition h2_erase_stream :: "u32 \<Rightarrow> h2_session \<Rightarrow> h2_session" where
  "h2_erase_stream sid c = c\<lparr>n_streams := filter (\<lambda>(k, s). k \<noteq> sid) (n_streams c)\<rparr>"

section \<open>Writer\<close>

definition h2_enqueue :: "bytes \<Rightarrow> h2_session \<Rightarrow> h2_session" where
  "h2_enqueue frame c =
     (if n_dead c \<or> frame = [] then c
      else c\<lparr>n_outbox_bytes := n_outbox_bytes c + length frame, n_outbox := n_outbox c @ [frame], n_writer_active := True\<rparr>)"

text \<open>The batch of one turn of \<^verbatim>\<open>write_loop\<close>.\<close>

fun batch_more :: "bytes \<Rightarrow> bytes list \<Rightarrow> bytes \<times> bytes list" where
  "batch_more batch [] = (batch, [])"
| "batch_more batch (f # fs) = (if length batch + length f \<le> 65536 then batch_more (batch @ f) fs else (batch, f # fs))"

text \<open>Up to the write; without a batch the loop has ended.\<close>

definition write_begin :: "h2_session \<Rightarrow> bytes option \<times> h2_session" where
  "write_begin c =
     (if n_outbox c \<noteq> [] \<and> \<not> n_dead c
      then case batch_more (hd (n_outbox c)) (tl (n_outbox c)) of (batch, rest) \<Rightarrow> (Some batch, c\<lparr>n_outbox := rest\<rparr>)
      else (None, c\<lparr>n_writer_active := False\<rparr>))"

definition mark_dead :: "h2_session \<Rightarrow> h2_session" where
  "mark_dead c = c\<lparr>n_dead := True\<rparr>"

text \<open>After the write of \<open>n\<close> octets: an error ends the loop, otherwise it takes its next turn.\<close>

definition write_end :: "bool \<Rightarrow> nat \<Rightarrow> h2_session \<Rightarrow> h2_session" where
  "write_end ec n c =
     (let c = c\<lparr>n_outbox_bytes := n_outbox_bytes c - min (n_outbox_bytes c) n\<rparr> in
      if ec then (mark_dead c)\<lparr>n_writer_active := False\<rparr> else c)"

section \<open>Errors and tasks\<close>

definition send_goaway :: "h2_error \<Rightarrow> h2_session \<Rightarrow> h2_session" where
  "send_goaway err c =
     (if n_goaway_sent c then c
      else h2_enqueue (serialize_goaway (n_last_peer_stream_id c) err []) (c\<lparr>n_goaway_sent := True\<rparr>))"

definition mark_dead_after_flush :: "h2_session \<Rightarrow> h2_session" where
  "mark_dead_after_flush c = c\<lparr>n_streams := map (\<lambda>(k, s). (k, s\<lparr>s_reset := True\<rparr>)) (n_streams c)\<rparr>"

definition connection_error :: "h2_error \<Rightarrow> h2_session \<Rightarrow> bool \<times> h2_session" where
  "connection_error err c = (False, mark_dead_after_flush (send_goaway err c))"

definition reset_stream :: "u32 \<Rightarrow> h2_error \<Rightarrow> h2_session \<Rightarrow> h2_session" where
  "reset_stream sid err c =
     (case stream_at sid c of
        None \<Rightarrow> c
      | Some st \<Rightarrow>
          let c = (if s_reset st then c else h2_enqueue (serialize_rst_stream sid err) c);
              c = on_stream sid (\<lambda>s. s\<lparr>s_reset := True\<rparr>) c in
          if s_dispatched st then c else h2_erase_stream sid c)"

definition dispatch :: "u32 \<Rightarrow> h2_session \<Rightarrow> h2_session" where
  "dispatch sid c =
     (on_stream sid (\<lambda>s. s\<lparr>s_dispatched := True\<rparr>) c)
       \<lparr>n_active_tasks := n_active_tasks c + 1, n_spawned := n_spawned c @ [Run_stream sid]\<rparr>"

definition answer_error :: "u32 \<Rightarrow> session_error \<Rightarrow> h2_session \<Rightarrow> h2_session" where
  "answer_error sid err c =
     (case stream_at sid c of
        None \<Rightarrow> c
      | Some st \<Rightarrow>
          if s_dispatched st then c
          else (on_stream sid (\<lambda>s. s\<lparr>s_dispatched := True, s_rejected := True\<rparr>) c)
                 \<lparr>n_active_tasks := n_active_tasks c + 1, n_spawned := n_spawned c @ [Run_error sid err]\<rparr>)"

definition finish_task :: "u32 \<Rightarrow> h2_session \<Rightarrow> h2_session" where
  "finish_task sid c =
     (case stream_at sid c of
        None \<Rightarrow> c
      | Some st \<Rightarrow>
          let c = (if \<not> s_end_stream_received st \<and> \<not> s_reset st
                   then on_stream sid (\<lambda>s. s\<lparr>s_reset := True\<rparr>) (h2_enqueue (serialize_rst_stream sid NO_ERROR) c) else c);
              c = h2_erase_stream sid c in
          c\<lparr>n_active_tasks := if n_active_tasks c > 0 then n_active_tasks c - 1 else n_active_tasks c\<rparr>)"

section \<open>Receive flow control\<close>

definition credit_connection :: "nat \<Rightarrow> h2_session \<Rightarrow> h2_session" where
  "credit_connection n c =
     (let c = c\<lparr>n_conn_recv_unacked := n_conn_recv_unacked c + n\<rparr> in
      if n_conn_recv_unacked c \<ge> kConnectionWindow div 2
      then (h2_enqueue (serialize_window_update 0 (of_nat (n_conn_recv_unacked c))) c)\<lparr>n_conn_recv_unacked := 0\<rparr>
      else c)"

text \<open>
  Credit for octets of a stream once a threshold is reached: half of the window in \<^verbatim>\<open>credit_stream\<close>, a quarter in
  \<^verbatim>\<open>tunnel_read\<close>.
\<close>

definition credit_at :: "nat \<Rightarrow> u32 \<Rightarrow> nat \<Rightarrow> h2_session \<Rightarrow> h2_session" where
  "credit_at threshold sid n c =
     (let c = on_stream sid (\<lambda>s. s\<lparr>s_recv_unacked := s_recv_unacked s + n\<rparr>) c in
      case stream_at sid c of
        None \<Rightarrow> c
      | Some st \<Rightarrow>
          if \<not> s_end_stream_received st \<and> \<not> s_reset st \<and> s_recv_unacked st \<ge> threshold
          then on_stream sid (\<lambda>s. s\<lparr>s_recv_unacked := 0\<rparr>)
                 (h2_enqueue (serialize_window_update sid (of_nat (s_recv_unacked st))) c)
          else c)"

definition credit_stream :: "u32 \<Rightarrow> nat \<Rightarrow> h2_session \<Rightarrow> h2_session" where
  "credit_stream sid n c = credit_at (kInitialStreamWindow div 2) sid n c"

section \<open>Reader\<close>

definition is_connect :: "header list \<Rightarrow> bool" where
  "is_connect hs = (case List.find (\<lambda>h. fst h = '':method'') hs of None \<Rightarrow> False | Some h \<Rightarrow> snd h = ''CONNECT'')"

text \<open>The part of \<^verbatim>\<open>finish_header_block\<close> after the decoder: \<open>ok\<close> is its result, the alternative is a list over the cap.\<close>

definition headers_decoded :: "u32 \<Rightarrow> h2_stream \<Rightarrow> bool \<Rightarrow> header list \<Rightarrow> h2_session \<Rightarrow> h2_session" where
  "headers_decoded sid st ok decoded c =
     (if s_headers_done st then
        if \<not> s_dispatched st \<and> \<not> s_rejected st then dispatch sid c else c
      else let c = on_stream sid (\<lambda>s. s\<lparr>s_headers_done := True\<rparr>) c in
        if \<not> ok then send_goaway ENHANCE_YOUR_CALM (answer_error sid Limits_exceeded c)
        else if n_goaway_sent c \<or> length (n_streams c) > kMaxConcurrentStreams then reset_stream sid REFUSED_STREAM c
        else let c = on_stream sid (\<lambda>s. s\<lparr>s_headers := decoded\<rparr>) c in
          if s_end_stream_received st \<or> is_connect decoded then dispatch sid c else c)"

definition finish_header_block :: "u32 \<Rightarrow> h2_session \<Rightarrow> (bool \<times> h2_session) option" where
  "finish_header_block sid c =
     (case stream_at sid c of
        None \<Rightarrow> None
      | Some st \<Rightarrow>
          (case decode_header_block kDefaultMaxHeaderListSize (s_header_block st) (n_decode_table c) [] of
             None \<Rightarrow> None
           | Some (status, dt, decoded) \<Rightarrow>
               let c = on_stream sid (\<lambda>s. s\<lparr>s_header_block := []\<rparr>) (c\<lparr>n_continuation_sid := 0, n_decode_table := dt\<rparr>) in
               (case status of
                  Blk_undefined \<Rightarrow> None
                | Blk_error \<Rightarrow> Some (connection_error COMPRESSION_ERROR c)
                | Blk_ok \<Rightarrow> Some (True, headers_decoded sid st True decoded c)
                | Blk_limit \<Rightarrow> Some (True, headers_decoded sid st False decoded c))))"

text \<open>The stream of a HEADERS frame: one that is known and now gets its trailers, or a new one.\<close>

definition headers_stream :: "h2_frame_header \<Rightarrow> h2_session \<Rightarrow> h2_error + h2_session" where
  "headers_stream hdr c =
     (let sid = f_stream_id hdr in
      case stream_at sid c of
        Some st \<Rightarrow>
          if \<not> s_headers_done st \<or> s_end_stream_received st \<or> \<not> has_flag FL_END_STREAM hdr then Inl PROTOCOL_ERROR
          else Inr (on_stream sid (\<lambda>s. s\<lparr>s_header_block := []\<rparr>) c)
      | None \<Rightarrow>
          if sid \<le> n_last_peer_stream_id c then Inl STREAM_CLOSED
          else Inr (c\<lparr>n_last_peer_stream_id := sid, n_streams := n_streams c @ [(sid, stream_new sid (n_peer_initial_window c))]\<rparr>))"

definition on_headers :: "h2_frame_header \<Rightarrow> bytes \<Rightarrow> h2_session \<Rightarrow> (bool \<times> h2_session) option" where
  "on_headers hdr payload c =
     (let sid = f_stream_id hdr in
      if sid = 0 \<or> sid AND 1 = 0 then Some (connection_error PROTOCOL_ERROR c)
      else case headers_fragment hdr payload of
        None \<Rightarrow> Some (connection_error PROTOCOL_ERROR c)
      | Some fragment \<Rightarrow>
          (case headers_stream hdr c of
             Inl err \<Rightarrow> Some (connection_error err c)
           | Inr c \<Rightarrow>
               let c = on_stream sid (\<lambda>s. s\<lparr>s_header_block := s_header_block s @ fragment,
                     s_end_stream_received := (if has_flag FL_END_STREAM hdr then True else s_end_stream_received s)\<rparr>) c in
               if \<not> has_flag FL_END_HEADERS hdr then Some (True, c\<lparr>n_continuation_sid := sid\<rparr>)
               else finish_header_block sid c))"

definition on_continuation :: "h2_frame_header \<Rightarrow> bytes \<Rightarrow> h2_session \<Rightarrow> (bool \<times> h2_session) option" where
  "on_continuation hdr payload c =
     (let sid = f_stream_id hdr in
      if n_continuation_sid c = 0 \<or> sid \<noteq> n_continuation_sid c then Some (connection_error PROTOCOL_ERROR c)
      else case stream_at sid c of
        None \<Rightarrow> Some (connection_error PROTOCOL_ERROR c)
      | Some st \<Rightarrow>
          let c = on_stream sid (\<lambda>s. s\<lparr>s_header_block := s_header_block s @ payload\<rparr>) c in
          if length (s_header_block st @ payload) > kMaxHeaderBlock then Some (connection_error ENHANCE_YOUR_CALM c)
          else if \<not> has_flag FL_END_HEADERS hdr then Some (True, c)
          else finish_header_block sid (c\<lparr>n_continuation_sid := 0\<rparr>))"

text \<open>The data of a stream whose body is collected, or whose task reads it as a tunnel; \<open>False\<close>: the frame is done.\<close>

definition take_data :: "nat \<Rightarrow> u32 \<Rightarrow> nat \<Rightarrow> bytes \<Rightarrow> h2_stream \<Rightarrow> h2_session \<Rightarrow> bool \<times> h2_session" where
  "take_data cap sid frame_len d st c =
     (if s_tunnel st \<or> s_dispatched st \<and> \<not> s_end_stream_received st then
        let c = on_stream sid (\<lambda>s. s\<lparr>s_tunnel_in := s_tunnel_in s @ d\<rparr>) c in
        if length (s_tunnel_in st @ d) > kInitialStreamWindow then (False, reset_stream sid FLOW_CONTROL_ERROR c)
        else (True, on_stream sid (\<lambda>s. s\<lparr>s_recv_unacked := s_recv_unacked s + (frame_len - length d)\<rparr>) c)
      else
        let c = credit_stream sid frame_len (on_stream sid (\<lambda>s. s\<lparr>s_body := s_body s @ d\<rparr>) c) in
        if cap > 0 \<and> length (s_body st @ d) > cap
        then (False, answer_error sid Payload_too_large (on_stream sid (\<lambda>s. s\<lparr>s_rejected := True\<rparr>) c))
        else (True, c))"

definition on_data :: "nat \<Rightarrow> h2_frame_header \<Rightarrow> bytes \<Rightarrow> h2_session \<Rightarrow> bool \<times> h2_session" where
  "on_data cap hdr payload c =
     (let sid = f_stream_id hdr in
      if sid = 0 then connection_error PROTOCOL_ERROR c
      else case data_payload hdr payload of
        None \<Rightarrow> connection_error PROTOCOL_ERROR c
      | Some d \<Rightarrow>
          let c = credit_connection (unat (f_length hdr)) c in
          (case stream_at sid c of
             None \<Rightarrow> if sid > n_last_peer_stream_id c then connection_error PROTOCOL_ERROR c else (True, c)
           | Some st \<Rightarrow>
               if \<not> s_headers_done st \<or> s_end_stream_received st then connection_error STREAM_CLOSED c
               else if s_reset st \<or> s_rejected st then (True, c)
               else case take_data cap sid (unat (f_length hdr)) d st c of
                 (False, c) \<Rightarrow> (True, c)
               | (True, c) \<Rightarrow>
                   if has_flag FL_END_STREAM hdr then
                     let c = on_stream sid (\<lambda>s. s\<lparr>s_end_stream_received := True\<rparr>) c in
                     (True, if s_dispatched st then c else dispatch sid c)
                   else (True, c)))"

definition apply_initial_window :: "int \<Rightarrow> h2_session \<Rightarrow> h2_session" where
  "apply_initial_window v c =
     (let delta = v - n_peer_initial_window c in
      c\<lparr>n_peer_initial_window := v,
        n_streams := map (\<lambda>(k, s). (k, s\<lparr>s_send_window := s_send_window s + delta\<rparr>)) (n_streams c)\<rparr>)"

text \<open>One parameter of a SETTINGS frame; an error is the code to close with.\<close>

definition apply_setting :: "u16 \<Rightarrow> nat \<Rightarrow> h2_session \<Rightarrow> h2_error + h2_session" where
  "apply_setting i v c =
     (if i = settings_id INITIAL_WINDOW_SIZE then
        if int v > kMaxWindow then Inl FLOW_CONTROL_ERROR else Inr (apply_initial_window (int v) c)
      else if i = settings_id MAX_FRAME_SIZE then
        if v < 16384 \<or> v > 16777215 then Inl PROTOCOL_ERROR else Inr (c\<lparr>n_peer_max_frame_size := v\<rparr>)
      else if i = settings_id ENABLE_PUSH then
        if v > 1 then Inl PROTOCOL_ERROR else Inr c
      else Inr c)"

fun settings_loop :: "bytes \<Rightarrow> h2_session \<Rightarrow> bool \<times> h2_session" where
  "settings_loop (a # b # p # q # r # t # rest) c =
     (case apply_setting (push_bit 8 (ucast a) OR ucast b) (unat (read_u32 [p, q, r, t])) c of
        Inl err \<Rightarrow> connection_error err c
      | Inr c \<Rightarrow> settings_loop rest c)"
| "settings_loop _ c = (True, c)"

definition on_settings :: "h2_frame_header \<Rightarrow> bytes \<Rightarrow> h2_session \<Rightarrow> bool \<times> h2_session" where
  "on_settings hdr payload c =
     (if f_stream_id hdr \<noteq> 0 then connection_error PROTOCOL_ERROR c
      else if has_flag FL_ACK hdr then (if payload = [] then (True, c) else connection_error FRAME_SIZE_ERROR c)
      else if length payload mod 6 \<noteq> 0 then connection_error FRAME_SIZE_ERROR c
      else case settings_loop payload c of
             (False, c) \<Rightarrow> (False, c)
           | (True, c) \<Rightarrow> (True, h2_enqueue serialize_settings_ack c))"

definition on_window_update :: "h2_frame_header \<Rightarrow> bytes \<Rightarrow> h2_session \<Rightarrow> bool \<times> h2_session" where
  "on_window_update hdr payload c =
     (if length payload \<noteq> 4 then connection_error FRAME_SIZE_ERROR c
      else let inc = unat (read_u32 payload AND 0x7FFFFFFF); sid = f_stream_id hdr in
        if sid = 0 then
          if inc = 0 then connection_error PROTOCOL_ERROR c
          else let c = c\<lparr>n_conn_send_window := n_conn_send_window c + int inc\<rparr> in
            if n_conn_send_window c > kMaxWindow then connection_error FLOW_CONTROL_ERROR c else (True, c)
        else case stream_at sid c of
               None \<Rightarrow> (True, c)
             | Some st \<Rightarrow>
                 if inc = 0 then (True, reset_stream sid PROTOCOL_ERROR c)
                 else let c = on_stream sid (\<lambda>s. s\<lparr>s_send_window := s_send_window s + int inc\<rparr>) c in
                   if s_send_window st + int inc > kMaxWindow then (True, reset_stream sid FLOW_CONTROL_ERROR c) else (True, c))"

definition on_rst_stream :: "h2_frame_header \<Rightarrow> bytes \<Rightarrow> h2_session \<Rightarrow> bool \<times> h2_session" where
  "on_rst_stream hdr payload c =
     (let sid = f_stream_id hdr in
      if sid = 0 then connection_error PROTOCOL_ERROR c
      else if length payload \<noteq> 4 then connection_error FRAME_SIZE_ERROR c
      else case stream_at sid c of
             None \<Rightarrow> (True, c)
           | Some st \<Rightarrow>
               let c = on_stream sid (\<lambda>s. s\<lparr>s_reset := True\<rparr>) c in
               (True, if s_dispatched st then c else h2_erase_stream sid c))"

definition on_ping :: "h2_frame_header \<Rightarrow> bytes \<Rightarrow> h2_session \<Rightarrow> bool \<times> h2_session" where
  "on_ping hdr payload c =
     (if f_stream_id hdr \<noteq> 0 then connection_error PROTOCOL_ERROR c
      else if length payload \<noteq> 8 then connection_error FRAME_SIZE_ERROR c
      else (True, if has_flag FL_ACK hdr then c else h2_enqueue (h2_encode_frame FT_PING FL_ACK 0 payload) c))"

text \<open>\<open>cap\<close> is the application's limit on request bodies, \<^verbatim>\<open>max_request_size()\<close>; 0 is no limit.\<close>

definition handle_frame :: "nat \<Rightarrow> h2_frame_header \<Rightarrow> bytes \<Rightarrow> h2_session \<Rightarrow> (bool \<times> h2_session) option" where
  "handle_frame cap hdr payload c =
     (if n_continuation_sid c \<noteq> 0 \<and> (f_type hdr \<noteq> FT_CONTINUATION \<or> f_stream_id hdr \<noteq> n_continuation_sid c)
      then Some (connection_error PROTOCOL_ERROR c)
      else if f_type hdr = FT_HEADERS then on_headers hdr payload c
      else if f_type hdr = FT_CONTINUATION then on_continuation hdr payload c
      else if f_type hdr = FT_DATA then Some (on_data cap hdr payload c)
      else if f_type hdr = FT_SETTINGS then Some (on_settings hdr payload c)
      else if f_type hdr = FT_WINDOW_UPDATE then Some (on_window_update hdr payload c)
      else if f_type hdr = FT_PING then Some (on_ping hdr payload c)
      else if f_type hdr = FT_RST_STREAM then Some (on_rst_stream hdr payload c)
      else if f_type hdr = FT_GOAWAY then Some (True, c\<lparr>n_goaway_received := True\<rparr>)
      else if f_type hdr = FT_PUSH_PROMISE then Some (connection_error PROTOCOL_ERROR c)
      else Some (True, c))"


text \<open>What the handlers leave alone: the read buffer.\<close>

lemma rbuf_simps [simp]:
  "n_rbuf (on_stream sid f c) = n_rbuf c" "n_rbuf_offset (on_stream sid f c) = n_rbuf_offset c"
  "n_rbuf (h2_erase_stream sid c) = n_rbuf c" "n_rbuf_offset (h2_erase_stream sid c) = n_rbuf_offset c"
  "n_rbuf (h2_enqueue fr c) = n_rbuf c" "n_rbuf_offset (h2_enqueue fr c) = n_rbuf_offset c"
  "n_rbuf (send_goaway e c) = n_rbuf c" "n_rbuf_offset (send_goaway e c) = n_rbuf_offset c"
  "n_rbuf (mark_dead_after_flush c) = n_rbuf c" "n_rbuf_offset (mark_dead_after_flush c) = n_rbuf_offset c"
  "n_rbuf (reset_stream sid e c) = n_rbuf c" "n_rbuf_offset (reset_stream sid e c) = n_rbuf_offset c"
  "n_rbuf (dispatch sid c) = n_rbuf c" "n_rbuf_offset (dispatch sid c) = n_rbuf_offset c"
  "n_rbuf (answer_error sid x c) = n_rbuf c" "n_rbuf_offset (answer_error sid x c) = n_rbuf_offset c"
  "n_rbuf (credit_connection n c) = n_rbuf c" "n_rbuf_offset (credit_connection n c) = n_rbuf_offset c"
  "n_rbuf (credit_at t sid n c) = n_rbuf c" "n_rbuf_offset (credit_at t sid n c) = n_rbuf_offset c"
  "n_rbuf (credit_stream sid n c) = n_rbuf c" "n_rbuf_offset (credit_stream sid n c) = n_rbuf_offset c"
  "n_rbuf (apply_initial_window v c) = n_rbuf c" "n_rbuf_offset (apply_initial_window v c) = n_rbuf_offset c"
  by (simp_all add: on_stream_def h2_erase_stream_def h2_enqueue_def send_goaway_def mark_dead_after_flush_def reset_stream_def
      dispatch_def answer_error_def credit_connection_def credit_at_def credit_stream_def apply_initial_window_def Let_def
      split: option.split)

definition same_rbuf :: "h2_session \<Rightarrow> h2_session \<Rightarrow> bool" where
  "same_rbuf c c' \<longleftrightarrow> n_rbuf c' = n_rbuf c \<and> n_rbuf_offset c' = n_rbuf_offset c"

lemma connection_error_rbuf: "same_rbuf c c0 \<Longrightarrow> same_rbuf c (snd (connection_error e c0))"
  by (simp add: connection_error_def same_rbuf_def)

lemma headers_decoded_rbuf: "same_rbuf c c0 \<Longrightarrow> same_rbuf c (headers_decoded sid st ok decoded c0)"
  by (simp add: headers_decoded_def same_rbuf_def Let_def)

lemma finish_header_block_rbuf: "finish_header_block sid c0 = Some (b, c') \<Longrightarrow> same_rbuf c c0 \<Longrightarrow> same_rbuf c c'"
  using connection_error_rbuf [of c] headers_decoded_rbuf [of c]
  by (auto simp: finish_header_block_def Let_def same_rbuf_def connection_error_def split: option.splits block_status.splits)

lemma headers_stream_rbuf: "headers_stream hdr c = Inr c' \<Longrightarrow> same_rbuf c c'"
  by (auto simp: headers_stream_def same_rbuf_def Let_def split: option.splits if_splits)

lemma on_headers_rbuf: "on_headers hdr payload c = Some (b, c') \<Longrightarrow> same_rbuf c c'"
  unfolding on_headers_def
  by (auto simp: Let_def connection_error_def same_rbuf_def split: if_splits option.splits sum.splits
      dest!: headers_stream_rbuf dest: finish_header_block_rbuf [of _ _ _ _ c, unfolded same_rbuf_def])

lemma on_continuation_rbuf: "on_continuation hdr payload c = Some (b, c') \<Longrightarrow> same_rbuf c c'"
  unfolding on_continuation_def
  by (auto simp: Let_def connection_error_def same_rbuf_def split: if_splits option.splits
      dest: finish_header_block_rbuf [of _ _ _ _ c, unfolded same_rbuf_def])

lemma take_data_rbuf: "take_data cap sid n d st c0 = (b, c') \<Longrightarrow> n_rbuf c' = n_rbuf c0 \<and> n_rbuf_offset c' = n_rbuf_offset c0"
  by (auto simp: take_data_def Let_def split: if_splits)

lemma on_data_rbuf: "same_rbuf c (snd (on_data cap hdr payload c))"
  by (auto simp: on_data_def Let_def connection_error_def same_rbuf_def split: option.splits prod.splits bool.splits dest: take_data_rbuf)

lemma settings_loop_rbuf: "same_rbuf c c0 \<Longrightarrow> same_rbuf c (snd (settings_loop payload c0))"
proof (induction payload c0 rule: settings_loop.induct)
  case (1 a b p q r t rest c0)
  show ?case
  proof (cases "apply_setting (push_bit 8 (ucast a) OR ucast b) (unat (read_u32 [p, q, r, t])) c0")
    case (Inl e)
    then show ?thesis using connection_error_rbuf [OF "1.prems"] by simp
  next
    case (Inr c1)
    then have "same_rbuf c c1"
      using "1.prems" by (auto simp: apply_setting_def same_rbuf_def split: if_splits)
    then show ?thesis using "1.IH" Inr by simp
  qed
qed (simp_all add: same_rbuf_def)

lemma on_settings_rbuf: "same_rbuf c (snd (on_settings hdr payload c))"
  using settings_loop_rbuf [of c c payload]
  by (auto simp: on_settings_def connection_error_def same_rbuf_def split: prod.splits bool.splits)

lemma on_window_update_rbuf: "same_rbuf c (snd (on_window_update hdr payload c))"
  by (auto simp: on_window_update_def connection_error_def same_rbuf_def Let_def split: option.splits)

lemma handle_frame_rbuf: "handle_frame cap hdr payload c = Some (b, c') \<Longrightarrow> same_rbuf c c'"
  using on_headers_rbuf [of hdr payload c b c'] on_continuation_rbuf [of hdr payload c b c'] on_data_rbuf [of c cap hdr payload]
    on_settings_rbuf [of c hdr payload] on_window_update_rbuf [of c hdr payload] connection_error_rbuf [of c c PROTOCOL_ERROR]
  by (auto simp: handle_frame_def on_ping_def on_rst_stream_def connection_error_def Let_def same_rbuf_def split: if_splits option.splits)

function h2_process_frames :: "nat \<Rightarrow> h2_session \<Rightarrow> (bool \<times> h2_session) option" where
  "h2_process_frames cap c =
     (if n_dead c then Some (True, c)
      else let avail = drop (n_rbuf_offset c) (n_rbuf c) in
        case unpack_frame_header avail of
          None \<Rightarrow> Some (True, c)
        | Some hdr \<Rightarrow>
            if unat (f_length hdr) > kMaxFrameSize then Some (connection_error FRAME_SIZE_ERROR c)
            else if length avail < 9 + unat (f_length hdr) then Some (True, c)
            else (case handle_frame cap hdr (substr avail 9 (unat (f_length hdr))) c of
                    None \<Rightarrow> None
                  | Some (ok, c) \<Rightarrow>
                      let c = c\<lparr>n_rbuf_offset := n_rbuf_offset c + 9 + unat (f_length hdr)\<rparr> in
                      if \<not> ok then Some (False, c) else h2_process_frames cap c))"
  by pat_completeness auto

termination
  by (relation "measure (\<lambda>(cap, c). length (n_rbuf c) - n_rbuf_offset c)")
    (auto simp: same_rbuf_def dest!: handle_frame_rbuf)

declare h2_process_frames.simps [simp del]

text \<open>The results of a read: the data, an error, the idle timeout, or the read of an idle session cancelled by shutdown.\<close>

datatype read_event = Read_data bytes | Read_error | Read_timed_out | Read_aborted

definition read_begin :: "h2_session \<Rightarrow> h2_session" where
  "read_begin c = c\<lparr>n_rbuf := drop (n_rbuf_offset c) (n_rbuf c), n_rbuf_offset := 0\<rparr>"

definition read_end :: "bool \<Rightarrow> read_event \<Rightarrow> h2_session \<Rightarrow> bool \<times> h2_session" where
  "read_end accepting ev c =
     (case ev of
        Read_timed_out \<Rightarrow> (False, send_goaway NO_ERROR c)
      | Read_aborted \<Rightarrow>
          if \<not> accepting then let c = send_goaway NO_ERROR c in (n_streams c \<noteq> [], c) else (False, mark_dead c)
      | Read_error \<Rightarrow> (False, mark_dead c)
      | Read_data d \<Rightarrow> if d = [] then (False, mark_dead c) else (True, c\<lparr>n_rbuf := n_rbuf c @ d\<rparr>))"

text \<open>The turn of \<^verbatim>\<open>run\<close> between processing and reading; \<open>False\<close> leaves the loop.\<close>

definition run_turn :: "bool \<Rightarrow> h2_session \<Rightarrow> bool \<times> h2_session" where
  "run_turn accepting c =
     (if n_dead c then (False, c)
      else let c = (if \<not> accepting \<and> \<not> n_goaway_sent c then send_goaway NO_ERROR c else c) in
        (\<not> ((n_goaway_sent c \<or> n_goaway_received c) \<and> n_streams c = []), c))"

section \<open>Stream tasks\<close>

text \<open>\<^verbatim>\<open>send_frames\<close>: at the head of its loop, before the wait for room in the outbox, at a turn of the loop over DATA.\<close>

datatype send_phase = At_head | Want_room h2_frame_header bytes | In_data h2_frame_header bytes nat

datatype send_result = Send_ok | Send_reset | Send_timed_out

record send_task =
  t_sid :: u32
  t_bytes :: bytes
  t_cursor :: nat
  t_phase :: send_phase

datatype send_step = Goes_on send_task | Waits | Ends send_result

definition send_frames :: "u32 \<Rightarrow> bytes \<Rightarrow> send_task" where
  "send_frames sid bs = \<lparr>t_sid = sid, t_bytes = bs, t_cursor = 0, t_phase = At_head\<rparr>"

definition send_failed :: "u32 \<Rightarrow> h2_session \<Rightarrow> bool" where
  "send_failed sid c \<longleftrightarrow> n_dead c \<or> (case stream_at sid c of None \<Rightarrow> True | Some st \<Rightarrow> s_reset st)"

definition send_head :: "send_task \<Rightarrow> h2_session \<Rightarrow> send_step" where
  "send_head t c =
     (if \<not> t_cursor t + 9 \<le> length (t_bytes t) then Ends Send_ok
      else case unpack_frame_header (drop (t_cursor t) (t_bytes t)) of
        None \<Rightarrow> Ends Send_ok
      | Some hdr \<Rightarrow>
          let total = 9 + unat (f_length hdr) in
          if t_cursor t + total > length (t_bytes t) then Ends Send_ok
          else if send_failed (t_sid t) c then Ends Send_reset
          else Goes_on (t\<lparr>t_cursor := t_cursor t + total,
                 t_phase := Want_room hdr (substr (t_bytes t) (t_cursor t + 9) (unat (f_length hdr)))\<rparr>))"

definition close_local :: "u32 \<Rightarrow> h2_frame_header \<Rightarrow> h2_session \<Rightarrow> h2_session" where
  "close_local sid hdr c = (if has_flag FL_END_STREAM hdr then on_stream sid (\<lambda>s. s\<lparr>s_local_closed := True\<rparr>) c else c)"

definition send_room :: "bool \<Rightarrow> h2_frame_header \<Rightarrow> bytes \<Rightarrow> send_task \<Rightarrow> h2_session \<Rightarrow> send_step \<times> h2_session" where
  "send_room expired hdr payload t c =
     (let sid = t_sid t in
      if \<not> (send_failed sid c \<or> n_outbox_bytes c < kMaxOutboxBytes) then
        (if n_dead c \<or> expired then Ends Send_timed_out else Waits, c)
      else if send_failed sid c then (Ends Send_reset, c)
      else if f_type hdr = FT_DATA then (Goes_on (t\<lparr>t_phase := In_data hdr payload 0\<rparr>), c)
      else if f_type hdr = FT_HEADERS then
        (Goes_on (t\<lparr>t_phase := At_head\<rparr>),
         close_local sid hdr (h2_enqueue (encode_header_frames sid payload (has_flag FL_END_STREAM hdr) (n_peer_max_frame_size c)) c))
      else (Goes_on (t\<lparr>t_phase := At_head\<rparr>), close_local sid hdr (h2_enqueue (h2_encode_frame (f_type hdr) (f_flags hdr) sid payload) c)))"

text \<open>A negative window, which only an empty frame meets, becomes a huge unsigned value.\<close>

definition send_data :: "bool \<Rightarrow> h2_frame_header \<Rightarrow> bytes \<Rightarrow> nat \<Rightarrow> send_task \<Rightarrow> h2_session \<Rightarrow> send_step \<times> h2_session" where
  "send_data expired hdr payload offset t c =
     (let sid = t_sid t; left = length payload - offset;
          sw = (case stream_at sid c of None \<Rightarrow> 0 | Some st \<Rightarrow> s_send_window st); cw = n_conn_send_window c in
      if left > 0 \<and> \<not> (send_failed sid c \<or> sw > 0 \<and> cw > 0) then
        (if n_dead c \<or> expired then Ends Send_timed_out else Waits, c)
      else if send_failed sid c then (Ends Send_reset, c)
      else let window = nat (min sw cw mod 2 ^ 64);
               n = min left (min window (n_peer_max_frame_size c));
               is_last = (offset + n = length payload);
               c = h2_enqueue (h2_encode_frame FT_DATA (if is_last \<and> has_flag FL_END_STREAM hdr then FL_END_STREAM else FL_NONE)
                     sid (substr payload offset n)) c;
               c = (on_stream sid (\<lambda>s. s\<lparr>s_send_window := s_send_window s - int n\<rparr>) c)\<lparr>n_conn_send_window := cw - int n\<rparr> in
        if offset + n < length payload then (Goes_on (t\<lparr>t_phase := In_data hdr payload (offset + n)\<rparr>), c)
        else (Goes_on (t\<lparr>t_phase := At_head\<rparr>), close_local sid hdr c))"

definition send_turn :: "bool \<Rightarrow> send_task \<Rightarrow> h2_session \<Rightarrow> send_step \<times> h2_session" where
  "send_turn expired t c =
     (case t_phase t of
        At_head \<Rightarrow> (send_head t c, c)
      | Want_room hdr payload \<Rightarrow> send_room expired hdr payload t c
      | In_data hdr payload offset \<Rightarrow> send_data expired hdr payload offset t c)"

text \<open>
  The start of \<^verbatim>\<open>serve_stream\<close>: the request is rebuilt from the stream's headers and body, and parsed.  The loop over
  the headers has no break, so the last \<open>:method\<close> decides.
\<close>

definition last_connect :: "header list \<Rightarrow> bool" where
  "last_connect hs = fold (\<lambda>h b. if fst h = '':method'' then snd h = ''CONNECT'' else b) hs False"

definition serve_begin :: "u32 \<Rightarrow> h2_session \<Rightarrow> ((h2_result \<times> h2_request) option \<times> h2_session)" where
  "serve_begin sid c =
     (case stream_at sid c of
        None \<Rightarrow> (None, c)
      | Some st \<Rightarrow>
          let wire = build_request_wire sid (s_headers st) (s_body st) (\<not> last_connect (s_headers st) \<or> s_end_stream_received st) in
          (map_option (\<lambda>(r, req, _, _). (r, req)) (h2_parse_request wire h2_request_new (dynamic_table_new 4096)),
           on_stream sid (\<lambda>s. s\<lparr>s_body := []\<rparr>) c))"

text \<open>The octets of \<^verbatim>\<open>send_response\<close>: a tunnel keeps its stream open.\<close>

definition response_octets :: "bool \<Rightarrow> bytes \<Rightarrow> bytes" where
  "response_octets keep_open bs = (if keep_open \<and> length bs > 9 then bs[4 := bs ! 4 AND NOT FL_END_STREAM] else bs)"

definition tunnel_begin :: "u32 \<Rightarrow> h2_session \<Rightarrow> h2_session" where
  "tunnel_begin sid c = on_stream sid (\<lambda>s. s\<lparr>s_tunnel := True\<rparr>) c"

text \<open>An empty DATA frame that ends the stream, after a tunnel or a streamed response that did not.\<close>

definition end_local :: "u32 \<Rightarrow> h2_session \<Rightarrow> h2_session" where
  "end_local sid c =
     (case stream_at sid c of
        None \<Rightarrow> c
      | Some st \<Rightarrow>
          if \<not> s_local_closed st \<and> \<not> s_reset st \<and> \<not> n_dead c
          then on_stream sid (\<lambda>s. s\<lparr>s_local_closed := True\<rparr>) (h2_enqueue (serialize_data_frame sid [] True) c) else c)"

datatype tunnel_event = Tun_data bytes | Tun_aborted | Tun_eof | Tun_reset | Tun_wait

definition tunnel_read :: "u32 \<Rightarrow> nat \<Rightarrow> h2_session \<Rightarrow> tunnel_event \<times> h2_session" where
  "tunnel_read sid room c =
     (case stream_at sid c of
        None \<Rightarrow> (Tun_reset, c)
      | Some st \<Rightarrow>
          if s_tunnel_in st \<noteq> [] then
            let n = min room (length (s_tunnel_in st)) in
            (Tun_data (take n (s_tunnel_in st)),
             credit_at (kInitialStreamWindow div 4) sid n (on_stream sid (\<lambda>s. s\<lparr>s_tunnel_in := drop n (s_tunnel_in s)\<rparr>) c))
          else if s_read_cancelled st then (Tun_aborted, on_stream sid (\<lambda>s. s\<lparr>s_read_cancelled := False\<rparr>) c)
          else if s_end_stream_received st then (Tun_eof, c)
          else if s_reset st \<or> n_dead c then (Tun_reset, c)
          else (Tun_wait, c))"

text \<open>The send task of a write to the tunnel, or \<open>None\<close> after the local end was closed.\<close>

definition tunnel_write :: "u32 \<Rightarrow> bytes \<Rightarrow> h2_session \<Rightarrow> send_task option" where
  "tunnel_write sid d c =
     (case stream_at sid c of
        None \<Rightarrow> None
      | Some st \<Rightarrow> if s_local_closed st then None else Some (send_frames sid (serialize_data_frame sid d False)))"

definition tunnel_shutdown_send :: "u32 \<Rightarrow> h2_session \<Rightarrow> h2_session" where
  "tunnel_shutdown_send sid c =
     (case stream_at sid c of
        None \<Rightarrow> c
      | Some st \<Rightarrow>
          if \<not> s_local_closed st \<and> \<not> s_reset st
          then on_stream sid (\<lambda>s. s\<lparr>s_local_closed := True\<rparr>) (h2_enqueue (serialize_data_frame sid [] True) c) else c)"

definition tunnel_cancel :: "u32 \<Rightarrow> h2_session \<Rightarrow> h2_session" where
  "tunnel_cancel sid c = on_stream sid (\<lambda>s. s\<lparr>s_read_cancelled := True\<rparr>) c"

definition tunnel_close :: "u32 \<Rightarrow> h2_session \<Rightarrow> h2_session" where
  "tunnel_close sid c =
     (case stream_at sid c of
        None \<Rightarrow> c
      | Some st \<Rightarrow>
          if s_reset st then c
          else on_stream sid (\<lambda>s. s\<lparr>s_reset := True\<rparr>) (h2_enqueue (serialize_rst_stream sid CANCEL) c))"

section \<open>Start and shutdown\<close>

definition session_start :: "bytes \<Rightarrow> h2_session" where
  "session_start buffered = h2_enqueue session_preamble (session_new buffered)"

definition shutdown_begin :: "h2_session \<Rightarrow> h2_session" where
  "shutdown_begin c = (if n_dead c then c else mark_dead_after_flush c)"

text \<open>After the writer is done or two seconds have passed, and once the last task has ended.\<close>

definition shutdown_drained :: "h2_session \<Rightarrow> h2_session" where
  "shutdown_drained c = mark_dead c"

definition shutdown_end :: "h2_session \<Rightarrow> h2_session option" where
  "shutdown_end c = (if n_active_tasks c \<noteq> 0 then None else Some (c\<lparr>n_streams := []\<rparr>))"

end
