(* ===== verification/Http2_Session_Inv.thy ===== *)
theory Http2_Session_Inv
  imports Http2_Session
begin

unbundle bit_operations_syntax

text \<open>
  The table of streams and the tasks of an HTTP/2 session: views of the operations, the cases of its handlers and
  the invariant that ties the table, the counter of running tasks and the coroutines that were started.
\<close>

section \<open>Views\<close>

lemma map_of_on_stream: "map_of (map (\<lambda>(k, s). (k, if k = sid then f s else s)) xs) k
    = (if k = sid then map_option f (map_of xs k) else map_of xs k)"
  by (induction xs) auto

lemma map_of_all: "map_of (map (\<lambda>(k, s). (k, g s)) xs) k = map_option g (map_of xs k)"
  by (induction xs) auto

lemma map_of_erase: "map_of (filter (\<lambda>(k, s). k \<noteq> sid) xs) k = (if k = sid then None else map_of xs k)"
  by (induction xs) auto

lemma stream_at_simps [simp]:
  "stream_at k (on_stream sid f c) = (if k = sid then map_option f (stream_at k c) else stream_at k c)"
  "stream_at k (h2_erase_stream sid c) = (if k = sid then None else stream_at k c)"
  "stream_at k (h2_enqueue fr c) = stream_at k c"
  "stream_at k (send_goaway e c) = stream_at k c"
  "stream_at k (mark_dead_after_flush c) = map_option (\<lambda>s. s\<lparr>s_reset := True\<rparr>) (stream_at k c)"
  "stream_at k (mark_dead c) = stream_at k c"
  "stream_at k (credit_connection n c) = stream_at k c"
  "stream_at k (dispatch sid c) = (if k = sid then map_option (\<lambda>s. s\<lparr>s_dispatched := True\<rparr>) (stream_at k c) else stream_at k c)"
  "stream_at k (apply_initial_window v c) = map_option (\<lambda>s. s\<lparr>s_send_window := s_send_window s + (v - n_peer_initial_window c)\<rparr>) (stream_at k c)"
  by (simp_all add: stream_at_def on_stream_def h2_erase_stream_def h2_enqueue_def send_goaway_def mark_dead_after_flush_def mark_dead_def
      credit_connection_def dispatch_def apply_initial_window_def map_of_on_stream map_of_erase map_of_all Let_def)

lemma stream_at_upd [simp]:
  "stream_at k (c\<lparr>n_rbuf := a\<rparr>) = stream_at k c" "stream_at k (c\<lparr>n_rbuf_offset := b\<rparr>) = stream_at k c"
  "stream_at k (c\<lparr>n_decode_table := d\<rparr>) = stream_at k c" "stream_at k (c\<lparr>n_outbox_bytes := b\<rparr>) = stream_at k c"
  "stream_at k (c\<lparr>n_outbox := e\<rparr>) = stream_at k c" "stream_at k (c\<lparr>n_active_tasks := b\<rparr>) = stream_at k c"
  "stream_at k (c\<lparr>n_conn_send_window := i\<rparr>) = stream_at k c" "stream_at k (c\<lparr>n_conn_recv_unacked := b\<rparr>) = stream_at k c"
  "stream_at k (c\<lparr>n_peer_max_frame_size := b\<rparr>) = stream_at k c" "stream_at k (c\<lparr>n_continuation_sid := u\<rparr>) = stream_at k c"
  "stream_at k (c\<lparr>n_writer_active := v\<rparr>) = stream_at k c" "stream_at k (c\<lparr>n_goaway_sent := v\<rparr>) = stream_at k c"
  "stream_at k (c\<lparr>n_goaway_received := v\<rparr>) = stream_at k c" "stream_at k (c\<lparr>n_spawned := w\<rparr>) = stream_at k c"
  "stream_at k (c\<lparr>n_last_peer_stream_id := u\<rparr>) = stream_at k c" "stream_at k (c\<lparr>n_dead := v\<rparr>) = stream_at k c"
  "stream_at k (c\<lparr>n_peer_initial_window := i\<rparr>) = stream_at k c"
  by (simp_all add: stream_at_def)

section \<open>Tasks\<close>

fun task_sid :: "stream_task \<Rightarrow> u32" where
  "task_sid (Run_stream sid) = sid"
| "task_sid (Run_error sid e) = sid"

definition running :: "h2_session \<Rightarrow> u32 list" where
  "running c = map fst (filter (\<lambda>(k, s). s_dispatched s) (n_streams c))"

text \<open>
  Identifiers are distinct, odd and not above the last one seen; the counter counts the dispatched streams of the table;
  each stream was started at most once, after its headers were complete, and the dispatched streams are the started ones.
\<close>

definition tasks_inv :: "h2_session \<Rightarrow> bool" where
  "tasks_inv c \<longleftrightarrow> distinct (map fst (n_streams c)) \<and>
     (\<forall>k \<in> fst ` set (n_streams c). k AND 1 \<noteq> 0 \<and> k \<le> n_last_peer_stream_id c) \<and>
     n_active_tasks c = length (running c) \<and>
     distinct (map task_sid (n_spawned c)) \<and>
     (\<forall>k \<in> task_sid ` set (n_spawned c). k \<le> n_last_peer_stream_id c) \<and>
     (\<forall>(k, s) \<in> set (n_streams c). (s_dispatched s \<longleftrightarrow> k \<in> task_sid ` set (n_spawned c)) \<and> (s_dispatched s \<longrightarrow> s_headers_done s))"

lemma tasks_inv_cong:
  "n_streams c' = n_streams c \<Longrightarrow> n_active_tasks c' = n_active_tasks c \<Longrightarrow> n_spawned c' = n_spawned c \<Longrightarrow>
   n_last_peer_stream_id c' = n_last_peer_stream_id c \<Longrightarrow> tasks_inv c' = tasks_inv c"
  by (simp add: tasks_inv_def running_def)

lemma tasks_inv_upd [simp]:
  "tasks_inv (c\<lparr>n_rbuf := a\<rparr>) = tasks_inv c" "tasks_inv (c\<lparr>n_rbuf_offset := b\<rparr>) = tasks_inv c"
  "tasks_inv (c\<lparr>n_decode_table := d\<rparr>) = tasks_inv c" "tasks_inv (c\<lparr>n_outbox_bytes := b\<rparr>) = tasks_inv c"
  "tasks_inv (c\<lparr>n_outbox := e\<rparr>) = tasks_inv c" "tasks_inv (c\<lparr>n_conn_send_window := i\<rparr>) = tasks_inv c"
  "tasks_inv (c\<lparr>n_conn_recv_unacked := b\<rparr>) = tasks_inv c" "tasks_inv (c\<lparr>n_peer_initial_window := i\<rparr>) = tasks_inv c"
  "tasks_inv (c\<lparr>n_peer_max_frame_size := b\<rparr>) = tasks_inv c" "tasks_inv (c\<lparr>n_continuation_sid := u\<rparr>) = tasks_inv c"
  "tasks_inv (c\<lparr>n_writer_active := v\<rparr>) = tasks_inv c" "tasks_inv (c\<lparr>n_dead := v\<rparr>) = tasks_inv c"
  "tasks_inv (c\<lparr>n_goaway_sent := v\<rparr>) = tasks_inv c" "tasks_inv (c\<lparr>n_goaway_received := v\<rparr>) = tasks_inv c"
  "tasks_inv (h2_enqueue fr c) = tasks_inv c" "tasks_inv (send_goaway er c) = tasks_inv c" "tasks_inv (mark_dead c) = tasks_inv c"
  "tasks_inv (credit_connection b c) = tasks_inv c"
  by (intro tasks_inv_cong; simp add: h2_enqueue_def send_goaway_def mark_dead_def credit_connection_def Let_def)+

lemma tasks_inv_map:
  assumes "tasks_inv c" "\<And>k s. s_dispatched (g k s) = s_dispatched s" "\<And>k s. s_headers_done s \<Longrightarrow> s_headers_done (g k s)"
  shows "tasks_inv (c\<lparr>n_streams := map (\<lambda>(k, s). (k, g k s)) (n_streams c)\<rparr>)"
proof -
  have f: "map fst (map (\<lambda>(k, s). (k, g k s)) xs) = map fst xs" for xs by (induction xs) auto
  have r: "map fst (filter (\<lambda>(k, s). s_dispatched s) (map (\<lambda>(k, s). (k, g k s)) xs)) = map fst (filter (\<lambda>(k, s). s_dispatched s) xs)" for xs
    by (induction xs) (auto simp: assms(2))
  have i: "fst ` (\<lambda>(k, s). (k, g k s)) ` X = fst ` X" for X by (force simp: image_image)
  show ?thesis using assms(1) unfolding tasks_inv_def running_def
    by (auto simp: f r i assms(2) simp del: map_map intro!: assms(3))
qed

lemma tasks_inv_on_stream [simp]:
  assumes "tasks_inv c" "\<And>s. s_dispatched (f s) = s_dispatched s" "\<And>s. s_headers_done s \<Longrightarrow> s_headers_done (f s)"
  shows "tasks_inv (on_stream sid f c)"
  unfolding on_stream_def using tasks_inv_map [OF assms(1), of "\<lambda>k s. if k = sid then f s else s"] assms(2,3) by simp

lemma tasks_inv_flush [simp]: "tasks_inv c \<Longrightarrow> tasks_inv (mark_dead_after_flush c)"
  unfolding mark_dead_after_flush_def by (rule tasks_inv_map) simp_all

lemma tasks_inv_window [simp]: "tasks_inv c \<Longrightarrow> tasks_inv (apply_initial_window v c)"
  using tasks_inv_map [of "c\<lparr>n_peer_initial_window := v\<rparr>" "\<lambda>k s. s\<lparr>s_send_window := s_send_window s + (v - n_peer_initial_window c)\<rparr>"]
  by (simp add: apply_initial_window_def Let_def)

lemma erase_absent: "sid \<notin> fst ` set xs \<Longrightarrow> filter (\<lambda>(k, s). k \<noteq> sid) xs = xs"
  by (induction xs) auto

lemma running_erase:
  assumes "distinct (map fst xs)" "map_of xs sid = Some st"
  shows "length (filter (\<lambda>(k, s). s_dispatched s) (filter (\<lambda>(k, s). k \<noteq> sid) xs))
    = length (filter (\<lambda>(k, s). s_dispatched s) xs) - (if s_dispatched st then 1 else 0)"
    "s_dispatched st \<Longrightarrow> 0 < length (filter (\<lambda>(k, s). s_dispatched s) xs)"
proof -
  have "length (filter (\<lambda>(k, s). s_dispatched s) (filter (\<lambda>(k, s). k \<noteq> sid) xs)) + (if s_dispatched st then 1 else 0)
      = length (filter (\<lambda>(k, s). s_dispatched s) xs)"
    using assms
  proof (induction xs)
    case (Cons x xs)
    obtain k s where x: "x = (k, s)" by (cases x)
    show ?case
    proof (cases "k = sid")
      case True
      then have "sid \<notin> fst ` set xs" using Cons.prems(1) x by simp
      then show ?thesis using True x Cons.prems(2) erase_absent [of sid xs] by simp
    next
      case False
      then show ?thesis using Cons x by auto
    qed
  qed simp
  then show "length (filter (\<lambda>(k, s). s_dispatched s) (filter (\<lambda>(k, s). k \<noteq> sid) xs))
      = length (filter (\<lambda>(k, s). s_dispatched s) xs) - (if s_dispatched st then 1 else 0)"
    "s_dispatched st \<Longrightarrow> 0 < length (filter (\<lambda>(k, s). s_dispatched s) xs)" by auto
qed

lemma tasks_inv_erase:
  assumes "tasks_inv c" "stream_at sid c = Some st"
    "n = (if s_dispatched st then n_active_tasks c - 1 else n_active_tasks c)"
  shows "tasks_inv ((h2_erase_stream sid c)\<lparr>n_active_tasks := n\<rparr>)"
  using assms running_erase [of "n_streams c" sid st] distinct_map_filter [of fst "n_streams c" "\<lambda>(k, s). k \<noteq> sid"]
  unfolding tasks_inv_def running_def h2_erase_stream_def stream_at_def by auto

lemma tasks_inv_erase_idle:
  assumes "tasks_inv c" "stream_at sid c = Some st" "\<not> s_dispatched st"
  shows "tasks_inv (h2_erase_stream sid c)"
proof -
  have "h2_erase_stream sid c = (h2_erase_stream sid c)\<lparr>n_active_tasks := n_active_tasks c\<rparr>" by (simp add: h2_erase_stream_def)
  then show ?thesis using tasks_inv_erase [OF assms(1,2), of "n_active_tasks c"] assms(3) by simp
qed

lemma running_start:
  assumes "distinct (map fst xs)" "map_of xs sid = Some st" "\<not> s_dispatched st" "\<And>s. s_dispatched (f s)"
  shows "length (filter (\<lambda>(k, s). s_dispatched s) (map (\<lambda>(k, s). (k, if k = sid then f s else s)) xs))
    = Suc (length (filter (\<lambda>(k, s). s_dispatched s) xs))"
  using assms
proof (induction xs)
  case (Cons x xs)
  obtain k s where x: "x = (k, s)" by (cases x)
  show ?case
  proof (cases "k = sid")
    case True
    then have "sid \<notin> fst ` set xs" using Cons.prems(1) x by simp
    then have "map (\<lambda>(k, s). (k, if k = sid then f s else s)) xs = xs" by (induction xs) auto
    then show ?thesis using True x Cons.prems by simp
  next
    case False
    then show ?thesis using Cons x by auto
  qed
qed simp

lemma tasks_inv_start:
  assumes "tasks_inv c" "stream_at sid c = Some st" "\<not> s_dispatched st" "task_sid tk = sid" "\<And>s. s_dispatched (f s)"
    "s_headers_done st" "\<And>s. s_headers_done (f s) = s_headers_done s"
  shows "tasks_inv ((on_stream sid f c)\<lparr>n_active_tasks := n_active_tasks c + 1, n_spawned := n_spawned c @ [tk]\<rparr>)"
proof -
  let ?g = "\<lambda>(k, s). (k, if k = sid then f s else s)"
  have m: "(sid, st) \<in> set (n_streams c)" using assms(2) by (auto simp: stream_at_def dest: map_of_SomeD)
  have d: "distinct (map fst (n_streams c))" and u: "sid \<notin> task_sid ` set (n_spawned c)"
    using assms(1,3) m by (auto simp: tasks_inv_def)
  have f: "map fst (map ?g xs) = map fst xs" for xs by (induction xs) auto
  have i: "fst ` ?g ` X = fst ` X" for X by (force simp: image_image)
  have l: "sid \<le> n_last_peer_stream_id c" using assms(1) m by (force simp: tasks_inv_def)
  have e: "s = st" if "(sid, s) \<in> set (n_streams c)" for s using that m d by (auto dest: eq_key_imp_eq_value)
  show ?thesis
    using assms(1) u l running_start [OF d assms(2) [unfolded stream_at_def] assms(3), of f] assms(4-7) e
    unfolding tasks_inv_def running_def on_stream_def by (auto simp: f i simp del: map_map split: if_splits)
qed

lemma tasks_inv_dispatch:
  "tasks_inv c \<Longrightarrow> stream_at sid c = Some st \<Longrightarrow> \<not> s_dispatched st \<Longrightarrow> s_headers_done st \<Longrightarrow> tasks_inv (dispatch sid c)"
  unfolding dispatch_def by (rule tasks_inv_start) simp_all

lemma tasks_inv_answer: "tasks_inv c \<Longrightarrow> stream_at sid c = Some st \<Longrightarrow> s_headers_done st \<Longrightarrow> tasks_inv (answer_error sid e c)"
  unfolding answer_error_def by (simp add: tasks_inv_start [of c sid st "Run_error sid e", simplified])

lemma tasks_inv_reset [simp]: "tasks_inv c \<Longrightarrow> tasks_inv (reset_stream sid e c)"
  unfolding reset_stream_def Let_def by (auto split: option.split intro!: tasks_inv_erase_idle)

lemma tasks_inv_credit_at [simp]: "tasks_inv c \<Longrightarrow> tasks_inv (credit_at t sid n c)"
  unfolding credit_at_def Let_def by (auto split: option.split)

lemma tasks_inv_credit_stream [simp]: "tasks_inv c \<Longrightarrow> tasks_inv (credit_stream sid n c)"
  by (simp add: credit_stream_def)

lemma tasks_inv_finish: "tasks_inv c \<Longrightarrow> stream_at sid c = Some st \<Longrightarrow> s_dispatched st \<Longrightarrow> tasks_inv (finish_task sid c)"
proof -
  assume a: "tasks_inv c" "stream_at sid c = Some st" "s_dispatched st"
  define c1 where "c1 = (if \<not> s_end_stream_received st \<and> \<not> s_reset st
      then on_stream sid (\<lambda>s. s\<lparr>s_reset := True\<rparr>) (h2_enqueue (serialize_rst_stream sid NO_ERROR) c) else c)"
  have "\<exists>st1. stream_at sid c1 = Some st1 \<and> s_dispatched st1"
    using a(2,3) by (cases "\<not> s_end_stream_received st \<and> \<not> s_reset st") (simp_all add: c1_def)
  then obtain st1 where st1: "stream_at sid c1 = Some st1" "s_dispatched st1" by auto
  have i: "tasks_inv c1" using a by (simp add: c1_def)
  have n: "n_active_tasks (h2_erase_stream sid c1) = n_active_tasks c1" by (simp add: h2_erase_stream_def)
  have "finish_task sid c = (h2_erase_stream sid c1)\<lparr>n_active_tasks := if s_dispatched st1 then n_active_tasks c1 - 1 else n_active_tasks c1\<rparr>"
    using st1(2) by (simp add: finish_task_def a(2) Let_def c1_def [symmetric] n)
  then show ?thesis using tasks_inv_erase [OF i st1(1) refl] by simp
qed

lemma tasks_inv_connection_error [simp]: "tasks_inv c \<Longrightarrow> tasks_inv (snd (connection_error e c))"
  by (simp add: connection_error_def)

lemma tasks_inv_done: "tasks_inv c \<Longrightarrow> stream_at k c = Some st \<Longrightarrow> s_dispatched st \<Longrightarrow> s_headers_done st"
  by (auto simp: tasks_inv_def stream_at_def dest!: map_of_SomeD)

lemma tasks_inv_headers_decoded:
  assumes "tasks_inv c" "stream_at sid c = Some st'" "s_dispatched st' = s_dispatched st" "s_headers_done st' = s_headers_done st"
  shows "tasks_inv (headers_decoded sid st ok decoded c)"
proof -
  have idle: "\<not> s_dispatched st" if "\<not> s_headers_done st" using assms that tasks_inv_done [OF assms(1,2)] by auto
  define c1 where "c1 = on_stream sid (\<lambda>s. s\<lparr>s_headers_done := True\<rparr>) c"
  define c2 where "c2 = on_stream sid (\<lambda>s. s\<lparr>s_headers := decoded\<rparr>) c1"
  have c1: "tasks_inv c1" "stream_at sid c1 = Some (st'\<lparr>s_headers_done := True\<rparr>)"
    using assms(1,2) by (simp_all add: c1_def)
  have c2: "tasks_inv c2" "stream_at sid c2 = Some (st'\<lparr>s_headers_done := True, s_headers := decoded\<rparr>)"
    using c1 by (simp_all add: c2_def)
  have "tasks_inv (dispatch sid c)" if "s_headers_done st" "\<not> s_dispatched st"
    using that assms by (intro tasks_inv_dispatch [OF assms(1,2)]) simp_all
  moreover have "tasks_inv (send_goaway ENHANCE_YOUR_CALM (answer_error sid Limits_exceeded c1))"
    using tasks_inv_answer [OF c1, of Limits_exceeded] by simp
  moreover have "tasks_inv (dispatch sid c2)" if "\<not> s_headers_done st"
    using idle [OF that] assms(3) by (intro tasks_inv_dispatch [OF c2]) simp_all
  ultimately show ?thesis using assms(1) c1(1) c2(1)
    by (simp add: headers_decoded_def Let_def c1_def [symmetric] c2_def [symmetric])
qed

lemma tasks_inv_finish_header_block:
  assumes "tasks_inv c" "finish_header_block sid c = Some (b, c')"
  shows "tasks_inv c'"
proof -
  obtain st where st: "stream_at sid c = Some st" using assms(2) by (auto simp: finish_header_block_def split: option.splits)
  obtain status dt decoded where d: "decode_header_block kDefaultMaxHeaderListSize (s_header_block st) (n_decode_table c) [] = Some (status, dt, decoded)"
    using assms(2) st by (auto simp: finish_header_block_def split: option.splits)
  define c1 where "c1 = on_stream sid (\<lambda>s. s\<lparr>s_header_block := []\<rparr>) (c\<lparr>n_continuation_sid := 0, n_decode_table := dt\<rparr>)"
  have c1: "tasks_inv c1" "stream_at sid c1 = Some (st\<lparr>s_header_block := []\<rparr>)" using assms(1) st by (simp_all add: c1_def)
  have h: "tasks_inv (headers_decoded sid st ok decoded c1)" for ok
    by (rule tasks_inv_headers_decoded [OF c1]) simp_all
  show ?thesis using assms(2) h tasks_inv_connection_error [OF c1(1), of COMPRESSION_ERROR]
    by (cases status) (auto simp: finish_header_block_def st d Let_def c1_def [symmetric])
qed

lemma tasks_inv_headers_stream:
  assumes "tasks_inv c" "headers_stream hdr c = Inr c'" "f_stream_id hdr AND 1 \<noteq> 0"
  shows "tasks_inv c'"
proof (cases "stream_at (f_stream_id hdr) c")
  case (Some st)
  then show ?thesis using assms by (auto simp: headers_stream_def Let_def split: if_splits)
next
  case None
  let ?sid = "f_stream_id hdr"
  have new: "?sid > n_last_peer_stream_id c" and c': "c' = c\<lparr>n_last_peer_stream_id := ?sid, n_streams := n_streams c @ [(?sid, stream_new ?sid (n_peer_initial_window c))]\<rparr>"
    using assms(2) None by (auto simp: headers_stream_def Let_def split: if_splits)
  have fresh: "?sid \<notin> fst ` set (n_streams c)" "?sid \<notin> task_sid ` set (n_spawned c)"
    using assms(1) new by (auto simp: tasks_inv_def)
  show ?thesis using assms(1,3) new fresh
    by (auto simp: c' tasks_inv_def running_def stream_new_def dest: order.strict_implies_order order.trans)
qed

lemma tasks_inv_on_headers: "tasks_inv c \<Longrightarrow> on_headers hdr payload c = Some (b, c') \<Longrightarrow> tasks_inv c'"
  unfolding on_headers_def
  by (auto simp: Let_def connection_error_def split: if_splits option.splits sum.splits
      dest: tasks_inv_headers_stream elim!: tasks_inv_finish_header_block [rotated])

lemma tasks_inv_on_continuation: "tasks_inv c \<Longrightarrow> on_continuation hdr payload c = Some (b, c') \<Longrightarrow> tasks_inv c'"
  unfolding on_continuation_def
  by (auto simp: Let_def connection_error_def split: if_splits option.splits elim!: tasks_inv_finish_header_block [rotated])


lemma tasks_inv_take_data:
  assumes "tasks_inv c" "stream_at sid c = Some st" "s_headers_done st" "take_data cap sid n d st c = (b, c')"
  shows "tasks_inv c' \<and> (b \<longrightarrow> (\<exists>st'. stream_at sid c' = Some st' \<and> s_dispatched st' = s_dispatched st \<and> s_headers_done st'))"
proof -
  define c1 where "c1 = on_stream sid (\<lambda>s. s\<lparr>s_tunnel_in := s_tunnel_in s @ d\<rparr>) c"
  define c2 where "c2 = credit_stream sid n (on_stream sid (\<lambda>s. s\<lparr>s_body := s_body s @ d\<rparr>) c)"
  have i: "tasks_inv c1" "tasks_inv c2" using assms(1) by (simp_all add: c1_def c2_def)
  have "\<exists>st'. stream_at sid c2 = Some st' \<and> s_dispatched st' = s_dispatched st \<and> s_headers_done st'"
    using assms(2,3) by (auto simp: c2_def credit_stream_def credit_at_def Let_def)
  then obtain st2 where s2: "stream_at sid c2 = Some st2" "s_dispatched st2 = s_dispatched st" "s_headers_done st2" by auto
  have "tasks_inv (answer_error sid Payload_too_large (on_stream sid (\<lambda>s. s\<lparr>s_rejected := True\<rparr>) c2))"
    using i(2) s2 by (intro tasks_inv_answer [of _ _ "st2\<lparr>s_rejected := True\<rparr>"]) simp_all
  then show ?thesis using assms i s2
    by (auto simp: take_data_def Let_def c1_def [symmetric] c2_def [symmetric] split: if_splits) (auto simp: c1_def)
qed

lemma tasks_inv_on_data:
  assumes "tasks_inv c"
  shows "tasks_inv (snd (on_data cap hdr payload c))"
proof -
  let ?sid = "f_stream_id hdr" and ?c = "credit_connection (unat (f_length hdr)) c"
  have "tasks_inv (snd (case take_data cap ?sid (unat (f_length hdr)) d st ?c of
       (False, c) \<Rightarrow> (True, c)
     | (True, c) \<Rightarrow>
         if has_flag FL_END_STREAM hdr then
           let c = on_stream ?sid (\<lambda>s. s\<lparr>s_end_stream_received := True\<rparr>) c in
           (True, if s_dispatched st then c else dispatch ?sid c)
         else (True, c)))" if "stream_at ?sid ?c = Some st" "s_headers_done st" for d st
  proof -
    obtain b c' where t: "take_data cap ?sid (unat (f_length hdr)) d st ?c = (b, c')" by (cases "take_data cap ?sid (unat (f_length hdr)) d st ?c")
    note k = tasks_inv_take_data [OF _ that t]
    have "tasks_inv c'" using k assms by simp
    moreover have "tasks_inv (dispatch ?sid (on_stream ?sid (\<lambda>s. s\<lparr>s_end_stream_received := True\<rparr>) c'))" if "b" "\<not> s_dispatched st"
      using k assms that by (auto intro!: tasks_inv_dispatch)
    ultimately show ?thesis by (cases b) (simp_all add: t Let_def)
  qed
  then show ?thesis using assms
    by (simp add: on_data_def Let_def connection_error_def split: option.split)
qed

lemma tasks_inv_settings_loop: "tasks_inv c \<Longrightarrow> tasks_inv (snd (settings_loop payload c))"
proof (induction payload c rule: settings_loop.induct)
  case (1 a b p q r t rest c)
  show ?case
  proof (cases "apply_setting (push_bit 8 (ucast a) OR ucast b) (unat (read_u32 [p, q, r, t])) c")
    case (Inl e)
    then show ?thesis using "1.prems" by simp
  next
    case (Inr c1)
    then have "tasks_inv c1" using "1.prems" by (auto simp: apply_setting_def split: if_splits)
    then show ?thesis using "1.IH" Inr by simp
  qed
qed simp_all

text \<open>The handlers of \<^verbatim>\<open>handle_frame\<close>, one by one.\<close>

lemma handle_frame_cases:
  assumes "handle_frame cap hdr payload c = Some (b, c')"
  obtains (violation) "b = fst (connection_error PROTOCOL_ERROR c)" "c' = snd (connection_error PROTOCOL_ERROR c)"
    | (headers) "n_continuation_sid c = 0" "f_type hdr = FT_HEADERS" "on_headers hdr payload c = Some (b, c')"
    | (continuation) "f_type hdr = FT_CONTINUATION" "on_continuation hdr payload c = Some (b, c')"
    | (data) "n_continuation_sid c = 0" "f_type hdr = FT_DATA" "b = fst (on_data cap hdr payload c)" "c' = snd (on_data cap hdr payload c)"
    | (settings) "n_continuation_sid c = 0" "f_type hdr = FT_SETTINGS" "b = fst (on_settings hdr payload c)" "c' = snd (on_settings hdr payload c)"
    | (window) "n_continuation_sid c = 0" "f_type hdr = FT_WINDOW_UPDATE" "b = fst (on_window_update hdr payload c)" "c' = snd (on_window_update hdr payload c)"
    | (ping) "n_continuation_sid c = 0" "f_type hdr = FT_PING" "b = fst (on_ping hdr payload c)" "c' = snd (on_ping hdr payload c)"
    | (rst) "n_continuation_sid c = 0" "f_type hdr = FT_RST_STREAM" "b = fst (on_rst_stream hdr payload c)" "c' = snd (on_rst_stream hdr payload c)"
    | (goaway) "n_continuation_sid c = 0" "f_type hdr = FT_GOAWAY" "b" "c' = c\<lparr>n_goaway_received := True\<rparr>"
    | (ignored) "n_continuation_sid c = 0" "f_type hdr \<notin> {FT_DATA, FT_SETTINGS, FT_WINDOW_UPDATE}" "b" "c' = c"
proof -
  note h = assms [unfolded handle_frame_def]
  show thesis
  proof (cases "n_continuation_sid c \<noteq> 0 \<and> (f_type hdr \<noteq> FT_CONTINUATION \<or> f_stream_id hdr \<noteq> n_continuation_sid c)")
    case True
    then have "connection_error PROTOCOL_ERROR c = (b, c')" using h by simp
    then show ?thesis by (intro violation) simp_all
  next
    case False
    show ?thesis
    proof (cases "f_type hdr = FT_CONTINUATION")
      case True
      then show ?thesis using h False by (intro continuation) (auto split: if_splits)
    next
      case nc: False
      then have z: "n_continuation_sid c = 0" using False by auto
      consider "f_type hdr = FT_HEADERS" | "f_type hdr = FT_DATA" | "f_type hdr = FT_SETTINGS" | "f_type hdr = FT_WINDOW_UPDATE" | "f_type hdr = FT_PING" | "f_type hdr = FT_RST_STREAM" | "f_type hdr = FT_GOAWAY" | "f_type hdr = FT_PUSH_PROMISE"
        | "f_type hdr \<notin> {FT_HEADERS, FT_DATA, FT_SETTINGS, FT_WINDOW_UPDATE, FT_PING, FT_RST_STREAM, FT_GOAWAY, FT_PUSH_PROMISE}" by blast
      then show ?thesis
      proof cases
        case 1
        then show ?thesis using h z nc by (intro headers) simp_all
      next
        case 2
        then show ?thesis using h z nc by (intro data) simp_all
      next
        case 3
        then show ?thesis using h z nc by (intro settings) simp_all
      next
        case 4
        then show ?thesis using h z nc by (intro window) simp_all
      next
        case 5
        then show ?thesis using h z nc by (intro ping) simp_all
      next
        case 6
        then show ?thesis using h z nc by (intro rst) simp_all
      next
        case 7
        then show ?thesis using h z nc by (intro goaway) simp_all
      next
        case 8
        then show ?thesis using h z nc by (intro violation) simp_all
      next
        case 9
        then show ?thesis using h z nc by (intro ignored) simp_all
      qed
    qed
  qed
qed

lemma tasks_inv_on_settings: "tasks_inv c \<Longrightarrow> tasks_inv (snd (on_settings hdr payload c))"
  using tasks_inv_settings_loop [of c payload]
  by (auto simp: on_settings_def connection_error_def split: prod.split bool.split)

lemma tasks_inv_on_window_update: "tasks_inv c \<Longrightarrow> tasks_inv (snd (on_window_update hdr payload c))"
  by (auto simp: on_window_update_def connection_error_def Let_def split: option.split)

lemma tasks_inv_on_rst: "tasks_inv c \<Longrightarrow> tasks_inv (snd (on_rst_stream hdr payload c))"
  by (auto simp: on_rst_stream_def connection_error_def Let_def split: option.split intro!: tasks_inv_erase_idle)

lemma tasks_inv_on_ping: "tasks_inv c \<Longrightarrow> tasks_inv (snd (on_ping hdr payload c))"
  by (simp add: on_ping_def connection_error_def)

lemma tasks_inv_handle_frame:
  assumes "tasks_inv c" "handle_frame cap hdr payload c = Some (b, c')"
  shows "tasks_inv c'"
  using assms(2)
proof (cases rule: handle_frame_cases)
  case headers
  then show ?thesis using tasks_inv_on_headers assms(1) by blast
next
  case continuation
  then show ?thesis using tasks_inv_on_continuation assms(1) by blast
qed (use assms(1) in \<open>simp_all add: tasks_inv_on_data tasks_inv_on_settings tasks_inv_on_window_update tasks_inv_on_ping tasks_inv_on_rst\<close>)

section \<open>Sending\<close>

definition data_chunk_len :: "bytes \<Rightarrow> nat \<Rightarrow> int \<Rightarrow> h2_session \<Rightarrow> nat" where
  "data_chunk_len payload offset sw c = min (length payload - offset) (min (nat (min sw (n_conn_send_window c) mod 2 ^ 64)) (n_peer_max_frame_size c))"

definition put_data :: "h2_frame_header \<Rightarrow> bytes \<Rightarrow> nat \<Rightarrow> nat \<Rightarrow> u32 \<Rightarrow> h2_session \<Rightarrow> h2_session" where
  "put_data hdr payload offset n sid c =
     (on_stream sid (\<lambda>s. s\<lparr>s_send_window := s_send_window s - int n\<rparr>)
       (h2_enqueue (h2_encode_frame FT_DATA (if offset + n = length payload \<and> has_flag FL_END_STREAM hdr then FL_END_STREAM else FL_NONE)
          sid (substr payload offset n)) c))\<lparr>n_conn_send_window := n_conn_send_window c - int n\<rparr>"

text \<open>What a turn of \<^verbatim>\<open>send_frames\<close> does to the session.\<close>

lemma send_turn_cases:
  assumes "send_turn expired t c = (out, c')"
  obtains (same) "c' = c"
    | (frame) hdr payload fr where "t_phase t = Want_room hdr payload" "f_type hdr \<noteq> FT_DATA" "\<not> send_failed (t_sid t) c"
        "c' = close_local (t_sid t) hdr (h2_enqueue fr c)"
        "fr = (if f_type hdr = FT_HEADERS then encode_header_frames (t_sid t) payload (has_flag FL_END_STREAM hdr) (n_peer_max_frame_size c)
           else h2_encode_frame (f_type hdr) (f_flags hdr) (t_sid t) payload)"
    | (data) hdr payload offset st where "t_phase t = In_data hdr payload offset" "stream_at (t_sid t) c = Some st" "\<not> s_reset st" "\<not> n_dead c"
        "offset < length payload \<longrightarrow> 0 < s_send_window st \<and> 0 < n_conn_send_window c"
        "c' = put_data hdr payload offset (data_chunk_len payload offset (s_send_window st) c) (t_sid t) c
         \<or> c' = close_local (t_sid t) hdr (put_data hdr payload offset (data_chunk_len payload offset (s_send_window st) c) (t_sid t) c)"
proof (cases "t_phase t")
  case At_head
  then show ?thesis using assms same by (simp add: send_turn_def)
next
  case (Want_room hdr payload)
  then have r: "send_room expired hdr payload t c = (out, c')" using assms by (simp add: send_turn_def)
  show ?thesis
  proof (cases "send_failed (t_sid t) c \<or> \<not> n_outbox_bytes c < kMaxOutboxBytes \<or> f_type hdr = FT_DATA")
    case True
    then have "c' = c" using r by (auto simp: send_room_def Let_def split: if_splits)
    then show ?thesis by (rule same)
  next
    case False
    then show ?thesis using r by (intro frame [OF Want_room]) (auto simp: send_room_def Let_def split: if_splits)
  qed
next
  case (In_data hdr payload offset)
  then have r: "send_data expired hdr payload offset t c = (out, c')" using assms by (simp add: send_turn_def)
  show ?thesis
  proof (cases "send_failed (t_sid t) c \<or> (\<exists>st. stream_at (t_sid t) c = Some st \<and> offset < length payload \<and> \<not> (0 < s_send_window st \<and> 0 < n_conn_send_window c))")
    case True
    then have "c' = c" using r by (auto simp: send_data_def Let_def split: if_splits)
    then show ?thesis by (rule same)
  next
    case False
    then obtain st where st: "stream_at (t_sid t) c = Some st" "\<not> s_reset st" "\<not> n_dead c" by (auto simp: send_failed_def split: option.splits)
    have "offset < length payload \<longrightarrow> 0 < s_send_window st \<and> 0 < n_conn_send_window c" using False st by auto
    moreover from this have "\<not> (0 < length payload - offset \<and> \<not> (send_failed (t_sid t) c \<or> 0 < s_send_window st \<and> 0 < n_conn_send_window c))" by auto
    with False have "c' = put_data hdr payload offset (data_chunk_len payload offset (s_send_window st) c) (t_sid t) c
         \<or> c' = close_local (t_sid t) hdr (put_data hdr payload offset (data_chunk_len payload offset (s_send_window st) c) (t_sid t) c)"
      using r unfolding send_data_def Let_def data_chunk_len_def [symmetric] st(1) option.case put_data_def [symmetric]
      by (simp only: if_False disj_not1 simp_thms split: if_splits) auto
    ultimately show ?thesis by (rule data [OF In_data st])
  qed
qed

lemma tasks_inv_close_local [simp]: "tasks_inv c \<Longrightarrow> tasks_inv (close_local sid hdr c)"
  by (simp add: close_local_def)

lemma tasks_inv_send_turn:
  assumes "tasks_inv c" "send_turn expired t c = (out, c')"
  shows "tasks_inv c'"
  using assms(2)
proof (cases rule: send_turn_cases)
  case (data hdr payload offset st)
  have "tasks_inv (put_data hdr payload offset n sid c)" for n sid using assms(1) by (simp add: put_data_def)
  then show ?thesis using data(6) by auto
qed (use assms(1) in simp_all)

end
