(* ===== verification/Http2_Run.thy ===== *)
theory Http2_Run
  imports Http2_Session_Inv
begin

unbundle bit_operations_syntax

text \<open>
  The runs of an HTTP/2 session: the reader, the writer, the stream tasks and the application's handlers interleave in
  any order at their suspension points.
\<close>

text \<open>Frames that the reader handled and octets that were queued for the writer, in order.\<close>

datatype h2_event = Got h2_frame_header bytes | Put bytes

definition puts :: "h2_session \<Rightarrow> h2_session \<Rightarrow> h2_event list" where
  "puts c c' = map Put (drop (length (n_outbox c)) (n_outbox c'))"

definition dispatched_at :: "u32 \<Rightarrow> h2_session \<Rightarrow> bool" where
  "dispatched_at sid c \<longleftrightarrow> (\<exists>st. stream_at sid c = Some st \<and> s_dispatched st)"

text \<open>What the task of a stream and the tunnel it hands to the application may do besides sending.\<close>

inductive task_op :: "u32 \<Rightarrow> h2_session \<Rightarrow> h2_session \<Rightarrow> bool" where
  serve: "serve_begin sid c = (rq, c1) \<Longrightarrow> task_op sid c c1"
| tunnel: "task_op sid c (tunnel_begin sid c)"
| end_stream: "task_op sid c (end_local sid c)"
| shutdown_send: "task_op sid c (tunnel_shutdown_send sid c)"
| cancel: "task_op sid c (tunnel_cancel sid c)"
| close: "task_op sid c (tunnel_close sid c)"
| recv: "tunnel_read sid room c = (ev, c1) \<Longrightarrow> task_op sid c c1"

text \<open>
  \<open>h2_run cap tr c ts r\<close>: the session \<open>c\<close> is reached with the events \<open>tr\<close>, the send operations \<open>ts\<close> are under way, and
  \<open>r\<close> says that the reader loop is running.  When the loop ends, the shutdown begins in the same step.  Handlers are
  arbitrary: they send any octets on a dispatched stream, and a task ends only after its sends.
\<close>

inductive h2_run :: "nat \<Rightarrow> h2_event list \<Rightarrow> h2_session \<Rightarrow> send_task list \<Rightarrow> bool \<Rightarrow> bool" for cap :: nat where
  start: "h2_run cap [Put session_preamble] (session_start buffered) [] True"
| frame: "h2_run cap tr c ts True \<Longrightarrow> \<not> n_dead c \<Longrightarrow>
    h2_parse_frame (drop (n_rbuf_offset c) (n_rbuf c)) = Frame hdr payload n \<Longrightarrow> length payload \<le> kMaxFrameSize \<Longrightarrow>
    handle_frame cap hdr payload c = Some (ok, c1) \<Longrightarrow>
    h2_run cap (tr @ Got hdr payload # puts c c1) ((if ok then c1 else shutdown_begin c1)\<lparr>n_rbuf_offset := n_rbuf_offset c + n\<rparr>) ts ok"
| oversized: "h2_run cap tr c ts True \<Longrightarrow> c1 = snd (connection_error FRAME_SIZE_ERROR c) \<Longrightarrow>
    h2_run cap (tr @ puts c c1) (shutdown_begin c1) ts False"
| turn: "h2_run cap tr c ts True \<Longrightarrow> run_turn accepting c = (go, c1) \<Longrightarrow>
    h2_run cap (tr @ puts c c1) (if go then c1 else shutdown_begin c1) ts go"
| read: "h2_run cap tr c ts True \<Longrightarrow> h2_run cap tr (read_begin c) ts True"
| read_done: "h2_run cap tr c ts True \<Longrightarrow> read_end accepting ev c = (go, c1) \<Longrightarrow>
    h2_run cap (tr @ puts c c1) (if go then c1 else shutdown_begin c1) ts go"
| write_out: "h2_run cap tr c ts r \<Longrightarrow> write_begin c = (batch, c1) \<Longrightarrow> h2_run cap tr c1 ts r"
| written: "h2_run cap tr c ts r \<Longrightarrow> h2_run cap tr (write_end ec n c) ts r"
| send: "h2_run cap tr c ts r \<Longrightarrow> dispatched_at sid c \<Longrightarrow> h2_run cap tr c (send_frames sid bs # ts) r"
| send_turn: "h2_run cap tr c ts r \<Longrightarrow> t \<in> set ts \<Longrightarrow> send_turn expired t c = (Goes_on t', c1) \<Longrightarrow>
    h2_run cap (tr @ puts c c1) c1 (t' # remove1 t ts) r"
| send_done: "h2_run cap tr c ts r \<Longrightarrow> t \<in> set ts \<Longrightarrow> send_turn expired t c = (Ends res, c1) \<Longrightarrow>
    h2_run cap (tr @ puts c c1) c1 (remove1 t ts) r"
| task: "h2_run cap tr c ts r \<Longrightarrow> dispatched_at sid c \<Longrightarrow> task_op sid c c1 \<Longrightarrow> h2_run cap (tr @ puts c c1) c1 ts r"
| finish: "h2_run cap tr c ts r \<Longrightarrow> dispatched_at sid c \<Longrightarrow> \<forall>t \<in> set ts. t_sid t \<noteq> sid \<Longrightarrow>
    h2_run cap (tr @ puts c (finish_task sid c)) (finish_task sid c) ts r"
| drained: "h2_run cap tr c ts False \<Longrightarrow> h2_run cap tr (shutdown_drained c) ts False"
| ended: "h2_run cap tr c ts False \<Longrightarrow> shutdown_end c = Some c1 \<Longrightarrow> h2_run cap tr c1 ts False"

text \<open>The loop of the reader is a sequence of such steps.\<close>

lemma puts_refl [simp]: "puts c c = []"
  by (simp add: puts_def)

lemma unpack_parse:
  "unpack_frame_header buf = Some hdr \<Longrightarrow> 9 + unat (f_length hdr) \<le> length buf \<Longrightarrow>
   h2_parse_frame buf = Frame hdr (substr buf 9 (unat (f_length hdr))) (9 + unat (f_length hdr))"
  by (simp add: h2_parse_frame_def Let_def)

lemma h2_process_frames_run:
  assumes "h2_run cap tr c ts True" "h2_process_frames cap c = Some (ok, c')"
  shows "\<exists>tr'. h2_run cap tr' (if ok then c' else shutdown_begin c') ts ok"
  using assms
proof (induction cap c arbitrary: tr rule: h2_process_frames.induct)
  case (1 cap c)
  let ?avail = "drop (n_rbuf_offset c) (n_rbuf c)"
  note p = "1.prems"(2) [unfolded h2_process_frames.simps [of cap c] Let_def]
  show ?case
  proof (cases "n_dead c \<or> unpack_frame_header ?avail = None")
    case True
    then have "ok" "c' = c" using p by (auto split: if_splits)
    then show ?thesis using "1.prems"(1) by auto
  next
    case False
    then obtain hdr where h: "unpack_frame_header ?avail = Some hdr" "\<not> n_dead c" by auto
    let ?n = "unat (f_length hdr)"
    consider (big) "?n > kMaxFrameSize" | (short) "\<not> ?n > kMaxFrameSize" "length ?avail < 9 + ?n"
      | (whole) "\<not> ?n > kMaxFrameSize" "\<not> length ?avail < 9 + ?n" by linarith
    then show ?thesis
    proof cases
      case big
      then have "(ok, c') = connection_error FRAME_SIZE_ERROR c" using p h by simp
      then have "\<not> ok" "c' = snd (connection_error FRAME_SIZE_ERROR c)" by (auto simp: connection_error_def)
      then show ?thesis using h2_run.oversized [OF "1.prems"(1) refl] by auto
    next
      case short
      then have "ok" "c' = c" using p h by simp_all
      then show ?thesis using "1.prems"(1) by auto
    next
      case whole
      obtain ok1 c1 where f: "handle_frame cap hdr (substr ?avail 9 ?n) c = Some (ok1, c1)"
        using p h whole by (auto split: option.splits)
      have off: "n_rbuf_offset c1 = n_rbuf_offset c" using handle_frame_rbuf [OF f] by (simp add: same_rbuf_def)
      let ?c1 = "c1\<lparr>n_rbuf_offset := n_rbuf_offset c1 + 9 + ?n\<rparr>"
      have run: "h2_run cap (tr @ Got hdr (substr ?avail 9 ?n) # puts c c1)
          ((if ok1 then c1 else shutdown_begin c1)\<lparr>n_rbuf_offset := n_rbuf_offset c + (9 + ?n)\<rparr>) ts ok1"
        using h whole by (intro h2_run.frame [OF "1.prems"(1) h(2) _ _ f] unpack_parse) auto
      show ?thesis
      proof (cases ok1)
        case True
        have "h2_process_frames cap ?c1 = Some (ok, c')"
          using p h whole f True by simp
        moreover have "h2_run cap (tr @ Got hdr (substr ?avail 9 ?n) # puts c c1) ?c1 ts True"
          using run True by (simp add: off add.assoc)
        ultimately show ?thesis
          using "1.IH" [OF h(2) refl h(1) whole f refl refl] True by blast
      next
        case f1: False
        then have "\<not> ok" "c' = ?c1" using p h whole f by simp_all
        moreover have "shutdown_begin ?c1 = (shutdown_begin c1)\<lparr>n_rbuf_offset := n_rbuf_offset c + (9 + ?n)\<rparr>"
          by (simp add: shutdown_begin_def mark_dead_after_flush_def off add.assoc)
        ultimately show ?thesis using run f1 by auto
      qed
    qed
  qed
qed

section \<open>Tasks\<close>

lemma tasks_inv_shutdown [simp]: "tasks_inv c \<Longrightarrow> tasks_inv (shutdown_begin c)"
  by (simp add: shutdown_begin_def)

lemma tasks_inv_task_op: "task_op sid c c1 \<Longrightarrow> tasks_inv c \<Longrightarrow> tasks_inv c1"
  by (induction rule: task_op.induct)
    (auto simp: serve_begin_def tunnel_begin_def end_local_def tunnel_shutdown_send_def tunnel_cancel_def tunnel_close_def
      tunnel_read_def Let_def split: option.splits if_splits)

lemma tasks_inv_run_turn: "tasks_inv c \<Longrightarrow> tasks_inv (snd (run_turn accepting c))"
  by (simp add: run_turn_def Let_def)

lemma tasks_inv_read_end: "tasks_inv c \<Longrightarrow> tasks_inv (snd (read_end accepting ev c))"
  by (simp add: read_end_def Let_def split: read_event.split)

lemma tasks_inv_write_begin: "tasks_inv c \<Longrightarrow> tasks_inv (snd (write_begin c))"
  by (simp add: write_begin_def split: prod.split)

lemma tasks_inv_end: "tasks_inv c \<Longrightarrow> shutdown_end c = Some c1 \<Longrightarrow> tasks_inv c1"
  by (auto simp: shutdown_end_def tasks_inv_def running_def split: if_splits)

lemma tasks_inv_init: "tasks_inv (session_start buffered)"
  by (simp add: session_start_def) (simp add: session_new_def tasks_inv_def running_def)

lemma tasks_inv_run: "h2_run cap tr c ts r \<Longrightarrow> tasks_inv c"
proof (induction rule: h2_run.induct)
  case (frame tr c ts hdr payload n ok c1)
  then have "tasks_inv c1" using tasks_inv_handle_frame by blast
  then show ?case by simp
next
  case (turn tr c ts accepting go c1)
  then show ?case using tasks_inv_run_turn [of c accepting] by simp
next
  case (read_done tr c ts accepting ev go c1)
  then show ?case using tasks_inv_read_end [of c accepting ev] by simp
next
  case (write_out tr c ts r batch c1)
  then show ?case using tasks_inv_write_begin [of c] by simp
next
  case (send_turn tr c ts r t expired t' c1)
  then show ?case using tasks_inv_send_turn by blast
next
  case (send_done tr c ts r t expired res c1)
  then show ?case using tasks_inv_send_turn by blast
next
  case (task tr c ts r sid c1)
  then show ?case using tasks_inv_task_op by blast
next
  case (finish tr c ts r sid)
  then show ?case using tasks_inv_finish by (auto simp: dispatched_at_def)
next
  case (ended tr c ts c1)
  then show ?case using tasks_inv_end by blast
qed (simp_all add: tasks_inv_init read_begin_def write_end_def shutdown_drained_def Let_def)

end
