(* ===== verification/Hpack_Proofs.thy ===== *)
theory Hpack_Proofs
  imports Hpack
begin

unbundle bit_operations_syntax

text \<open>
  Correctness of HPACK: integers, strings, the dynamic table as a bounded first-in first-out window, the round trip of
  header blocks, and what the decoder does with hostile lengths.
\<close>

section \<open>Integers\<close>

lemma drop_Cons_nth: "drop c inp = b # rest \<Longrightarrow> c < length inp \<and> inp ! c = b \<and> drop (Suc c) inp = rest"
  by (metis drop_eq_Nil2 hd_drop_conv_nth linorder_not_less list.distinct(1) list.sel(1,3) drop_Suc tl_drop)

lemma int_byte:
  fixes w :: u64
  assumes "w < 128"
  shows "ucast ((ucast w OR 0x80 :: u8) AND 0x7F) = w" "(ucast w OR 0x80 :: u8) AND 0x80 \<noteq> 0"
    "ucast ((ucast w :: u8) AND 0x7F) = w" "(ucast w :: u8) AND 0x80 = 0"
proof -
  have u: "unat w < 128" using assms by (simp add: word_less_nat_alt)
  have uc: "unat (ucast w :: u8) = unat w" using u by (simp add: unsigned_ucast_eq take_bit_nat_eq_self)
  have l: "(ucast w :: u8) AND 0x7F = ucast w"
    using u uc by (intro unat_eqI) (simp add: unat_and_low_masks)
  have "((ucast w :: u8) AND 0x7F) AND 0x80 = 0" by (simp add: and.assoc)
  then show z: "(ucast w :: u8) AND 0x80 = 0" using l by simp
  show "(ucast w OR 0x80 :: u8) AND 0x80 \<noteq> 0" by (simp add: bit.conj_disj_distrib2 z)
  have bk: "(ucast (ucast w :: u8) :: u64) = w"
    by (rule unat_eqI) (simp only: unat_ucast_up uc)
  show "ucast ((ucast w :: u8) AND 0x7F) = w" using l bk by simp
  show "ucast ((ucast w OR 0x80 :: u8) AND 0x7F) = w" by (simp add: bit.conj_disj_distrib2 l bk)
qed

lemma int_loop_tail:
  assumes "drop c inp = int_tail v @ rest" "unat v < 2 ^ (64 - m)" "m \<le> 63"
  shows "int_loop inp c r m = Some (r + push_bit m v, c + length (int_tail v))"
  using assms
proof (induction v arbitrary: c r m rule: int_tail.induct)
  case (1 v)
  show ?case
  proof (cases "v \<ge> 128")
    case True
    let ?b = "ucast (v mod 128) OR 0x80 :: u8"
    have tail: "int_tail v = ?b # int_tail (v div 128)" using True by (subst int_tail.simps) simp
    have d: "c < length inp" "inp ! c = ?b" "drop (Suc c) inp = int_tail (v div 128) @ rest"
      using drop_Cons_nth [of c inp ?b] "1.prems"(1) by (simp_all add: tail)
    have m: "m + 7 \<le> 63"
    proof (rule ccontr)
      assume "\<not> m + 7 \<le> 63"
      then have "64 - m \<le> 7" by simp
      then have "(2 :: nat) ^ (64 - m) \<le> 2 ^ 7" by (rule power_increasing) simp
      then show False using "1.prems"(2) True by (simp add: word_le_nat_alt)
    qed
    have "2 ^ (64 - m) = 2 ^ (64 - (m + 7)) * (2 :: nat) ^ 7" using m by (subst power_add [symmetric]) simp
    then have small: "unat (v div 128) < 2 ^ (64 - (m + 7))"
      using "1.prems"(2) by (simp add: unat_div less_mult_imp_div_less)
    have lt: "v mod 128 < 128" by (simp add: word_less_nat_alt unat_mod)
    have "push_bit m (v mod 128) + push_bit (m + 7) (v div 128) = push_bit m (v div 128 * 128 + v mod 128)"
      by (simp add: push_bit_eq_mult power_add algebra_simps)
    also have "v div 128 * 128 + v mod 128 = v" by (simp add: word_mod_div_equality)
    finally have sum: "push_bit m (v mod 128) + push_bit (m + 7) (v div 128) = push_bit m v" .
    have "int_loop inp c r m = int_loop inp (Suc c) (r + push_bit m (v mod 128)) (m + 7)"
      using d m int_byte(1,2) [OF lt] by (subst int_loop.simps) (simp add: Let_def)
    also have "\<dots> = Some (r + push_bit m (v mod 128) + push_bit (m + 7) (v div 128), Suc c + length (int_tail (v div 128)))"
      using d(3) small m by (intro "1.IH" [OF True]) simp_all
    finally show ?thesis using sum by (simp add: tail add.assoc)
  next
    case False
    then have lt: "v < 128" by simp
    have tail: "int_tail v = [ucast v]" using False by (subst int_tail.simps) simp
    have d: "c < length inp" "inp ! c = ucast v"
      using drop_Cons_nth [of c inp "ucast v :: u8"] "1.prems"(1) by (simp_all add: tail)
    show ?thesis using d int_byte(3,4) [OF lt] by (subst int_loop.simps) (simp add: Let_def tail)
  qed
qed

text \<open>The prefix sizes that the format uses.\<close>

definition prefix_ok :: "nat \<Rightarrow> u8 \<Rightarrow> bool" where
  "prefix_ok bits msk \<longleftrightarrow> bits \<in> {4, 5, 6, 7} \<and> msk AND max_prefix bits = 0"

lemma max_prefix_vals: "max_prefix 4 = 0x0F" "max_prefix 5 = 0x1F" "max_prefix 6 = 0x3F" "max_prefix 7 = 0x7F"
  by (simp_all add: max_prefix_def)

lemma prefix_and:
  assumes "prefix_ok bits msk"
  shows "unat (x AND max_prefix bits) = unat x mod 2 ^ bits" "unat (max_prefix bits) = 2 ^ bits - 1"
  using assms by (auto simp: prefix_ok_def max_prefix_vals unat_and_low_masks)

lemma prefix_octet:
  assumes "prefix_ok bits msk" "unat x \<le> unat (max_prefix bits)"
  shows "(msk OR x) AND max_prefix bits = x"
proof -
  have "(0 :: nat) < 2 ^ bits" by simp
  then have "unat x < 2 ^ bits" using assms(2) unfolding prefix_and(2) [OF assms(1)] by linarith
  then have "x AND max_prefix bits = x" by (intro unat_eqI) (simp add: prefix_and(1) [OF assms(1)])
  then show ?thesis using assms(1) by (simp add: bit.conj_disj_distrib2 prefix_ok_def)
qed

lemma decode_encode_integer:
  assumes "prefix_ok bits msk" "drop c inp = encode_integer v bits msk @ rest"
  shows "decode_integer inp c bits = Some (v, c + length (encode_integer v bits msk))"
proof -
  let ?mp = "max_prefix bits"
  have mp: "unat (ucast ?mp :: u64) = unat ?mp" by (simp add: unat_ucast_up)
  show ?thesis
  proof (cases "v < ucast ?mp")
    case True
    then have v: "unat v < unat ?mp" by (simp add: word_less_nat_alt mp)
    have "unat v < 256" using v u8_less [of ?mp] by (rule less_trans)
    then have uv: "unat (ucast v :: u8) = unat v" by (simp add: unsigned_ucast_eq take_bit_nat_eq_self)
    have "inp ! c = msk OR ucast v" "c < length inp"
      using drop_Cons_nth [of c inp "msk OR ucast v" rest] assms(2) True by (simp_all add: encode_integer_def)
    moreover have "(msk OR ucast v) AND ?mp = ucast v" using v uv by (intro prefix_octet [OF assms(1)]) simp
    moreover have "(ucast v :: u8) < ?mp" using v uv by (simp add: word_less_nat_alt)
    moreover have "(ucast (ucast v :: u8) :: u64) = v" by (rule unat_eqI) (simp only: unat_ucast_up uv)
    ultimately show ?thesis using True by (simp add: decode_integer_def encode_integer_def Let_def)
  next
    case False
    have d: "c < length inp" "inp ! c = msk OR ?mp" "drop (Suc c) inp = int_tail (v - ucast ?mp) @ rest"
      using drop_Cons_nth [of c inp "msk OR ?mp"] assms(2) False by (simp_all add: encode_integer_def)
    have "(msk OR ?mp) AND ?mp = ?mp" by (intro prefix_octet [OF assms(1)]) simp
    moreover have "int_loop inp (Suc c) (ucast ?mp) 0 = Some (ucast ?mp + push_bit 0 (v - ucast ?mp), Suc c + length (int_tail (v - ucast ?mp)))"
      using d(3) unsigned_less [of "v - ucast ?mp", where ?'a = nat] by (intro int_loop_tail) simp_all
    ultimately show ?thesis using False d by (simp add: decode_integer_def encode_integer_def Let_def)
  qed
qed

lemma int_loop_bounds: "int_loop inp c r m = Some (v, c') \<Longrightarrow> c < c' \<and> c' \<le> length inp"
proof (induction inp c r m rule: int_loop.induct)
  case (1 inp c r m)
  let ?r = "r + push_bit m (ucast (inp ! c AND 0x7F))"
  have c: "c < length inp" using "1.prems" by (subst (asm) int_loop.simps) (auto split: if_splits)
  show ?case
  proof (cases "inp ! c AND 0x80 = 0 \<or> m + 7 > 63")
    case True
    then show ?thesis using "1.prems" c by (subst (asm) int_loop.simps) (auto simp: Let_def split: if_splits)
  next
    case False
    then have "int_loop inp (c + 1) ?r (m + 7) = Some (v, c')"
      using "1.prems" c by (subst (asm) int_loop.simps) (auto simp: Let_def)
    then show ?thesis using "1.IH" [OF _ refl refl] c False by fastforce
  qed
qed

lemma decode_integer_bounds: "decode_integer inp c bits = Some (v, c') \<Longrightarrow> c < c' \<and> c' \<le> length inp"
  by (auto simp: decode_integer_def Let_def split: if_splits dest: int_loop_bounds)

text \<open>The three uses of the encoder are cursor codecs.\<close>

interpretation indexed: cursor_codec "\<lambda>v. encode_integer v 7 0x80" "\<lambda>buf c. decode_integer buf c 7" "\<lambda>_. True"
  by unfold_locales (auto intro!: decode_encode_integer simp: prefix_ok_def max_prefix_vals dest: decode_integer_bounds)

interpretation str_len: cursor_codec "\<lambda>v. encode_integer v 7 0x00" "\<lambda>buf c. decode_integer buf c 7" "\<lambda>_. True"
  by unfold_locales (auto intro!: decode_encode_integer simp: prefix_ok_def max_prefix_vals dest: decode_integer_bounds)

interpretation name_idx: cursor_codec "\<lambda>v. encode_integer v 4 0x00" "\<lambda>buf c. decode_integer buf c 4" "\<lambda>_. True"
  by unfold_locales (auto intro!: decode_encode_integer simp: prefix_ok_def max_prefix_vals dest: decode_integer_bounds)

section \<open>Strings\<close>

lemma drop_nth_append: "drop c inp = xs @ rest \<Longrightarrow> xs \<noteq> [] \<Longrightarrow> c < length inp \<and> inp ! c = hd xs"
  by (cases xs) (auto dest: drop_Cons_nth)

lemma encode_integer_hd: "hd (encode_integer v bits msk) = msk OR (if v < ucast (max_prefix bits) then ucast v else max_prefix bits)"
  by (simp add: encode_integer_def)

text \<open>The bits above the prefix are those of the mask.\<close>

lemma prefix_high:
  assumes "y AND max_prefix bits = y" "max_prefix bits AND k = 0"
  shows "(msk OR y) AND k = msk AND k"
proof -
  have "y AND k = y AND (max_prefix bits AND k)" using assms(1) by (metis and.assoc)
  then have "y AND k = 0" using assms(2) by simp
  then show ?thesis by (simp add: bit.conj_disj_distrib2)
qed

lemma encode_integer_high:
  assumes "prefix_ok bits msk" "max_prefix bits AND k = 0"
  shows "hd (encode_integer v bits msk) AND k = msk AND k"
proof -
  let ?y = "if v < ucast (max_prefix bits) then ucast v else max_prefix bits"
  have ok: "prefix_ok bits 0" using assms(1) by (simp add: prefix_ok_def)
  have "unat ?y \<le> unat (max_prefix bits)"
  proof (cases "v < ucast (max_prefix bits)")
    case True
    then have v: "unat v < unat (max_prefix bits)" by (simp add: word_less_nat_alt unat_ucast_up)
    then have "unat v < 256" using u8_less by (rule less_trans)
    then show ?thesis using True v by (simp add: unsigned_ucast_eq take_bit_nat_eq_self)
  qed simp
  then have "?y AND max_prefix bits = ?y" using prefix_octet [OF ok, of ?y] by simp
  then show ?thesis unfolding encode_integer_hd using assms(2) by (rule prefix_high)
qed

lemma encode_integer_nonempty [simp]: "encode_integer v bits msk \<noteq> []"
  by (simp add: encode_integer_def)

lemma drop_shift: "drop c inp = xs @ rest \<Longrightarrow> drop (c + length xs) inp = rest"
  by (metis add.commute append_eq_conv_conj drop_drop)

lemma decode_encode_string:
  assumes "drop c inp = encode_string s @ rest" "length inp < SIZE_MOD"
  shows "decode_string inp c = Done (s, c + length (encode_string s))"
proof -
  let ?n = "of_nat (length s) :: u64" and ?e = "encode_integer (of_nat (length s)) 7 0x00"
  have d: "drop c inp = ?e @ bytes_of s @ rest" using assms(1) by (simp add: encode_string_def)
  have c: "c < length inp" "inp ! c = hd ?e" using drop_nth_append [OF d] by simp_all
  have len: "c + length ?e + length s \<le> length inp" using arg_cong [OF d, of length] c by simp
  have n: "unat ?n = length s" using len assms(2) by (simp add: unat_of_nat SIZE_MOD_def)
  have huff: "inp ! c AND 0x80 = 0"
    using encode_integer_high [of 7 0 "0x80" ?n] c(2) by (simp add: prefix_ok_def max_prefix_vals)
  have dec: "decode_integer inp c 7 = Some (?n, c + length ?e)" by (rule str_len.dec_enc [OF TrueI d])
  have sub: "substr inp (c + length ?e) (length s) = bytes_of s" using drop_shift [OF d] by simp
  show ?thesis
    using c huff dec sub len assms(2) n by (simp add: decode_string_def Let_def encode_string_def)
qed

section \<open>The static table\<close>

lemma static_lower: "list_all (\<lambda>e. map ascii_lower (fst e) = fst e) STATIC_TABLE"
  by code_simp

lemma static_names: "list_all (\<lambda>e. fst e \<noteq> []) (tl STATIC_TABLE)"
  by code_simp

lemma static_length [simp]: "length STATIC_TABLE = 62"
  by (simp add: STATIC_TABLE_def)

lemma find_static_from_found:
  assumes "find_static_from name value es i nm = (idx, exact)"
  shows "(exact \<longrightarrow> i \<le> idx \<and> idx < i + length es \<and> is_equal (fst (es ! (idx - i))) name \<and> snd (es ! (idx - i)) = value)
    \<and> (\<not> exact \<longrightarrow> idx = nm \<or> (i \<le> idx \<and> idx < i + length es \<and> is_equal (fst (es ! (idx - i))) name))"
  using assms
proof (induction es arbitrary: i nm)
  case (Cons e es)
  obtain n v where e: "e = (n, v)" by (cases e)
  show ?case
  proof (cases "is_equal n name \<and> v = value")
    case True
    then show ?thesis using Cons.prems by (auto simp: e)
  next
    case False
    define nm' where "nm' = (if is_equal n name \<and> nm = 0 then i else nm)"
    have "find_static_from name value es (Suc i) nm' = (idx, exact)"
      using Cons.prems False by (auto simp: e nm'_def split: if_splits)
    note IH = Cons.IH [OF this]
    have shift: "Suc i \<le> idx \<Longrightarrow> (e # es) ! (idx - i) = es ! (idx - Suc i)"
      by (simp add: Suc_diff_le [of "Suc i" idx, simplified] nth_Cons split: nat.split)
    have "nm' = nm \<or> (nm' = i \<and> is_equal n name)" by (auto simp: nm'_def)
    then show ?thesis using IH shift by (auto simp: e)
  qed
qed auto

lemma find_static_found:
  assumes "find_static name value = (idx, exact)" "exact \<or> idx > 0" "map ascii_lower name = name"
  shows "0 < idx" "idx < 62" "fst (STATIC_TABLE ! idx) = name" "exact \<Longrightarrow> STATIC_TABLE ! idx = (name, value)"
proof -
  have f: "1 \<le> idx \<and> idx < 1 + length (tl STATIC_TABLE) \<and> is_equal (fst (tl STATIC_TABLE ! (idx - 1))) name"
    and v: "exact \<Longrightarrow> snd (tl STATIC_TABLE ! (idx - 1)) = value"
    using find_static_from_found [OF assms(1) [unfolded find_static_def]] assms(2) by auto
  have nth: "tl STATIC_TABLE ! (idx - 1) = STATIC_TABLE ! idx" using f nth_tl [of "idx - 1" STATIC_TABLE] by auto
  show "0 < idx" "idx < 62" using f by auto
  then have "map ascii_lower (fst (STATIC_TABLE ! idx)) = fst (STATIC_TABLE ! idx)"
    using static_lower by (simp add: list_all_length)
  then show n: "fst (STATIC_TABLE ! idx) = name" using f nth assms(3) by (simp add: is_equal_iff)
  show "exact \<Longrightarrow> STATIC_TABLE ! idx = (name, value)" using n v nth by (metis prod.collapse)
qed

section \<open>Header blocks\<close>

text \<open>The octets \<open>enc\<close> represent the field \<open>h\<close> without using the dynamic table.\<close>

definition encodes :: "bytes \<Rightarrow> header \<Rightarrow> bool" where
  "encodes enc h \<longleftrightarrow> enc \<noteq> [] \<and> (\<forall>block c rest dt. length block < SIZE_MOD \<longrightarrow> drop c block = enc @ rest \<longrightarrow>
     decode_field block c dt = Done (dt, Some h, c + length enc))"

lemma lookup_static: "0 < idx \<Longrightarrow> idx < 62 \<Longrightarrow> lookup_index (of_nat idx) dt = STATIC_TABLE ! idx \<and> fst (STATIC_TABLE ! idx) \<noteq> []"
proof -
  assume i: "0 < idx" "idx < 62"
  have u: "unat (of_nat idx :: u64) = idx" using i by (simp add: unat_of_nat)
  then have "(of_nat idx :: u64) \<noteq> 0" using i by (metis less_irrefl unat_0)
  moreover have "tl STATIC_TABLE ! (idx - 1) = STATIC_TABLE ! idx" using i nth_tl [of "idx - 1" STATIC_TABLE] by auto
  moreover have "fst (tl STATIC_TABLE ! (idx - 1)) \<noteq> []" using i static_names by (auto simp: list_all_length)
  ultimately show ?thesis using i u by (simp add: lookup_index_def)
qed

lemma literal_bits: "prefix_ok 4 0" "max_prefix 4 AND 0x80 = 0" "max_prefix 4 AND 0x40 = 0" "max_prefix 4 AND 0x20 = 0"
  by (simp_all add: prefix_ok_def max_prefix_vals)

lemma encodes_indexed:
  assumes "0 < idx" "idx < 62"
  shows "encodes (encode_integer (of_nat idx) 7 0x80) (STATIC_TABLE ! idx)"
proof -
  let ?e = "encode_integer (of_nat idx) 7 0x80"
  have "decode_field block c dt = Done (dt, Some (STATIC_TABLE ! idx), c + length ?e)"
    if d: "drop c block = ?e @ rest" for block c rest dt
  proof -
    have "block ! c AND 0x80 = 0x80"
      using drop_nth_append [OF d] encode_integer_high [of 7 "0x80" "0x80" "of_nat idx"]
      by (simp add: prefix_ok_def max_prefix_vals)
    moreover have "decode_integer block c 7 = Some (of_nat idx, c + length ?e)" by (rule indexed.dec_enc [OF TrueI d])
    ultimately show ?thesis using lookup_static [OF assms] by (simp add: decode_field_def Let_def)
  qed
  then show ?thesis by (simp add: encodes_def)
qed

lemma literal_first:
  assumes "drop c block = encode_integer v 4 0x00 @ rest"
  shows "decode_field block c dt = (case decode_literal block c 4 dt of
      Done (e, cursor) \<Rightarrow> Done (dt, Some e, cursor) | Refused \<Rightarrow> Refused | Undefined \<Rightarrow> Undefined)"
proof -
  have "block ! c AND 0x80 = 0" "block ! c AND 0x40 = 0" "block ! c AND 0x20 = 0"
    using drop_nth_append [OF assms] encode_integer_high [OF literal_bits(1,2), of v] encode_integer_high [OF literal_bits(1,3), of v]
      encode_integer_high [OF literal_bits(1,4), of v] by simp_all
  then show ?thesis by (simp add: decode_field_def Let_def)
qed

lemma encodes_literal:
  assumes "0 < idx" "idx < 62"
  shows "encodes (encode_integer (of_nat idx) 4 0x00 @ encode_string v) (fst (STATIC_TABLE ! idx), v)"
proof -
  let ?e = "encode_integer (of_nat idx) 4 0x00"
  have "decode_field block c dt = Done (dt, Some (fst (STATIC_TABLE ! idx), v), c + length (?e @ encode_string v))"
    if l: "length block < SIZE_MOD" and d: "drop c block = (?e @ encode_string v) @ rest" for block c rest dt
  proof -
    have d': "drop c block = ?e @ encode_string v @ rest" using d by simp
    have "(of_nat idx :: u64) \<noteq> 0" using lookup_static [OF assms, of dt] by (metis fst_conv lookup_index_def)
    then have "decode_name block c 4 dt = Done (fst (STATIC_TABLE ! idx), c + length ?e)"
      using name_idx.dec_enc [OF TrueI d'] lookup_static [OF assms, of dt] by (simp add: decode_name_def Let_def)
    moreover have "decode_string block (c + length ?e) = Done (v, c + length ?e + length (encode_string v))"
      by (rule decode_encode_string [OF drop_shift [OF d'] l])
    ultimately show ?thesis using literal_first [OF d'] by (simp add: decode_literal_def)
  qed
  then show ?thesis by (simp add: encodes_def)
qed

lemma encodes_new:
  "encodes (encode_integer 0 4 0x00 @ encode_string n @ encode_string v) (n, v)"
proof -
  let ?e = "encode_integer 0 4 0x00"
  have "decode_field block c dt = Done (dt, Some (n, v), c + length (?e @ encode_string n @ encode_string v))"
    if l: "length block < SIZE_MOD" and d: "drop c block = (?e @ encode_string n @ encode_string v) @ rest" for block c rest dt
  proof -
    have d': "drop c block = ?e @ encode_string n @ encode_string v @ rest" using d by simp
    have n: "decode_string block (c + length ?e) = Done (n, c + length ?e + length (encode_string n))"
      by (rule decode_encode_string [OF drop_shift [OF d'] l])
    then have "decode_name block c 4 dt = Done (n, c + length ?e + length (encode_string n))"
      using name_idx.dec_enc [OF TrueI d'] by (simp add: decode_name_def)
    moreover have "decode_string block (c + length ?e + length (encode_string n)) =
        Done (v, c + length ?e + length (encode_string n) + length (encode_string v))"
      by (rule decode_encode_string [OF drop_shift [OF drop_shift [OF d']] l])
    ultimately show ?thesis using literal_first [OF d'] by (simp add: decode_literal_def)
  qed
  then show ?thesis by (simp add: encodes_def)
qed

lemma encodes_field:
  assumes "map ascii_lower (fst h) = fst h"
  shows "encodes (encode_field h) h"
proof -
  obtain idx exact where f: "find_static (fst h) (snd h) = (idx, exact)" by (cases "find_static (fst h) (snd h)")
  show ?thesis
  proof (cases "exact \<or> idx > 0")
    case True
    note s = find_static_found [OF f True assms]
    show ?thesis
      using encodes_indexed [OF s(1,2)] encodes_literal [OF s(1,2), of "snd h"] s(3,4) True
      by (auto simp: encode_field_def f)
  next
    case False
    then show ?thesis using encodes_new [of "fst h" "snd h"] by (simp add: encode_field_def f)
  qed
qed

lemma encodes_indexed_or:
  assumes "0 < s" "s < 62" "fst (STATIC_TABLE ! s) = name" "map ascii_lower name = name"
  shows "encodes (encode_indexed_or s name v) (name, v)"
proof -
  obtain idx exact where f: "find_static name v = (idx, exact)" by (cases "find_static name v")
  show ?thesis
  proof (cases exact)
    case True
    then show ?thesis
      using find_static_found [OF f _ assms(4)] encodes_indexed [of idx] by (simp add: encode_indexed_or_def f)
  next
    case False
    then show ?thesis using encodes_literal [OF assms(1,2), of v] assms(3) by (simp add: encode_indexed_or_def f)
  qed
qed

definition list_size :: "header list \<Rightarrow> nat" where
  "list_size hs = sum_list (map entry_size hs)"

lemma decode_loop_encoded:
  assumes "list_all2 encodes es hs" "drop c block = concat es" "length block < SIZE_MOD"
    "max_list = 0 \<or> lst + list_size hs \<le> max_list"
  shows "decode_loop max_list block c lst dt out = Some (Blk_ok, dt, out @ hs)"
  using assms
proof (induction es hs arbitrary: c lst out rule: list_all2_induct)
  case Nil
  then show ?case by (subst decode_loop.simps) (auto simp: over_limit_def list_size_def)
next
  case (Cons e es h hs)
  have d: "drop c block = e @ concat es" using Cons.prems(1) by simp
  have f: "decode_field block c dt = Done (dt, Some h, c + length e)" and ne: "e \<noteq> []"
    using Cons.hyps(1) d Cons.prems(2) by (auto simp: encodes_def)
  have c: "c < length block" using drop_nth_append [OF d ne] by simp
  have nl: "\<not> over_limit max_list lst" using Cons.prems(3) by (auto simp: over_limit_def)
  have "decode_loop max_list block (c + length e) (lst + entry_size h) dt (out @ [h]) = Some (Blk_ok, dt, (out @ [h]) @ hs)"
    using Cons.prems drop_shift [OF d] by (intro Cons.IH) (auto simp: list_size_def)
  then show ?case using f c nl by (subst decode_loop.simps) simp
qed

text \<open>The fields that the two encoders write.\<close>

definition request_fields :: "http_method \<Rightarrow> string \<Rightarrow> string \<Rightarrow> string \<Rightarrow> header list \<Rightarrow> header list" where
  "request_fields m trg scheme authority hs =
     [('':method'', method_to_string m), ('':scheme'', if scheme = [] then ''https'' else scheme),
      ('':path'', if trg = [] then ''/'' else trg)]
     @ (if authority = [] then [] else [('':authority'', authority)])
     @ map lower_name (filter (\<lambda>h. \<not> is_pseudo h) hs)"

definition response_fields :: "nat \<Rightarrow> header list \<Rightarrow> header list" where
  "response_fields status hs = ('':status'', to_chars 10 status) # map lower_name (filter (\<lambda>h. \<not> is_pseudo h) hs)"

lemma or_32: "list_all (\<lambda>n. or n 0x20 = n + (32 :: nat)) [65..<91]"
  by (simp add: upt_conv_Cons)

lemma ascii_lower_idem: "ascii_lower (ascii_lower c) = ascii_lower c"
proof (cases "65 \<le> code c \<and> code c \<le> (90 :: nat)")
  case True
  have "code c \<in> set [65..<91]" using True unfolding set_upt by simp
  then have "or (code c) 0x20 = code c + (32 :: nat)" using or_32 by (metis (mono_tags, lifting) list_all_iff)
  then have l: "ascii_lower c = char_of (code c + 32 :: nat)" using True by (simp add: ascii_lower_def)
  have "code (char_of (code c + 32 :: nat)) = code c + (32 :: nat)" using True by (simp add: of_char_of)
  then show ?thesis using True unfolding l by (simp add: ascii_lower_def)
next
  case False
  then have "ascii_lower c = c" by (auto simp: ascii_lower_def)
  then show ?thesis by simp
qed

lemma encodes_fields: "list_all2 encodes (map (\<lambda>h. encode_field (lower_name h)) hs) (map lower_name hs)"
  by (induction hs) (simp_all add: encodes_field lower_name_def ascii_lower_idem)

lemma static_at: "STATIC_TABLE ! 1 = ('':authority'', [])" "STATIC_TABLE ! 4 = ('':path'', ''/'')"
  "STATIC_TABLE ! 5 = ('':path'', ''/index.html'')" "STATIC_TABLE ! 6 = ('':scheme'', ''http'')" "STATIC_TABLE ! 8 = ('':status'', ''200'')"
  by (simp_all add: STATIC_TABLE_def)

lemma encodes_path: "encodes (encode_path trg) ('':path'', if trg = [] then ''/'' else trg)"
  using encodes_indexed [of 4] encodes_indexed [of 5] encodes_literal [of 4 trg]
  by (auto simp: encode_path_def static_at Let_def)

lemma decode_request_block:
  assumes "length (encode_request_headers m trg scheme authority hs) < SIZE_MOD"
    "max_list = 0 \<or> list_size (request_fields m trg scheme authority hs) \<le> max_list"
  shows "decode_header_block max_list (encode_request_headers m trg scheme authority hs) dt out
    = Some (Blk_ok, dt, out @ request_fields m trg scheme authority hs)"
proof -
  let ?s = "if scheme = [] then ''https'' else scheme"
  let ?es = "[encode_field ('':method'', method_to_string m), encode_scheme scheme, encode_path trg]
      @ (if authority = [] then [] else [encode_authority authority])
      @ map (\<lambda>h. encode_field (lower_name h)) (filter (\<lambda>h. \<not> is_pseudo h) hs)"
  have "encodes (encode_scheme scheme) ('':scheme'', ?s)"
    unfolding encode_scheme_def by (rule encodes_indexed_or) (simp_all add: static_at ascii_lower_def)
  moreover have "authority \<noteq> [] \<Longrightarrow> encodes (encode_authority authority) ('':authority'', authority)"
    using encodes_literal [of 1 authority] by (simp add: encode_authority_def static_at [simplified])
  moreover have "encodes (encode_field ('':method'', method_to_string m)) ('':method'', method_to_string m)"
    by (rule encodes_field) (simp add: ascii_lower_def)
  ultimately have "list_all2 encodes ?es (request_fields m trg scheme authority hs)"
    using encodes_path [of trg] encodes_fields [of "filter (\<lambda>h. \<not> is_pseudo h) hs"]
    unfolding request_fields_def by (auto intro!: list_all2_appendI)
  moreover have "concat ?es = encode_request_headers m trg scheme authority hs"
    by (simp add: encode_request_headers_def encode_fields_def encode_authority_def)
  ultimately show ?thesis
    unfolding decode_header_block_def using assms by (intro decode_loop_encoded [of ?es]) simp_all
qed

lemma decode_response_block:
  assumes "length (encode_response_headers status hs) < SIZE_MOD"
    "max_list = 0 \<or> list_size (response_fields status hs) \<le> max_list"
  shows "decode_header_block max_list (encode_response_headers status hs) dt out = Some (Blk_ok, dt, out @ response_fields status hs)"
proof -
  let ?es = "encode_indexed_or 8 '':status'' (to_chars 10 status) # map (\<lambda>h. encode_field (lower_name h)) (filter (\<lambda>h. \<not> is_pseudo h) hs)"
  have "encodes (encode_indexed_or 8 '':status'' (to_chars 10 status)) ('':status'', to_chars 10 status)"
    by (rule encodes_indexed_or) (simp_all add: static_at ascii_lower_def)
  then have "list_all2 encodes ?es (response_fields status hs)"
    using encodes_fields [of "filter (\<lambda>h. \<not> is_pseudo h) hs"] by (simp add: response_fields_def)
  moreover have "concat ?es = encode_response_headers status hs"
    by (simp add: encode_response_headers_def encode_fields_def)
  ultimately show ?thesis
    unfolding decode_header_block_def using assms by (intro decode_loop_encoded [of ?es]) simp_all
qed

section \<open>The dynamic table\<close>

text \<open>The newest entries that fit into a capacity.\<close>

fun window :: "nat \<Rightarrow> header list \<Rightarrow> header list" where
  "window cap [] = []"
| "window cap (e # es) = (if entry_size e \<le> cap then e # window (cap - entry_size e) es else [])"

definition dt_inv :: "dynamic_table \<Rightarrow> bool" where
  "dt_inv t \<longleftrightarrow> dt_current_size t = list_size (dt_entries t) \<and> dt_current_size t \<le> dt_max_capacity t"

lemma list_size_simps [simp]: "list_size [] = 0" "list_size (e # es) = entry_size e + list_size es"
  "list_size (es @ fs) = list_size es + list_size fs"
  by (simp_all add: list_size_def)

lemma window_snoc: "cap < list_size (es @ [e]) \<Longrightarrow> window cap (es @ [e]) = window cap es"
  by (induction es arbitrary: cap) auto

lemma window_all: "list_size es \<le> cap \<Longrightarrow> window cap es = es"
  by (induction es arbitrary: cap) auto

lemma window_size: "list_size (window cap es) \<le> cap"
proof (induction es arbitrary: cap)
  case (Cons e es)
  show ?case using Cons.IH [of "cap - entry_size e"] by (simp, linarith)
qed simp

lemma window_prefix: "\<exists>n. window cap es = take n es"
proof (induction es arbitrary: cap)
  case (Cons e es)
  then obtain n where "window (cap - entry_size e) es = take n es" by blast
  then show ?case by (cases "entry_size e \<le> cap") (auto intro: exI [of _ "Suc n"] exI [of _ 0])
qed simp

lemma evict_window:
  assumes "dt_current_size t = list_size (dt_entries t)"
  shows "evict_to_fit t = t\<lparr>dt_entries := window (dt_max_capacity t) (dt_entries t),
           dt_current_size := list_size (window (dt_max_capacity t) (dt_entries t))\<rparr>"
  using assms
proof (induction t rule: evict_to_fit.induct)
  case (1 t)
  show ?case
  proof (cases "dt_current_size t > dt_max_capacity t \<and> dt_entries t \<noteq> []")
    case True
    then obtain ys y where ys: "dt_entries t = ys @ [y]" by (cases "dt_entries t" rule: rev_cases) auto
    let ?t = "t\<lparr>dt_current_size := dt_current_size t - entry_size (last (dt_entries t)), dt_entries := butlast (dt_entries t)\<rparr>"
    have "evict_to_fit ?t = ?t\<lparr>dt_entries := window (dt_max_capacity ?t) (dt_entries ?t),
           dt_current_size := list_size (window (dt_max_capacity ?t) (dt_entries ?t))\<rparr>"
      using "1.prems" ys by (intro "1.IH" [OF True]) simp
    moreover have "evict_to_fit t = evict_to_fit ?t" using True by (subst evict_to_fit.simps) simp
    ultimately show ?thesis using True "1.prems" window_snoc [of "dt_max_capacity t" ys y] ys by simp
  next
    case False
    then have "evict_to_fit t = t" by (simp only: evict_to_fit.simps [of t] if_False)
    moreover have "window (dt_max_capacity t) (dt_entries t) = dt_entries t"
      using False "1.prems" by (cases "dt_entries t = []") (auto intro!: window_all)
    ultimately show ?thesis using "1.prems" by simp
  qed
qed

datatype table_op = Ins string string | Cap nat

fun dt_apply :: "table_op \<Rightarrow> dynamic_table \<Rightarrow> dynamic_table" where
  "dt_apply (Ins n v) t = dt_insert n v t"
| "dt_apply (Cap c) t = dt_set_max_capacity c t"

text \<open>The specification: a table is a capacity and its entries, newest first.\<close>

fun spec_apply :: "table_op \<Rightarrow> nat \<times> header list \<Rightarrow> nat \<times> header list" where
  "spec_apply (Ins n v) (cap, es) = (cap, window cap ((n, v) # es))"
| "spec_apply (Cap c) (cap, es) = (c, window c es)"

definition dt_abs :: "dynamic_table \<Rightarrow> nat \<times> header list" where
  "dt_abs t = (dt_max_capacity t, dt_entries t)"

lemma dt_insert_window: "dt_inv t \<Longrightarrow> dt_inv (dt_insert n v t) \<and> dt_entries (dt_insert n v t) = window (dt_max_capacity t) ((n, v) # dt_entries t)
    \<and> dt_max_capacity (dt_insert n v t) = dt_max_capacity t"
  using window_size [of "dt_max_capacity t" "(n, v) # dt_entries t"]
  by (cases "entry_size (n, v) \<le> dt_max_capacity t") (simp_all add: dt_insert_def Let_def evict_window dt_inv_def)

lemma dt_cap_window: "dt_inv t \<Longrightarrow> dt_inv (dt_set_max_capacity c t) \<and> dt_entries (dt_set_max_capacity c t) = window c (dt_entries t)
    \<and> dt_max_capacity (dt_set_max_capacity c t) = c"
  using window_size [of c "dt_entries t"] by (simp add: dt_set_max_capacity_def evict_window dt_inv_def)

text \<open>
  C30. The dynamic table.  After any sequence of insertions and capacity changes the table holds exactly the newest
  entries that fit into its capacity (an insertion that does not fit at all empties it), the size it keeps is the sum
  of the entry sizes and never exceeds the capacity, and index \<open>i\<close> is the \<open>i\<close>-th newest entry.
\<close>

theorem hpack_table_window:
  "dt_abs (fold dt_apply ops (dynamic_table_new cap)) = fold spec_apply ops (cap, []) \<and>
   dt_current_size (fold dt_apply ops (dynamic_table_new cap)) = list_size (dt_entries (fold dt_apply ops (dynamic_table_new cap))) \<and>
   dt_current_size (fold dt_apply ops (dynamic_table_new cap)) \<le> dt_max_capacity (fold dt_apply ops (dynamic_table_new cap)) \<and>
   (i < length (dt_entries (fold dt_apply ops (dynamic_table_new cap))) \<longrightarrow>
      dt_get i (fold dt_apply ops (dynamic_table_new cap)) = Some (snd (fold spec_apply ops (cap, [])) ! i))"
proof -
  have step: "dt_inv (dt_apply op t) \<and> dt_abs (dt_apply op t) = spec_apply op (dt_abs t)" if "dt_inv t" for op t
    using dt_insert_window [OF that] dt_cap_window [OF that] by (cases op) (simp_all add: dt_abs_def)
  have "dt_inv (fold dt_apply ops t) \<and> dt_abs (fold dt_apply ops t) = fold spec_apply ops (dt_abs t)" if "dt_inv t" for t
    using that by (induction ops arbitrary: t) (simp_all add: step)
  moreover have "dt_inv (dynamic_table_new cap)" "dt_abs (dynamic_table_new cap) = (cap, [])"
    by (simp_all add: dt_inv_def dynamic_table_new_def dt_abs_def)
  ultimately have t: "dt_inv (fold dt_apply ops (dynamic_table_new cap))"
    "dt_abs (fold dt_apply ops (dynamic_table_new cap)) = fold spec_apply ops (cap, [])" by metis+
  then have "snd (fold spec_apply ops (cap, [])) = dt_entries (fold dt_apply ops (dynamic_table_new cap))"
    by (metis dt_abs_def snd_conv)
  then show ?thesis using t by (simp add: dt_inv_def dt_get_def)
qed

theorem hpack_table_window_witness:
  "dt_get 0 (fold dt_apply [Ins ''a'' ''b'', Ins ''c'' ''d''] (dynamic_table_new 40)) = Some (''c'', ''d'')"
proof -
  have "dt_entries (fold dt_apply [Ins ''a'' ''b'', Ins ''c'' ''d''] (dynamic_table_new 40)) = [(''c'', ''d'')]"
    by (simp add: dynamic_table_new_def dt_insert_def entry_size_def evict_to_fit.simps)
  then show ?thesis using hpack_table_window [of "[Ins ''a'' ''b'', Ins ''c'' ''d'']" 40 0]
    by (simp add: entry_size_def)
qed

section \<open>Termination\<close>

lemma decode_field_progress: "decode_field block c dt = Done (dt', None, c') \<Longrightarrow> c < c' \<and> c' \<le> length block"
  by (auto simp: decode_field_def Let_def split: if_splits option.splits outcome.splits prod.splits dest: decode_integer_bounds)

lemma decode_loop_returns:
  assumes "max_list \<noteq> 0"
  shows "\<exists>r. decode_loop max_list block c lst dt out = Some r"
proof (induction "(max_list + 1 - lst, length block - c)" arbitrary: c lst dt out rule: wf_induct_rule [OF wf_lex_prod [OF wf_less wf_less]])
  case (1 c lst dt out)
  show ?case
  proof (cases "over_limit max_list lst \<or> \<not> c < length block \<or> decode_field block c dt = Refused \<or> decode_field block c dt = Undefined")
    case True
    then show ?thesis by (subst decode_loop.simps) auto
  next
    case False
    then obtain dt' f c' where f: "decode_field block c dt = Done (dt', f, c')"
      by (cases "decode_field block c dt") auto
    have lst: "lst \<le> max_list" using False assms by (simp add: over_limit_def)
    show ?thesis
    proof (cases f)
      case None
      then have "\<exists>r. decode_loop max_list block c' lst dt' out = Some r"
        using decode_field_progress [of block c dt dt' c'] f False by (intro 1) auto
      then show ?thesis using False f None by (subst decode_loop.simps) simp
    next
      case (Some e)
      have "\<exists>r. decode_loop max_list block c' (lst + entry_size e) dt' (out @ [e]) = Some r"
        using lst by (intro 1) (auto simp: entry_size_def)
      then show ?thesis using False f Some by (subst decode_loop.simps) simp
    qed
  qed
qed


text \<open>
  With a cap on the decoded list, as the server sets it, the decoder returns for every block, whatever lengths
  the peer announces: a length that wraps the cursor around can send it back, but each round adds to the list.
\<close>

theorem hpack_decoder_returns:
  assumes "max_list \<noteq> 0"
  shows "\<exists>r. decode_header_block max_list block dt out = Some r"
  unfolding decode_header_block_def using assms by (rule decode_loop_returns)

text \<open>A field whose value announces \<open>2\<^sup>6\<^sup>4 - 12\<close> octets.\<close>

definition hostile_block :: bytes where
  "hostile_block = encode_integer 4 4 0x00 @ encode_integer (- 12) 7 0x00"

lemma hostile_octets: "hostile_block = [0x04, 0x7F, 0xF5, 0xFE, 0xFF, 0xFF, 0xFF, 0xFF, 0xFF, 0xFF, 0xFF, 0x01]"
  by code_simp

theorem hpack_decoder_returns_witness:
  "\<exists>r. decode_header_block 65536 hostile_block (dynamic_table_new 4096) [] = Some r"
  using hpack_decoder_returns [of 65536] by simp

lemma hostile_field: "decode_field hostile_block 0 dt = Done (dt, Some ('':path'', []), 0)"
proof -
  let ?b = hostile_block and ?e = "encode_integer 4 4 0x00 :: bytes" and ?l = "encode_integer (- 12) 7 0x00 :: bytes"
  have d: "drop 0 ?b = ?e @ ?l" by (simp add: hostile_block_def)
  have len: "length ?e = 1" "length ?b = 12" by (simp_all add: hostile_octets) (simp add: encode_integer_def max_prefix_def)
  then have "length ?l = 11" using arg_cong [OF d, of length] by simp
  note len = len this
  have n: "decode_name ?b 0 4 dt = Done ('':path'', 1)"
    using name_idx.dec_enc [OF TrueI d] len(1) by (simp add: decode_name_def lookup_index_def static_at Let_def)
  have i: "decode_integer ?b 1 7 = Some (- 12, 12)"
    using str_len.dec_enc [OF TrueI, of 1 ?b "- 12" "[]"] d len by (simp add: hostile_block_def)
  have "unat (- 12 :: u64) = 2 ^ 64 - 12" by simp
  then have e: "(12 + unat (- 12 :: u64)) mod SIZE_MOD = 0" by (simp add: SIZE_MOD_def)
  have b1: "?b ! 1 AND 0x80 = 0" by (simp add: hostile_octets)
  have "decode_string ?b 1 = Done ([], 0)"
    using b1 len(2) unfolding decode_string_def Let_def i option.case prod.case e by (simp add: str_of_def)
  then have "decode_literal ?b 0 4 dt = Done (('':path'', []), 0)" using n by (simp add: decode_literal_def)
  then show ?thesis using literal_first [OF d] by simp
qed

lemma hostile_loop: "decode_loop 0 hostile_block 0 lst dt out = None"
proof (rule ccontr)
  assume "decode_loop 0 hostile_block 0 lst dt out \<noteq> None"
  then obtain r where "decode_loop 0 hostile_block 0 lst dt out = Some r" by auto
  then have "\<not> ((0 :: nat) = 0 \<and> hostile_block = hostile_block \<and> (0 :: nat) = 0)"
  proof (rule decode_loop.raw_induct [where P = "\<lambda>mx b c l d ou r. \<not> (mx = 0 \<and> b = hostile_block \<and> c = 0)", rotated])
    fix decode_loop :: "nat \<Rightarrow> bytes \<Rightarrow> nat \<Rightarrow> nat \<Rightarrow> dynamic_table \<Rightarrow> header list \<Rightarrow> (block_status \<times> dynamic_table \<times> header list) option"
      and mx b c l d ou r
    assume IH: "\<And>mx b c l d ou r. decode_loop mx b c l d ou = Some r \<Longrightarrow> \<not> (mx = 0 \<and> b = hostile_block \<and> c = 0)"
    assume step: "(if over_limit mx l then Some (Blk_limit, d, ou)
      else if \<not> c < length b then Some (Blk_ok, d, ou)
      else case decode_field b c d of
             Refused \<Rightarrow> Some (Blk_error, d, ou)
           | Undefined \<Rightarrow> Some (Blk_undefined, d, ou)
           | Done (dt, f, cursor) \<Rightarrow>
               (case f of
                  None \<Rightarrow> decode_loop mx b cursor l dt ou
                | Some e \<Rightarrow> decode_loop mx b cursor (l + entry_size e) dt (ou @ [e]))) = Some r"
    show "\<not> (mx = 0 \<and> b = hostile_block \<and> c = 0)"
    proof
      assume a: "mx = 0 \<and> b = hostile_block \<and> c = 0"
      have "length hostile_block = 12" by (simp add: hostile_octets)
      then have "decode_loop 0 hostile_block 0 (l + entry_size ('':path'', [])) d (ou @ [('':path'', [])]) = Some r"
        using step a by (simp add: hostile_field over_limit_def)
      from IH [OF this] show False by simp
    qed
  qed
  then show False by simp
qed

text \<open>
  C31. Without a cap, as the HTTP client of the repository uses the decoder, twelve octets make it run forever: the
  length \<open>2\<^sup>6\<^sup>4 - 12\<close> passes the bounds check because its sum with the cursor wraps around to zero, and the decoder
  starts the block again, appending one more field in every round.
\<close>

theorem hpack_unlimited_diverges: "decode_header_block 0 hostile_block dt out = None"
  unfolding decode_header_block_def by (rule hostile_loop)

end
