(* ===== verification/Http2_Proofs.thy ===== *)
theory Http2_Proofs
  imports Http2_Codec Hpack_Proofs Http1_Proofs
begin

unbundle bit_operations_syntax

text \<open>
  Correctness of the HTTP/2 codec: frames, the round trips of requests and responses, the request that the session
  rebuilds for the parser, and that the parsers return on every buffer.
\<close>

section \<open>Frames\<close>

lemma u8_lt: "256 \<le> n \<Longrightarrow> unat (b :: u8) < n"
  using u8_less [of b] by linarith

lemma unat_3_octets:
  "unat (push_bit 16 (ucast (a :: u8)) OR push_bit 8 (ucast (b :: u8)) OR ucast (c :: u8) :: u32) = be_nat [a, b, c]"
proof -
  have bc: "unat (push_bit 8 (ucast b) OR ucast c :: u32) = unat b * 256 + unat c"
    by (subst unat_push_or) (simp_all add: unat_ucast_up u8_lt)
  have "unat b * 256 + unat c < 2 ^ 16" using u8_le [of b] u8_less [of c] unfolding power_numeral by (simp del: u8_le u8_less)
  then show ?thesis by (subst unat_push_or) (simp_all add: unat_ucast_up bc be_nat_def u8_lt)
qed

lemma unat_4_octets:
  assumes "unat x < 256"
  shows "unat (push_bit 24 x OR push_bit 16 (ucast (a :: u8)) OR push_bit 8 (ucast (b :: u8)) OR ucast (c :: u8) :: u32)
    = unat x * 2 ^ 24 + be_nat [a, b, c]"
proof -
  have "unat (push_bit 16 (ucast a) OR push_bit 8 (ucast b) OR ucast c :: u32) < 2 ^ 24"
    using be_nat_less [of "[a, b, c]"] by (simp add: unat_3_octets)
  then show ?thesis using assms by (subst unat_push_or) (simp_all add: unat_3_octets)
qed

definition h2_frame_ok :: "h2_frame_header \<Rightarrow> bool" where
  "h2_frame_ok hdr \<longleftrightarrow> unat (f_length hdr) < 2 ^ 24 \<and> unat (f_stream_id hdr) < 2 ^ 31"

lemma pack_octets:
  "pack_frame_header hdr = octets 3 (f_length hdr) @ [f_type hdr, f_flags hdr] @ octets 4 (f_stream_id hdr AND 0x7FFFFFFF)"
  by (simp add: pack_frame_header_def octets_numeral octets_Suc Let_def)

lemma length_pack [simp]: "length (pack_frame_header hdr) = 9"
  by (simp add: pack_octets)

lemma unat_and_31: "unat (w AND 0x7FFFFFFF :: u32) = unat w mod 2 ^ 31"
proof -
  have "(0x7FFFFFFF :: u32) = mask 31" by (simp add: mask_eq_exp_minus_1)
  then show ?thesis by (simp only: take_bit_eq_mask [symmetric] unat_take_bit)
qed

lemma unpack_pack:
  assumes "h2_frame_ok hdr"
  shows "unpack_frame_header (pack_frame_header hdr @ rest) = Some hdr"
proof -
  let ?l = "f_length hdr" and ?s = "f_stream_id hdr AND 0x7FFFFFFF"
  have s: "?s = f_stream_id hdr" using assms by (intro unat_eqI) (simp add: unat_and_31 h2_frame_ok_def)
  have "be_nat (octets 3 ?l) = unat ?l" using assms by (simp add: be_nat_octets h2_frame_ok_def)
  then have l: "push_bit 16 (ucast (octet ?l 16)) OR push_bit 8 (ucast (octet ?l 8)) OR ucast (octet ?l 0) = ?l"
    by (intro unat_eqI) (simp add: unat_3_octets octets_numeral octets_Suc)
  have n: "be_nat (octets 4 ?s) = unat ?s" using assms by (simp add: be_nat_octets s h2_frame_ok_def)
  have b: "unat (ucast (octet ?s 24) AND 0x7F :: u32) = unat (octet ?s 24)"
  proof -
    have "unat (f_stream_id hdr) div 2 ^ 24 < 128" using assms by (simp add: h2_frame_ok_def less_mult_imp_div_less)
    then show ?thesis unfolding s by (simp add: unat_and_low_masks unat_ucast_up unat_octet)
  qed
  have "be_nat (octets 4 ?s) = unat (octet ?s 24) * 2 ^ 24 + be_nat [octet ?s 16, octet ?s 8, octet ?s 0]"
    by (simp add: octets_numeral octets_Suc be_nat_Cons)
  then have sid: "push_bit 24 (ucast (octet ?s 24) AND 0x7F) OR push_bit 16 (ucast (octet ?s 16)) OR push_bit 8 (ucast (octet ?s 8)) OR ucast (octet ?s 0) = ?s"
    using n b by (intro unat_eqI) (subst unat_4_octets, simp_all)
  show ?thesis unfolding unpack_frame_header_def pack_frame_header_def Let_def
    using l sid s by (simp del: push_bit_and)
qed

lemma parse_frame_packed:
  assumes "h2_frame_ok hdr" "unat (f_length hdr) = length payload"
  shows "h2_parse_frame (pack_frame_header hdr @ payload @ rest) = Frame hdr payload (9 + length payload)"
  using assms by (simp add: h2_parse_frame_def unpack_pack Let_def)

lemma parse_frame_encoded:
  assumes "length payload < 2 ^ 24" "unat sid < 2 ^ 31"
  shows "h2_parse_frame (h2_encode_frame t fl sid payload @ rest)
    = Frame \<lparr>f_length = of_nat (length payload), f_stream_id = sid, f_type = t, f_flags = fl\<rparr> payload (9 + length payload)"
proof -
  have "unat (of_nat (length payload) :: u32) = length payload" using assms(1) by (simp add: unat_of_nat)
  then show ?thesis using assms unfolding h2_encode_frame_def append_assoc
    by (intro parse_frame_packed) (simp_all add: h2_frame_ok_def)
qed

lemma length_h2_frame [simp]: "length (h2_encode_frame t fl sid payload) = 9 + length payload"
  by (simp add: h2_encode_frame_def)

lemma encode_frame_fold:
  "pack_frame_header \<lparr>f_length = of_nat (length payload), f_stream_id = sid, f_type = t, f_flags = fl\<rparr> @ payload @ rest
    = h2_encode_frame t fl sid payload @ rest"
  by (simp add: h2_encode_frame_def)

lemma flag_vals:
  "has_flag f \<lparr>f_length = l, f_stream_id = s, f_type = t, f_flags = fl\<rparr> \<longleftrightarrow> fl AND f = f"
  by (simp add: has_flag_def)

text \<open>The parser and the session strip padding in the same way.\<close>

lemma headers_fragment_eq: "headers_fragment hdr payload = frame_block hdr payload"
  by (auto simp: headers_fragment_def frame_block_def Let_def)

lemma data_payload_eq: "data_payload hdr payload = frame_data hdr payload"
  by (auto simp: data_payload_def frame_data_def Let_def)

lemma frame_block_plain: "fl AND 0x08 = 0 \<Longrightarrow> fl AND 0x20 = 0 \<Longrightarrow>
    frame_block \<lparr>f_length = l, f_stream_id = s, f_type = t, f_flags = fl\<rparr> payload = Some payload"
  by (simp add: frame_block_def flag_vals)

lemma frame_data_plain: "fl AND 0x08 = 0 \<Longrightarrow> frame_data \<lparr>f_length = l, f_stream_id = s, f_type = t, f_flags = fl\<rparr> payload = Some payload"
  by (simp add: frame_data_def flag_vals)

section \<open>The frame loop\<close>

text \<open>One DATA frame and one HEADERS frame at the cursor.\<close>

lemma frame_loop_data:
  assumes d: "drop c buffer = h2_encode_frame FT_DATA fl sid payload @ rest"
    and b: "length payload < 2 ^ 24" "unat sid < 2 ^ 31" "l_stream_id l = sid" "fl \<in> {FL_NONE, FL_END_STREAM}"
  shows "frame_loop too_large buffer c l =
    (if fl = FL_END_STREAM then Some (Leave (c + 9 + length payload) (l\<lparr>l_body := l_body l @ payload\<rparr>))
     else frame_loop too_large buffer (c + 9 + length payload) (l\<lparr>l_body := l_body l @ payload\<rparr>))"
proof -
  have c: "c < length buffer" using arg_cong [OF d, of length] by simp
  have p: "h2_parse_frame (drop c buffer)
      = Frame \<lparr>f_length = of_nat (length payload), f_stream_id = sid, f_type = FT_DATA, f_flags = fl\<rparr> payload (9 + length payload)"
    unfolding d using b(1,2) by (rule parse_frame_encoded)
  have f: "frame_data \<lparr>f_length = of_nat (length payload), f_stream_id = sid, f_type = FT_DATA, f_flags = fl\<rparr> payload = Some payload"
    using b(4) by (intro frame_data_plain) auto
  have e: "fl AND FL_END_STREAM = FL_END_STREAM \<longleftrightarrow> fl = FL_END_STREAM" using b(4) by auto
  show ?thesis
    by (subst frame_loop.simps) (simp add: c p f b(3) flag_vals e add.assoc Let_def)
qed

lemma frame_loop_headers:
  assumes d: "drop c buffer = h2_encode_frame FT_HEADERS fl sid block @ rest"
    and b: "length block < 2 ^ 24" "unat sid < 2 ^ 31" "fl \<in> {FL_END_HEADERS, FL_END_HEADERS OR FL_END_STREAM}"
    and h: "decode_header_block kDefaultMaxHeaderListSize block (l_table l) (l_decoded l) = Some (Blk_ok, dt, hs)"
  shows "frame_loop too_large buffer c l =
    (let l' = l\<lparr>l_stream_id := sid, l_table := dt, l_decoded := hs, l_received := True\<rparr> in
     if fl = FL_END_HEADERS then frame_loop too_large buffer (c + 9 + length block) l' else Some (Leave (c + 9 + length block) l'))"
proof -
  have c: "c < length buffer" using arg_cong [OF d, of length] by simp
  have p: "h2_parse_frame (drop c buffer)
      = Frame \<lparr>f_length = of_nat (length block), f_stream_id = sid, f_type = FT_HEADERS, f_flags = fl\<rparr> block (9 + length block)"
    unfolding d using b(1,2) by (rule parse_frame_encoded)
  have f: "frame_block \<lparr>f_length = of_nat (length block), f_stream_id = sid, f_type = FT_HEADERS, f_flags = fl\<rparr> block = Some block"
    using b(3) by (intro frame_block_plain) auto
  have e: "fl AND FL_END_STREAM = FL_END_STREAM \<longleftrightarrow> fl \<noteq> FL_END_HEADERS" using b(3) by auto
  show ?thesis
    by (subst frame_loop.simps) (simp add: c p f h flag_vals e add.assoc Let_def)
qed

lemma data_frames_step:
  assumes "offset < length bdy"
  shows "data_frames es sid bdy offset =
    h2_encode_frame FT_DATA (if length bdy - offset \<le> 16384 \<and> es then FL_END_STREAM else FL_NONE) sid (substr bdy offset 16384)
    @ data_frames es sid bdy (offset + min (length bdy - offset) 16384)"
proof -
  let ?n = "min (length bdy - offset) 16384"
  have s: "substr bdy offset ?n = substr bdy offset 16384" "length (substr bdy offset ?n) = ?n" by (simp_all add: min_def)
  have last: "offset + ?n = length bdy \<longleftrightarrow> length bdy - offset \<le> 16384" using assms by auto
  show ?thesis using assms s last
    by (subst data_frames.simps) (simp add: Let_def h2_encode_frame_def min.commute)
qed

lemma frame_loop_body:
  assumes "drop c buffer = data_frames es sid bdy offset @ rest" "unat sid < 2 ^ 31" "l_stream_id l = sid" "offset < length bdy"
  shows "frame_loop too_large buffer c l =
    (let c' = c + length (data_frames es sid bdy offset); l' = l\<lparr>l_body := l_body l @ drop offset bdy\<rparr> in
     if es then Some (Leave c' l') else frame_loop too_large buffer c' l')"
  using assms
proof (induction es sid bdy offset arbitrary: c l rule: data_frames.induct)
  case (1 es sid bdy offset)
  let ?p = "substr bdy offset 16384" and ?o = "offset + min (length bdy - offset) 16384"
  let ?l = "l\<lparr>l_body := l_body l @ ?p\<rparr>" and ?c = "c + 9 + length ?p"
  let ?fl = "if length bdy - offset \<le> 16384 \<and> es then FL_END_STREAM else FL_NONE"
  note st = data_frames_step [OF "1.prems"(4), of es sid]
  have d: "drop c buffer = h2_encode_frame FT_DATA ?fl sid ?p @ data_frames es sid bdy ?o @ rest"
    using "1.prems"(1) st by simp
  have one: "frame_loop too_large buffer c l
      = (if ?fl = FL_END_STREAM then Some (Leave ?c ?l) else frame_loop too_large buffer ?c ?l)"
    using "1.prems"(2,3) by (intro frame_loop_data [OF d]) simp_all
  show ?case
  proof (cases "length bdy - offset \<le> 16384")
    case True
    then have "data_frames es sid bdy ?o = []" using "1.prems"(4) by (subst data_frames.simps) simp
    then show ?thesis using one st True by (simp add: add.assoc)
  next
    case False
    then have o: "?o = offset + 16384" by simp
    have d': "drop ?c buffer = data_frames es sid bdy ?o @ rest"
      using drop_shift [OF d] by (simp add: add.assoc)
    have "drop offset bdy = ?p @ drop ?o bdy" unfolding o by (metis append_take_drop_id drop_drop add.commute)
    moreover have "frame_loop too_large buffer ?c ?l =
        (let c' = ?c + length (data_frames es sid bdy ?o); l' = ?l\<lparr>l_body := l_body ?l @ drop ?o bdy\<rparr> in
         if es then Some (Leave c' l') else frame_loop too_large buffer c' l')"
      using "1.prems"(2,3,4) False d' by (intro "1.IH" [OF _ refl refl]) auto
    ultimately show ?thesis using one st False by (simp add: Let_def add.assoc)
  qed
qed

section \<open>Sizes of header blocks\<close>

lemma int_tail_length: "unat v < 2 ^ (7 * k) \<Longrightarrow> 0 < k \<Longrightarrow> length (int_tail v) \<le> k"
proof (induction k arbitrary: v)
  case (Suc k)
  show ?case
  proof (cases "v \<ge> 128")
    case True
    have "(2 :: nat) ^ (7 * Suc k) = 2 ^ (7 * k) * 2 ^ 7" by (simp add: power_add)
    then have "unat (v div 128) < 2 ^ (7 * k)" using Suc.prems(1) by (simp add: unat_div less_mult_imp_div_less)
    moreover have "k \<noteq> 0" using True Suc.prems(1) by (auto simp: word_le_nat_alt intro!: Nat.gr0I)
    ultimately show ?thesis using True Suc.IH [of "v div 128"] by (subst int_tail.simps) simp
  next
    case False
    then show ?thesis by (subst int_tail.simps) simp
  qed
qed simp

lemma encode_integer_length: "length (encode_integer v bits msk) \<le> 11"
proof -
  have "unat w < 2 ^ (7 * 10)" for w :: u64 using unsigned_less [of w, where ?'a = nat] by simp
  then have "length (int_tail w) \<le> 10" for w by (intro int_tail_length) simp_all
  then show ?thesis by (simp add: encode_integer_def)
qed

lemma encode_string_length: "length (encode_string s) \<le> 11 + length s"
  using encode_integer_length [of "of_nat (length s)" 7 0] by (simp add: encode_string_def)

lemma encode_zero_length: "length (encode_integer 0 4 0x00 :: bytes) = 1"
  by (simp add: encode_integer_def max_prefix_def)

lemma literal_field_length: "length (literal_field h) \<le> entry_size h"
  using encode_string_length [of "fst h"] encode_string_length [of "snd h"]
  by (simp add: literal_field_def entry_size_def encode_zero_length)

lemma encode_field_length: "length (encode_field h) \<le> entry_size h"
proof -
  have "length (encode_integer v bits msk @ encode_string (snd h)) \<le> entry_size h" for v bits msk
    using encode_integer_length [of v bits msk] encode_string_length [of "snd h"] by (simp add: entry_size_def)
  moreover have "length (encode_integer v bits msk) \<le> entry_size h" for v bits msk
    using encode_integer_length [of v bits msk] by (simp add: entry_size_def)
  ultimately show ?thesis using literal_field_length [of h]
    by (auto simp: encode_field_def literal_field_def simp del: length_append split: prod.splits)
qed

lemma indexed_or_length: "length (encode_indexed_or s n v) \<le> entry_size (n, v)"
  using encode_string_length [of v] encode_integer_length [of "of_nat s" 4 0]
    encode_integer_length [of "of_nat (fst (find_static n v))" 7 "0x80"]
  by (auto simp: encode_indexed_or_def entry_size_def split: prod.splits)

lemma concat_size: "list_all2 (\<lambda>e h. length e \<le> entry_size h) es hs \<Longrightarrow> length (concat es) \<le> list_size hs"
  by (induction rule: list_all2_induct) auto

lemma encode_fields_length: "length (encode_fields hs) \<le> list_size (map lower_name (filter (\<lambda>h. \<not> is_pseudo h) hs))"
  unfolding encode_fields_def by (rule concat_size) (simp add: list_all2_conv_all_nth encode_field_length)

lemma list_size_append [simp]: "list_size (xs @ ys) = list_size xs + list_size ys"
  by (simp add: list_size_def)

lemma request_block_length:
  "length (encode_request_headers m trg scheme authority hs) \<le> list_size (request_fields m trg scheme authority hs)"
proof -
  have p: "length (encode_path trg) \<le> entry_size ('':path'', if trg = [] then ''/'' else trg)"
    using encode_integer_length [of 4 7 "0x80"] encode_integer_length [of 5 7 "0x80"] encode_integer_length [of 4 4 0] encode_string_length [of trg]
    by (auto simp: encode_path_def Let_def entry_size_def)
  have a: "length (encode_authority authority) \<le> (if authority = [] then 0 else entry_size ('':authority'', authority))"
    using encode_integer_length [of 1 4 0] encode_string_length [of authority] by (auto simp: encode_authority_def entry_size_def)
  have "length (encode_scheme scheme) \<le> entry_size ('':scheme'', if scheme = [] then ''https'' else scheme)"
    unfolding encode_scheme_def by (rule indexed_or_length)
  then show ?thesis
    using p a encode_field_length [of "('':method'', method_to_string m)"] encode_fields_length [of hs]
    unfolding encode_request_headers_def request_fields_def by (cases "authority = []") simp_all
qed

lemma response_block_length: "length (encode_response_headers status hs) \<le> list_size (response_fields status hs)"
  using indexed_or_length [of 8 "'':status''" "to_chars 10 status"] encode_fields_length [of hs]
  by (simp add: encode_response_headers_def response_fields_def)

section \<open>Fields\<close>

lemma lower_colon: "ascii_lower c = CHR '':'' \<longleftrightarrow> c = CHR '':''"
proof
  assume a: "ascii_lower c = CHR '':''"
  show "c = CHR '':''"
  proof (cases "65 \<le> code c \<and> code c \<le> (90 :: nat)")
    case True
    have "code c \<in> set [65..<91]" using True unfolding set_upt by simp
    then have "or (code c) 0x20 = code c + (32 :: nat)" using or_32 by (metis (mono_tags, lifting) list_all_iff)
    then have "ascii_lower c = char_of (code c + 32 :: nat)" using True by (simp add: ascii_lower_def)
    then have "code (ascii_lower c) = code c + (32 :: nat)" using True by (simp add: of_char_of)
    then show ?thesis using a True by simp
  qed (use a in \<open>auto simp: ascii_lower_def\<close>)
qed (simp add: ascii_lower_def)

lemma lower_pseudo: "is_pseudo (lower_name h) \<longleftrightarrow> is_pseudo h"
  by (cases "fst h") (simp_all add: is_pseudo_def lower_name_def lower_colon)

lemma take_fields:
  "list_all (\<lambda>h. \<not> is_pseudo h) hs \<Longrightarrow> fold take_field hs req = req\<lparr>headers := headers req @ hs\<rparr>"
proof (induction hs arbitrary: req)
  case (Cons h hs)
  then have "take_field h req = req\<lparr>headers := headers req @ [h]\<rparr>"
    by (cases "fst h") (simp_all add: take_field_def is_pseudo_def)
  then show ?case using Cons.IH Cons.prems by simp
qed simp

lemma take_res_fields:
  "list_all (\<lambda>h. \<not> is_pseudo h) hs \<Longrightarrow> fold take_res_field hs res = res\<lparr>headers := headers res @ hs\<rparr>"
proof (induction hs arbitrary: res)
  case (Cons h hs)
  then have "take_res_field h res = res\<lparr>headers := headers res @ [h]\<rparr>"
    by (cases "fst h") (simp_all add: take_res_field_def is_pseudo_def)
  then show ?case using Cons.IH Cons.prems by simp
qed simp

abbreviation sent_headers :: "header list \<Rightarrow> header list" where
  "sent_headers hs \<equiv> map lower_name (filter (\<lambda>h. \<not> is_pseudo h) hs)"

lemma sent_headers_plain: "list_all (\<lambda>h. \<not> is_pseudo h) (sent_headers hs)"
  by (simp add: list_all_iff lower_pseudo)

lemma method_round: "method_from_string (method_to_string m) = m"
  by (cases m) (simp_all add: method_to_string_def method_from_string_def)


section \<open>Round trips\<close>

lemma frame_loop_message:
  assumes d: "drop c buffer = h2_encode_frame FT_HEADERS (if es \<and> bdy = [] then FL_END_HEADERS OR FL_END_STREAM else FL_END_HEADERS) sid block
      @ data_frames es sid bdy 0 @ rest"
    and b: "length block < 2 ^ 24" "unat sid < 2 ^ 31" "es \<or> rest = []"
    and h: "decode_header_block kDefaultMaxHeaderListSize block (l_table l) (l_decoded l) = Some (Blk_ok, dt, hs)"
  shows "frame_loop too_large buffer c l =
    Some (Leave (c + (9 + length block + length (data_frames es sid bdy 0)))
      (l\<lparr>l_stream_id := sid, l_table := dt, l_decoded := hs, l_received := True, l_body := l_body l @ bdy\<rparr>))"
proof -
  let ?l = "l\<lparr>l_stream_id := sid, l_table := dt, l_decoded := hs, l_received := True\<rparr>" and ?c = "c + 9 + length block"
  have one: "frame_loop too_large buffer c l =
      (if es \<and> bdy = [] then Some (Leave ?c ?l) else frame_loop too_large buffer ?c ?l)"
    using frame_loop_headers [OF d b(1,2) _ h] by (simp add: Let_def)
  have d': "drop ?c buffer = data_frames es sid bdy 0 @ rest" using drop_shift [OF d] by (simp add: add.assoc)
  have fin: "frame_loop too_large buffer n l' = Some (Leave n l')" if "drop n buffer = []" for n l'
    using that by (subst frame_loop.simps) simp
  show ?thesis
  proof (cases "bdy = []")
    case True
    then have e: "data_frames es sid bdy 0 = []" by (subst data_frames.simps) simp
    then show ?thesis using one True b(3) fin [of ?c ?l] d' by (cases es) (simp_all add: add.assoc)
  next
    case False
    have "frame_loop too_large buffer ?c ?l =
        (let c' = ?c + length (data_frames es sid bdy 0); l' = ?l\<lparr>l_body := l_body ?l @ drop 0 bdy\<rparr> in
         if es then Some (Leave c' l') else frame_loop too_large buffer c' l')"
      using b(2) False d' by (intro frame_loop_body) simp_all
    moreover have "es \<or> drop (?c + length (data_frames es sid bdy 0)) buffer = []" using drop_shift [OF d'] b(3) by auto
    ultimately show ?thesis using one False fin by (auto simp: Let_def add.assoc)
  qed
qed

lemma frame_loop_settings:
  assumes d: "drop c buffer = serialize_settings ss @ rest" and s: "length ss < 2 ^ 21"
  shows "frame_loop too_large buffer c l = frame_loop too_large buffer (c + length (serialize_settings ss)) l"
proof -
  let ?p = "concat (map (\<lambda>(p, v). octets 2 (settings_id p) @ octets 4 v) ss)"
  have p: "length ?p = length ss * 6" by (induction ss) auto
  then have w: "serialize_settings ss = h2_encode_frame FT_SETTINGS FL_NONE 0 ?p"
    by (simp add: serialize_settings_def h2_encode_frame_def)
  have f: "h2_parse_frame (drop c buffer) = Frame \<lparr>f_length = of_nat (length ?p), f_stream_id = 0, f_type = FT_SETTINGS, f_flags = FL_NONE\<rparr>
      ?p (9 + length ?p)"
    unfolding d w by (rule parse_frame_encoded) (use p s in simp_all)
  have c: "c < length buffer" using arg_cong [OF d, of length] by (simp add: w)
  have l: "length (serialize_settings ss) = 9 + length ?p" by (simp add: w)
  show ?thesis unfolding l by (subst frame_loop.simps) (simp only: c f frame_parse.case, simp)
qed

lemma no_preface:
  "take (length CONNECTION_PREFACE) (h2_encode_frame FT_HEADERS fl sid payload @ rest) \<noteq> CONNECTION_PREFACE"
proof
  let ?w = "h2_encode_frame FT_HEADERS fl sid payload @ rest"
  assume a: "take (length CONNECTION_PREFACE) ?w = CONNECTION_PREFACE"
  have "CONNECTION_PREFACE ! 3 = 0x20" "3 < length CONNECTION_PREFACE" by (simp_all add: CONNECTION_PREFACE_def bytes_of_def)
  moreover have "?w ! 3 = FT_HEADERS" by (simp add: h2_encode_frame_def pack_frame_header_def)
  moreover have "take (length CONNECTION_PREFACE) ?w ! 3 = ?w ! 3" using calculation(2) by (rule nth_take)
  ultimately show False unfolding a by simp
qed

text \<open>What a client may send before its first request: nothing, or the connection preface and its settings.\<close>

definition preamble :: "(settings_parameter \<times> u32) list \<Rightarrow> bytes \<Rightarrow> bool" where
  "preamble ss pre \<longleftrightarrow> pre = [] \<or> (pre = CONNECTION_PREFACE @ serialize_settings ss \<and> length ss < 2 ^ 21)"

lemma parse_request_message:
  assumes w: "buffer = pre @ h2_encode_frame FT_HEADERS (if es \<and> bdy = [] then FL_END_HEADERS OR FL_END_STREAM else FL_END_HEADERS) sid block
      @ data_frames es sid bdy 0 @ rest" "preamble ss pre"
    and b: "length block < 2 ^ 24" "unat sid < 2 ^ 31" "es \<or> rest = []"
    and h: "decode_header_block kDefaultMaxHeaderListSize block dt [] = Some (Blk_ok, dt', hs)"
    and f: "finish_request (fold take_field hs (r0\<lparr>headers := [], h2_protocol := [], body := [], h2_stream_id := sid,
        h2_target := [], h2_scheme := [], h2_authority := []\<rparr>)) = Some r"
  shows "h2_parse_request buffer r0 dt =
    Some (H2_success, r\<lparr>body := str_of bdy\<rparr>, length pre + (9 + length block + length (data_frames es sid bdy 0)), dt')"
proof -
  let ?msg = "h2_encode_frame FT_HEADERS (if es \<and> bdy = [] then FL_END_HEADERS OR FL_END_STREAM else FL_END_HEADERS) sid block
      @ data_frames es sid bdy 0 @ rest"
  let ?c = "if take (length CONNECTION_PREFACE) buffer = CONNECTION_PREFACE then length CONNECTION_PREFACE else 0"
  define l0 where "l0 = \<lparr>l_stream_id = h2_stream_id r0, l_decoded = [], l_received = False, l_body = [], l_table = dt\<rparr>"
  have "frame_loop H2_headers_too_large buffer ?c l0 = frame_loop H2_headers_too_large buffer (length pre) l0"
  proof (cases "pre = []")
    case True
    then have "take (length CONNECTION_PREFACE) buffer \<noteq> CONNECTION_PREFACE" unfolding w(1) by (simp only: append_Nil no_preface simp_thms)
    then show ?thesis using True by simp
  next
    case False
    then have pre: "pre = CONNECTION_PREFACE @ serialize_settings ss" "length ss < 2 ^ 21" using w(2) by (auto simp: preamble_def)
    then have "drop (length CONNECTION_PREFACE) buffer = serialize_settings ss @ ?msg" using w(1) by simp
    from frame_loop_settings [OF this pre(2)] show ?thesis using w(1) pre(1) by simp
  qed
  also have "\<dots> = Some (Leave (length pre + (9 + length block + length (data_frames es sid bdy 0)))
      (l0\<lparr>l_stream_id := sid, l_table := dt', l_decoded := hs, l_received := True, l_body := l_body l0 @ bdy\<rparr>))"
    using h by (intro frame_loop_message [OF _ b]) (simp_all add: w(1) l0_def)
  finally show ?thesis using f unfolding h2_parse_request_def Let_def l0_def by simp
qed

lemma parse_response_message:
  assumes w: "buffer = h2_encode_frame FT_HEADERS (if bdy = [] then FL_END_HEADERS OR FL_END_STREAM else FL_END_HEADERS) sid block
      @ data_frames True sid bdy 0 @ rest"
    and b: "length block < 2 ^ 24" "unat sid < 2 ^ 31"
    and h: "decode_header_block kDefaultMaxHeaderListSize block dt [] = Some (Blk_ok, dt', hs)"
  shows "h2_parse_response buffer r0 dt =
    Some (H2_success, (fold take_res_field hs (r0\<lparr>headers := [], body := [], h2_res_stream_id := sid\<rparr>))\<lparr>body := str_of bdy\<rparr>,
      9 + length block + length (data_frames True sid bdy 0), dt')"
proof -
  define l0 where "l0 = \<lparr>l_stream_id = h2_res_stream_id r0, l_decoded = [], l_received = False, l_body = [], l_table = dt\<rparr>"
  have "frame_loop H2_error buffer 0 l0 = Some (Leave (0 + (9 + length block + length (data_frames True sid bdy 0)))
      (l0\<lparr>l_stream_id := sid, l_table := dt', l_decoded := hs, l_received := True, l_body := l_body l0 @ bdy\<rparr>))"
    using h by (intro frame_loop_message [OF _ b, of _ _ True _ rest]) (simp_all add: w l0_def)
  then show ?thesis unfolding h2_parse_response_def Let_def l0_def by simp
qed


lemma serialize_request_frames:
  "h2_serialize_request req = h2_encode_frame FT_HEADERS (if True \<and> bytes_of (body req) = [] then FL_END_HEADERS OR FL_END_STREAM else FL_END_HEADERS)
      (h2_stream_id req) (encode_request_headers (h2_method req) (h2_target req) (h2_scheme req) (h2_authority req) (headers req))
    @ data_frames True (h2_stream_id req) (bytes_of (body req)) 0"
  by (simp add: h2_serialize_request_def h2_encode_frame_def Let_def bytes_of_def)

lemma serialize_response_frames:
  "h2_serialize_response res = h2_encode_frame FT_HEADERS (if bytes_of (body res) = [] then FL_END_HEADERS OR FL_END_STREAM else FL_END_HEADERS)
      (h2_res_stream_id res) (encode_response_headers (h2_status_code res) (headers res))
    @ data_frames True (h2_res_stream_id res) (bytes_of (body res)) 0"
  by (simp add: h2_serialize_response_def h2_encode_frame_def Let_def bytes_of_def)

lemma finish_request_fields:
  "finish_request (fold take_field (request_fields m trg scheme authority hs)
     (r0\<lparr>headers := [], h2_protocol := [], body := [], h2_stream_id := sid, h2_target := [], h2_scheme := [], h2_authority := []\<rparr>))
   = Some (r0\<lparr>headers := sent_headers hs, h2_protocol := [], body := [], h2_stream_id := sid, h2_method := m,
       h2_target := if trg = [] then ''/'' else trg, h2_scheme := if scheme = [] then ''https'' else scheme, h2_authority := authority\<rparr>)"
  unfolding request_fields_def fold_append comp_apply take_fields [OF sent_headers_plain]
  by (simp add: take_field_def finish_request_def method_round)

text \<open>
  C32. Requests.  A serialised request is parsed back, alone or after the connection preface and the client's settings
  and whatever follows it: method, target, scheme, authority, stream and body are the ones sent, header names arrive in
  lower case, pseudo-headers in the header list are left out, exactly the octets of the message are consumed and the
  decoder's table is unchanged.
\<close>

theorem h2_request_roundtrip:
  assumes "preamble ss pre" "unat (h2_stream_id req) < 2 ^ 31"
    "list_size (request_fields (h2_method req) (h2_target req) (h2_scheme req) (h2_authority req) (headers req)) \<le> kDefaultMaxHeaderListSize"
  shows "h2_parse_request (pre @ h2_serialize_request req @ rest) r0 dt =
    Some (H2_success, r0\<lparr>headers := sent_headers (headers req), body := body req, h2_protocol := [], h2_stream_id := h2_stream_id req,
        h2_method := h2_method req, h2_target := if h2_target req = [] then ''/'' else h2_target req,
        h2_scheme := if h2_scheme req = [] then ''https'' else h2_scheme req, h2_authority := h2_authority req\<rparr>,
      length pre + length (h2_serialize_request req), dt)"
proof -
  let ?b = "encode_request_headers (h2_method req) (h2_target req) (h2_scheme req) (h2_authority req) (headers req)"
  have b: "length ?b < 2 ^ 24"
    using request_block_length [of "h2_method req" "h2_target req" "h2_scheme req" "h2_authority req" "headers req"] assms(3)
    by (simp add: kDefaultMaxHeaderListSize_def)
  then have "length ?b < SIZE_MOD" by (simp add: SIZE_MOD_def)
  note d = decode_request_block [OF this disjI2 [OF assms(3)], of dt "[]"]
  have "h2_parse_request (pre @ h2_serialize_request req @ rest) r0 dt =
    Some (H2_success, (r0\<lparr>headers := sent_headers (headers req), h2_protocol := [], body := [], h2_stream_id := h2_stream_id req,
        h2_method := h2_method req, h2_target := if h2_target req = [] then ''/'' else h2_target req,
        h2_scheme := if h2_scheme req = [] then ''https'' else h2_scheme req, h2_authority := h2_authority req\<rparr>)
        \<lparr>body := str_of (bytes_of (body req))\<rparr>,
      length pre + (9 + length ?b + length (data_frames True (h2_stream_id req) (bytes_of (body req)) 0)), dt)"
    by (rule parse_request_message [OF _ assms(1) b assms(2) _ d [unfolded append_Nil] finish_request_fields, where es = True and rest = rest])
      (simp_all only: serialize_request_frames append_assoc simp_thms)
  then show ?thesis by (simp add: serialize_request_frames)
qed

definition h2_sample_request :: h2_request where
  "h2_sample_request = h2_request_new\<lparr>h2_method := M_POST, h2_target := ''/a'', h2_authority := ''h'', headers := [(''X-Id'', ''1'')], body := ''ab'', h2_stream_id := 3\<rparr>"

theorem h2_request_roundtrip_witness:
  "h2_parse_request (CONNECTION_PREFACE @ serialize_settings [(ENABLE_PUSH, 0)] @ h2_serialize_request h2_sample_request) h2_request_new (dynamic_table_new 4096) =
    Some (H2_success, h2_sample_request\<lparr>headers := [(''x-id'', ''1'')]\<rparr>,
      length CONNECTION_PREFACE + length (serialize_settings [(ENABLE_PUSH, 0)]) + length (h2_serialize_request h2_sample_request), dynamic_table_new 4096)"
proof -
  have p: "preamble [(ENABLE_PUSH, 0)] (CONNECTION_PREFACE @ serialize_settings [(ENABLE_PUSH, 0)])" by (simp add: preamble_def)
  have n: "lower_name (''X-Id'', ''1'') = (''x-id'', ''1'')" "\<not> is_pseudo (''X-Id'', ''1'')" by code_simp+
  show ?thesis using h2_request_roundtrip [OF p, of h2_sample_request "[]" h2_request_new "dynamic_table_new 4096"]
    by (simp add: h2_sample_request_def h2_request_new_def request_fields_def n entry_size_def method_to_string_def kDefaultMaxHeaderListSize_def)
qed

text \<open>
  Responses.  A serialised response is parsed back: status with its standard text, stream, headers (names in lower
  case, no pseudo-headers) and body, exactly its octets consumed and the decoder's table unchanged.
\<close>

theorem h2_response_roundtrip:
  assumes "unat (h2_res_stream_id res) < 2 ^ 31" "h2_status_code res < 2 ^ 32"
    "list_size (response_fields (h2_status_code res) (headers res)) \<le> kDefaultMaxHeaderListSize"
  shows "h2_parse_response (h2_serialize_response res @ rest) r0 dt =
    Some (H2_success, r0\<lparr>headers := sent_headers (headers res), body := body res, h2_res_stream_id := h2_res_stream_id res,
        h2_status_code := h2_status_code res, h2_status_text := status_text_for (h2_status_code res)\<rparr>,
      length (h2_serialize_response res), dt)"
proof -
  let ?b = "encode_response_headers (h2_status_code res) (headers res)"
  have b: "length ?b < 2 ^ 24"
    using response_block_length [of "h2_status_code res" "headers res"] assms(3) by (simp add: kDefaultMaxHeaderListSize_def)
  then have "length ?b < SIZE_MOD" by (simp add: SIZE_MOD_def)
  note d = decode_response_block [OF this disjI2 [OF assms(3)], of dt "[]"]
  have n: "from_chars 10 SIZE_MOD (to_chars 10 (h2_status_code res)) = Some (h2_status_code res)"
    using assms(2) by (intro from_to_chars_end) (simp_all add: SIZE_MOD_def)
  have "h2_parse_response (h2_serialize_response res @ rest) r0 dt =
    Some (H2_success, (fold take_res_field (response_fields (h2_status_code res) (headers res))
        (r0\<lparr>headers := [], body := [], h2_res_stream_id := h2_res_stream_id res\<rparr>))\<lparr>body := str_of (bytes_of (body res))\<rparr>,
      9 + length ?b + length (data_frames True (h2_res_stream_id res) (bytes_of (body res)) 0), dt)"
    by (rule parse_response_message [OF _ b assms(1) d [unfolded append_Nil], where rest = rest])
      (simp_all only: serialize_response_frames append_assoc)
  moreover have "fold take_res_field (response_fields (h2_status_code res) (headers res)) (r0\<lparr>headers := [], body := [], h2_res_stream_id := h2_res_stream_id res\<rparr>)
     = r0\<lparr>headers := sent_headers (headers res), body := [], h2_res_stream_id := h2_res_stream_id res,
         h2_status_code := h2_status_code res, h2_status_text := status_text_for (h2_status_code res)\<rparr>"
    unfolding response_fields_def using assms(2)
    by (simp add: take_res_field_def n Let_def take_res_fields [OF sent_headers_plain])
  ultimately show ?thesis by (simp add: serialize_response_frames)
qed

theorem h2_response_roundtrip_witness:
  "h2_parse_response (h2_serialize_response (h2_response_new\<lparr>h2_status_code := 404, body := ''no''\<rparr>)) h2_response_new (dynamic_table_new 4096) =
    Some (H2_success, h2_response_new\<lparr>h2_status_code := 404, h2_status_text := ''Not Found'', body := ''no''\<rparr>,
      length (h2_serialize_response (h2_response_new\<lparr>h2_status_code := 404, body := ''no''\<rparr>)), dynamic_table_new 4096)"
proof -
  have n: "to_chars 10 404 = ''404''" by code_simp
  show ?thesis using h2_response_roundtrip [of "h2_response_new\<lparr>h2_status_code := 404, body := ''no''\<rparr>" "[]" h2_response_new "dynamic_table_new 4096"]
    by (simp add: h2_response_new_def response_fields_def n entry_size_def kDefaultMaxHeaderListSize_def status_text_for_def)
qed

section \<open>The request that the session rebuilds\<close>

lemma literal_fields_decode:
  assumes "list_size hs \<le> kDefaultMaxHeaderListSize"
  shows "decode_header_block kDefaultMaxHeaderListSize (concat (map literal_field hs)) dt [] = Some (Blk_ok, dt, hs)"
    "length (concat (map literal_field hs)) < 2 ^ 24"
proof -
  have "list_all2 encodes (map literal_field hs) hs"
    by (auto simp: list_all2_conv_all_nth literal_field_def intro: encodes_new [of "fst h" "snd h" for h, simplified])
  moreover have "length (concat (map literal_field hs)) \<le> list_size hs"
    by (rule concat_size) (simp add: list_all2_conv_all_nth literal_field_length)
  ultimately show "decode_header_block kDefaultMaxHeaderListSize (concat (map literal_field hs)) dt [] = Some (Blk_ok, dt, hs)"
    "length (concat (map literal_field hs)) < 2 ^ 24"
    unfolding decode_header_block_def using assms decode_loop_encoded [of "map literal_field hs" hs 0 _ kDefaultMaxHeaderListSize 0 dt "[]"]
    by (simp_all add: kDefaultMaxHeaderListSize_def SIZE_MOD_def)
qed

text \<open>
  C33. The session decodes headers in the order of arrival and hands each finished request to the parser as a wire image
  that it builds itself.  Parsing that image gives exactly the decoded fields, in order, and the collected body, for
  every body size and both for complete requests and for tunnels whose stream stays open.
\<close>

theorem h2_rebuilt_request:
  assumes "unat sid < 2 ^ 31" "list_size hs \<le> kDefaultMaxHeaderListSize"
    "finish_request (fold take_field hs (h2_request_new\<lparr>h2_stream_id := sid, h2_scheme := []\<rparr>)) = Some r"
  shows "h2_parse_request (build_request_wire sid hs bdy end_stream) h2_request_new dt =
    Some (H2_success, r\<lparr>body := str_of bdy\<rparr>, length (build_request_wire sid hs bdy end_stream), dt)"
proof -
  let ?b = "concat (map literal_field hs)"
  note d = literal_fields_decode [OF assms(2)]
  have w: "build_request_wire sid hs bdy end_stream = h2_encode_frame FT_HEADERS
      (if end_stream \<and> bdy = [] then FL_END_HEADERS OR FL_END_STREAM else FL_END_HEADERS) sid ?b @ data_frames end_stream sid bdy 0"
    by (simp add: build_request_wire_def Let_def)
  have n: "h2_request_new\<lparr>headers := [], h2_protocol := [], body := [], h2_stream_id := sid, h2_target := [], h2_scheme := [], h2_authority := []\<rparr>
      = h2_request_new\<lparr>h2_stream_id := sid, h2_scheme := []\<rparr>" by (simp add: h2_request_new_def)
  have "h2_parse_request (build_request_wire sid hs bdy end_stream) h2_request_new dt =
    Some (H2_success, r\<lparr>body := str_of bdy\<rparr>, length ([] :: bytes) + (9 + length ?b + length (data_frames end_stream sid bdy 0)), dt)"
    by (rule parse_request_message [OF _ _ d(2) assms(1) _ d(1), where ss = "[]" and rest = "[]" and pre = "[]"])
      (simp_all add: w preamble_def n assms(3))
  then show ?thesis by (simp add: w)
qed

theorem h2_rebuilt_request_witness:
  "h2_parse_request (build_request_wire 5 [('':method'', ''GET''), ('':path'', ''/x''), (''k'', ''v'')] [1, 2] True) h2_request_new (dynamic_table_new 4096) =
    Some (H2_success, h2_request_new\<lparr>h2_stream_id := 5, h2_method := M_GET, h2_target := ''/x'', headers := [(''k'', ''v'')], body := str_of [1, 2]\<rparr>,
      length (build_request_wire 5 [('':method'', ''GET''), ('':path'', ''/x''), (''k'', ''v'')] [1, 2] True), dynamic_table_new 4096)"
  using h2_rebuilt_request [of 5 "[('':method'', ''GET''), ('':path'', ''/x''), (''k'', ''v'')]"
      "h2_request_new\<lparr>h2_stream_id := 5, h2_method := M_GET, h2_target := ''/x'', headers := [(''k'', ''v'')]\<rparr>" "[1, 2]" True "dynamic_table_new 4096"]
  by (simp add: entry_size_def kDefaultMaxHeaderListSize_def take_field_def finish_request_def h2_request_new_def method_from_string_def)

section \<open>The parsers return\<close>

lemma decode_header_block_returns: "\<exists>r. decode_header_block kDefaultMaxHeaderListSize block dt out = Some r"
  unfolding decode_header_block_def by (rule decode_loop_returns) (simp add: kDefaultMaxHeaderListSize_def)

lemma frame_loop_returns [simp]: "frame_loop too_large buffer c l \<noteq> None"
proof (induction too_large buffer c l rule: frame_loop.induct)
  case (1 too_large buffer c l)
  have dec: "decode_header_block kDefaultMaxHeaderListSize block dt out = None \<longleftrightarrow> False" for block dt out
    using decode_header_block_returns [of block dt out] by auto
  show ?case
  proof (cases "\<not> c < length buffer \<or> h2_parse_frame (drop c buffer) = Frame_incomplete")
    case True
    then show ?thesis by (subst frame_loop.simps) auto
  next
    case False
    then obtain hdr payload n where f: "h2_parse_frame (drop c buffer) = Frame hdr payload n" by (cases "h2_parse_frame (drop c buffer)") auto
    note IH = "1.IH" [OF _ f]
    show ?thesis
      using False IH by (subst frame_loop.simps) (auto simp: f Let_def dec split: option.splits block_status.splits)
  qed
qed


section \<open>Requests cut short\<close>

text \<open>
  C35. The parser does not wait for the end of the stream.  Of a request with a body, the HEADERS frame alone, as it
  arrives when the body comes in a later segment, is parsed as a complete request with an empty body.
\<close>

theorem h2_truncated_request:
  assumes "unat (h2_stream_id req) < 2 ^ 31" "body req \<noteq> []"
    "list_size (request_fields (h2_method req) (h2_target req) (h2_scheme req) (h2_authority req) (headers req)) \<le> kDefaultMaxHeaderListSize"
    "n = 9 + length (encode_request_headers (h2_method req) (h2_target req) (h2_scheme req) (h2_authority req) (headers req))"
  shows "n < length (h2_serialize_request req) \<and>
    (\<exists>r. h2_parse_request (take n (h2_serialize_request req)) r0 dt = Some (H2_success, r, n, dt) \<and> body r = [])"
proof -
  let ?b = "encode_request_headers (h2_method req) (h2_target req) (h2_scheme req) (h2_authority req) (headers req)"
  have b: "length ?b < 2 ^ 24"
    using request_block_length [of "h2_method req" "h2_target req" "h2_scheme req" "h2_authority req" "headers req"] assms(3)
    by (simp add: kDefaultMaxHeaderListSize_def)
  then have "length ?b < SIZE_MOD" by (simp add: SIZE_MOD_def)
  note d = decode_request_block [OF this disjI2 [OF assms(3)], of dt "[]"]
  have ne: "bytes_of (body req) \<noteq> []" using assms(2) by (simp add: bytes_of_def)
  have e: "data_frames False (h2_stream_id req) [] 0 = []" by (subst data_frames.simps) simp
  have t: "take n (h2_serialize_request req) = h2_encode_frame FT_HEADERS FL_END_HEADERS (h2_stream_id req) ?b"
    using ne assms(4) by (simp add: serialize_request_frames)
  have "n < length (h2_serialize_request req)"
    using data_frames_step [of 0 "bytes_of (body req)" True "h2_stream_id req"] assms(2,4) by (simp add: serialize_request_frames)
  moreover obtain r where "h2_parse_request (take n (h2_serialize_request req)) r0 dt =
      Some (H2_success, r\<lparr>body := str_of []\<rparr>, length ([] :: bytes) + (9 + length ?b + length (data_frames False (h2_stream_id req) [] 0)), dt)"
    using parse_request_message [OF _ _ b assms(1) _ d [unfolded append_Nil] finish_request_fields, where es = False and rest = "[]" and pre = "[]" and bdy = "[]" and ss = "[]"]
    by (auto simp: t e preamble_def)
  ultimately show ?thesis using e assms(4) by (auto simp: str_of_def)
qed

theorem h2_truncated_request_witness:
  "\<exists>n r. n < length (h2_serialize_request h2_sample_request) \<and>
     h2_parse_request (take n (h2_serialize_request h2_sample_request)) h2_request_new (dynamic_table_new 4096) = Some (H2_success, r, n, dynamic_table_new 4096)
     \<and> body r = []"
proof -
  have n: "lower_name (''X-Id'', ''1'') = (''x-id'', ''1'')" "\<not> is_pseudo (''X-Id'', ''1'')" by code_simp+
  show ?thesis using h2_truncated_request [of h2_sample_request _ h2_request_new "dynamic_table_new 4096", OF _ _ _ refl]
    by (simp add: h2_sample_request_def h2_request_new_def request_fields_def n entry_size_def method_to_string_def kDefaultMaxHeaderListSize_def) blast
qed

end
