(* ===== verification/Http2_Flow.thy ===== *)
theory Http2_Flow
  imports Http2_Run Http2_Proofs
begin

unbundle bit_operations_syntax

text \<open>
  Flow control of an HTTP/2 session, seen from the peer: a ledger that is computed from the frames on the wire alone.
\<close>

section \<open>The frames in queued octets\<close>

lemma unpack_pack_any:
  assumes "unat (f_length hdr) < 2 ^ 24"
  shows "unpack_frame_header (pack_frame_header hdr @ rest) = Some (hdr\<lparr>f_stream_id := f_stream_id hdr AND 0x7FFFFFFF\<rparr>)"
proof -
  let ?h = "hdr\<lparr>f_stream_id := f_stream_id hdr AND 0x7FFFFFFF\<rparr>"
  have "pack_frame_header hdr = pack_frame_header ?h" by (simp add: pack_frame_header_def Let_def)
  moreover have "h2_frame_ok ?h" using assms by (simp add: h2_frame_ok_def unat_and_31)
  ultimately show ?thesis using unpack_pack [of ?h rest] by simp
qed

function put_frames :: "bytes \<Rightarrow> (h2_frame_header \<times> bytes) list" where
  "put_frames bs = (case h2_parse_frame bs of Frame hdr p n \<Rightarrow> (hdr, p) # put_frames (drop n bs) | Frame_incomplete \<Rightarrow> [])"
  by pat_completeness auto

termination by (relation "measure length") (auto dest!: parse_frame_bytes)

declare put_frames.simps [simp del]

lemma put_frames_Nil [simp]: "put_frames [] = []"
  by (subst put_frames.simps) (simp add: h2_parse_frame_def unpack_frame_header_def)

lemma put_frames_encode:
  assumes "length p < 2 ^ 24"
  shows "put_frames (h2_encode_frame t fl sid p @ rest)
    = (\<lparr>f_length = of_nat (length p), f_stream_id = sid AND 0x7FFFFFFF, f_type = t, f_flags = fl\<rparr>, p) # put_frames rest"
proof -
  have l: "unat (of_nat (length p) :: u32) = length p" using assms by (simp add: unat_of_nat)
  have "h2_parse_frame (h2_encode_frame t fl sid p @ rest)
      = Frame \<lparr>f_length = of_nat (length p), f_stream_id = sid AND 0x7FFFFFFF, f_type = t, f_flags = fl\<rparr> p (9 + length p)"
    using unpack_pack_any [of "\<lparr>f_length = of_nat (length p), f_stream_id = sid, f_type = t, f_flags = fl\<rparr>" "p @ rest"] assms
    by (simp add: h2_parse_frame_def h2_encode_frame_def Let_def l)
  then show ?thesis by (subst put_frames.simps) (simp add: h2_encode_frame_def)
qed

lemma put_frames_one: "length p < 2 ^ 24 \<Longrightarrow> put_frames (h2_encode_frame t fl sid p)
    = [(\<lparr>f_length = of_nat (length p), f_stream_id = sid AND 0x7FFFFFFF, f_type = t, f_flags = fl\<rparr>, p)]"
  using put_frames_encode [of p t fl sid "[]"] by simp

section \<open>The ledger\<close>

datatype wire_event = Rx h2_frame_header bytes | Tx h2_frame_header bytes

fun wire_events :: "h2_event list \<Rightarrow> wire_event list" where
  "wire_events [] = []"
| "wire_events (Got hdr p # es) = Rx hdr p # wire_events es"
| "wire_events (Put bs # es) = map (\<lambda>(hdr, p). Tx hdr p) (put_frames bs) @ wire_events es"

text \<open>
  Octets that the connection may still carry, the initial window and the largest frame that the peer has set, and for
  each stream the difference between its credit and the data sent.
\<close>

record ledger =
  g_conn :: int
  g_init :: int
  g_max :: nat
  g_stream :: "u32 \<Rightarrow> int"

definition ledger_new :: ledger where
  "ledger_new = \<lparr>g_conn = 65535, g_init = 65535, g_max = 16384, g_stream = (\<lambda>_. 0)\<rparr>"

fun setting_pairs :: "bytes \<Rightarrow> (u16 \<times> nat) list" where
  "setting_pairs (a # b # p # q # r # t # rest) = (push_bit 8 (ucast a) OR ucast b, unat (read_u32 [p, q, r, t])) # setting_pairs rest"
| "setting_pairs _ = []"

definition ledger_setting :: "u16 \<times> nat \<Rightarrow> ledger \<Rightarrow> ledger" where
  "ledger_setting s L = (if fst s = settings_id INITIAL_WINDOW_SIZE then L\<lparr>g_init := int (snd s)\<rparr>
     else if fst s = settings_id MAX_FRAME_SIZE then L\<lparr>g_max := snd s\<rparr> else L)"

fun ledger_step :: "wire_event \<Rightarrow> ledger \<Rightarrow> ledger" where
  "ledger_step (Rx hdr p) L =
     (if f_type hdr = FT_WINDOW_UPDATE \<and> length p = 4 then
        let inc = int (unat (read_u32 p AND 0x7FFFFFFF)) in
        if f_stream_id hdr = 0 then L\<lparr>g_conn := g_conn L + inc\<rparr>
        else L\<lparr>g_stream := (g_stream L)(f_stream_id hdr := g_stream L (f_stream_id hdr) + inc)\<rparr>
      else if f_type hdr = FT_SETTINGS \<and> \<not> has_flag FL_ACK hdr then fold ledger_setting (setting_pairs p) L
      else L)"
| "ledger_step (Tx hdr p) L =
     (if f_type hdr = FT_DATA
      then L\<lparr>g_conn := g_conn L - int (length p), g_stream := (g_stream L)(f_stream_id hdr := g_stream L (f_stream_id hdr) - int (length p))\<rparr>
      else L)"

text \<open>A DATA frame with data fits into both windows; DATA and HEADERS frames are no longer than the peer allows.\<close>

fun within_ledger :: "wire_event \<Rightarrow> ledger \<Rightarrow> bool" where
  "within_ledger (Rx hdr p) L = True"
| "within_ledger (Tx hdr p) L \<longleftrightarrow>
     (f_type hdr = FT_DATA \<and> p \<noteq> [] \<longrightarrow> int (length p) \<le> g_conn L \<and> int (length p) \<le> g_init L + g_stream L (f_stream_id hdr)) \<and>
     (f_type hdr \<in> {FT_DATA, FT_HEADERS} \<longrightarrow> length p \<le> g_max L)"

fun ledger_ok :: "wire_event list \<Rightarrow> ledger \<Rightarrow> bool" where
  "ledger_ok [] L = True"
| "ledger_ok (e # es) L \<longleftrightarrow> within_ledger e L \<and> ledger_ok es (ledger_step e L)"

definition ledger_of :: "h2_event list \<Rightarrow> ledger" where
  "ledger_of tr = fold ledger_step (wire_events tr) ledger_new"

lemma wire_events_append [simp]: "wire_events (xs @ ys) = wire_events xs @ wire_events ys"
  by (induction xs rule: wire_events.induct) simp_all

lemma ledger_ok_append: "ledger_ok (xs @ ys) L \<longleftrightarrow> ledger_ok xs L \<and> ledger_ok ys (fold ledger_step xs L)"
  by (induction xs arbitrary: L) simp_all

section \<open>Quiet operations\<close>

text \<open>Octets without HEADERS frames and without data.\<close>

definition quiet :: "bytes \<Rightarrow> bool" where
  "quiet bs \<longleftrightarrow> (\<forall>(hdr, p) \<in> set (put_frames bs). f_type hdr \<noteq> FT_HEADERS \<and> (f_type hdr = FT_DATA \<longrightarrow> p = []))"

lemma quiet_frames:
  assumes "list_all (\<lambda>(hdr, p). f_type hdr \<noteq> FT_HEADERS \<and> (f_type hdr = FT_DATA \<longrightarrow> p = [])) fs"
  shows "ledger_ok (map (\<lambda>(hdr, p). Tx hdr p) fs) L \<and> fold ledger_step (map (\<lambda>(hdr, p). Tx hdr p) fs) L = L"
  using assms by (induction fs) auto

lemma quiet_puts:
  assumes "list_all quiet bss"
  shows "ledger_ok (wire_events (map Put bss)) L \<and> fold ledger_step (wire_events (map Put bss)) L = L"
  using assms
proof (induction bss)
  case (Cons bs bss)
  have "list_all (\<lambda>(hdr, p). f_type hdr \<noteq> FT_HEADERS \<and> (f_type hdr = FT_DATA \<longrightarrow> p = [])) (put_frames bs)"
    using Cons.prems by (auto simp: quiet_def list_all_iff)
  from quiet_frames [OF this] show ?case using Cons by (simp add: ledger_ok_append)
qed simp

lemma quiet_encode: "t \<noteq> FT_HEADERS \<Longrightarrow> t \<noteq> FT_DATA \<or> p = [] \<Longrightarrow> length p < 2 ^ 24 \<Longrightarrow> quiet (h2_encode_frame t fl sid p)"
  by (simp add: quiet_def put_frames_one)

lemma quiet_control [simp]:
  "quiet (serialize_rst_stream sid e)" "quiet (serialize_window_update sid n)" "quiet (serialize_goaway sid e [])"
  "quiet serialize_settings_ack" "quiet (serialize_data_frame sid [] es)"
proof -
  have w: "serialize_rst_stream sid e = h2_encode_frame FT_RST_STREAM FL_NONE sid (octets 4 (h2_error_code e))"
    "serialize_window_update sid n = h2_encode_frame FT_WINDOW_UPDATE FL_NONE sid (octets 4 (n AND 0x7FFFFFFF))"
    "serialize_goaway sid e [] = h2_encode_frame FT_GOAWAY FL_NONE 0 (octets 4 (sid AND 0x7FFFFFFF) @ octets 4 (h2_error_code e))"
    "serialize_settings_ack = h2_encode_frame FT_SETTINGS FL_ACK 0 []"
    "serialize_data_frame sid [] es = h2_encode_frame FT_DATA (if es then FL_END_STREAM else FL_NONE) sid []"
    by (simp_all add: serialize_rst_stream_def serialize_window_update_def serialize_goaway_def serialize_settings_ack_def
        serialize_data_frame_def h2_encode_frame_def bytes_of_def)
  show "quiet (serialize_rst_stream sid e)" "quiet (serialize_window_update sid n)" "quiet (serialize_goaway sid e [])"
    "quiet serialize_settings_ack" "quiet (serialize_data_frame sid [] es)" unfolding w by (rule quiet_encode; simp)+
qed

lemma quiet_preamble: "quiet session_preamble"
proof -
  let ?p = "concat (map (\<lambda>(p, v). octets 2 (settings_id p) @ octets 4 v) [(MAX_CONCURRENT_STREAMS, 100 :: u32), (INITIAL_WINDOW_SIZE, 2 ^ 20),
      (ENABLE_PUSH, 0), (MAX_HEADER_LIST_SIZE, of_nat kDefaultMaxHeaderListSize), (ENABLE_CONNECT_PROTOCOL, 1)])"
  have w: "session_preamble = h2_encode_frame FT_SETTINGS FL_NONE 0 ?p @ h2_encode_frame FT_WINDOW_UPDATE FL_NONE 0 (octets 4 ((16 * 2 ^ 20 - 65535) AND 0x7FFFFFFF :: u32))"
    by (simp add: session_preamble_def serialize_settings_def serialize_window_update_def h2_encode_frame_def)
  show ?thesis unfolding w by (simp add: quiet_def put_frames_encode put_frames_one)
qed

text \<open>
  An operation is calm when it queues quiet octets only, changes no send window and no setting, opens no stream and
  takes back no reset.
\<close>

definition calm :: "h2_session \<Rightarrow> h2_session \<Rightarrow> bool" where
  "calm c c' \<longleftrightarrow> (\<exists>new. n_outbox c' = n_outbox c @ new \<and> list_all quiet new) \<and>
     n_conn_send_window c' = n_conn_send_window c \<and> n_peer_initial_window c' = n_peer_initial_window c \<and>
     n_peer_max_frame_size c' = n_peer_max_frame_size c \<and> n_last_peer_stream_id c' = n_last_peer_stream_id c \<and>
     (n_dead c \<longrightarrow> n_dead c') \<and>
     (\<forall>k s'. stream_at k c' = Some s' \<longrightarrow> (\<exists>s. stream_at k c = Some s \<and> s_send_window s' = s_send_window s \<and> (s_reset s \<longrightarrow> s_reset s')))"

lemma calm_refl [simp]: "calm c c"
  by (simp add: calm_def)

lemma calm_trans [trans]:
  assumes "calm a b" "calm b c"
  shows "calm a c"
proof -
  have s: "\<exists>s. stream_at k a = Some s \<and> s_send_window s' = s_send_window s \<and> (s_reset s \<longrightarrow> s_reset s')" if c: "stream_at k c = Some s'" for k s'
  proof -
    obtain s1 where s1: "stream_at k b = Some s1" "s_send_window s' = s_send_window s1" "s_reset s1 \<longrightarrow> s_reset s'"
      using assms(2) c by (auto simp: calm_def)
    moreover obtain s0 where "stream_at k a = Some s0" "s_send_window s1 = s_send_window s0" "s_reset s0 \<longrightarrow> s_reset s1"
      using assms(1) s1(1) unfolding calm_def by blast
    ultimately show ?thesis by auto
  qed
  obtain n1 n2 where n: "n_outbox b = n_outbox a @ n1" "n_outbox c = n_outbox b @ n2" "list_all quiet n1" "list_all quiet n2"
    using assms by (auto simp: calm_def)
  then have "n_outbox c = n_outbox a @ n1 @ n2 \<and> list_all quiet (n1 @ n2)" by simp
  then have "\<exists>new. n_outbox c = n_outbox a @ new \<and> list_all quiet new" by blast
  then show ?thesis using assms s by (simp add: calm_def)
qed

lemma calm_enqueue: "calm c c1 \<Longrightarrow> quiet fr \<Longrightarrow> calm c (h2_enqueue fr c1)"
  by (erule calm_trans) (auto simp: calm_def h2_enqueue_def stream_at_def)

lemma calm_on_stream:
  "calm c c1 \<Longrightarrow> (\<And>s. s_send_window (f s) = s_send_window s) \<Longrightarrow> (\<And>s. s_reset s \<Longrightarrow> s_reset (f s)) \<Longrightarrow> calm c (on_stream sid f c1)"
proof (erule calm_trans)
  assume f: "\<And>s. s_send_window (f s) = s_send_window s" "\<And>s. s_reset s \<Longrightarrow> s_reset (f s)"
  have v: "n_outbox (on_stream sid f c1) = n_outbox c1" "n_conn_send_window (on_stream sid f c1) = n_conn_send_window c1"
    "n_peer_initial_window (on_stream sid f c1) = n_peer_initial_window c1" "n_peer_max_frame_size (on_stream sid f c1) = n_peer_max_frame_size c1"
    "n_last_peer_stream_id (on_stream sid f c1) = n_last_peer_stream_id c1" "n_dead (on_stream sid f c1) = n_dead c1"
    by (simp_all add: on_stream_def)
  show "calm c1 (on_stream sid f c1)" unfolding calm_def v using f by (auto split: if_splits)
qed

lemma calm_erase: "calm c c1 \<Longrightarrow> calm c (h2_erase_stream sid c1)"
proof (erule calm_trans)
  have v: "n_outbox (h2_erase_stream sid c1) = n_outbox c1" "n_conn_send_window (h2_erase_stream sid c1) = n_conn_send_window c1"
    "n_peer_initial_window (h2_erase_stream sid c1) = n_peer_initial_window c1" "n_peer_max_frame_size (h2_erase_stream sid c1) = n_peer_max_frame_size c1"
    "n_last_peer_stream_id (h2_erase_stream sid c1) = n_last_peer_stream_id c1" "n_dead (h2_erase_stream sid c1) = n_dead c1"
    by (simp_all add: h2_erase_stream_def)
  show "calm c1 (h2_erase_stream sid c1)" unfolding calm_def v by (auto split: if_splits)
qed

lemma calm_upd:
  assumes "calm c c1"
  shows "calm c (c1\<lparr>n_continuation_sid := u\<rparr>)" "calm c (c1\<lparr>n_decode_table := d\<rparr>)" "calm c (c1\<lparr>n_goaway_sent := b\<rparr>)"
    "calm c (c1\<lparr>n_goaway_received := b\<rparr>)" "calm c (c1\<lparr>n_active_tasks := n\<rparr>)" "calm c (c1\<lparr>n_spawned := sp\<rparr>)"
    "calm c (c1\<lparr>n_conn_recv_unacked := n\<rparr>)" "calm c (c1\<lparr>n_rbuf := bf\<rparr>)" "calm c (c1\<lparr>n_rbuf_offset := n\<rparr>)"
    "calm c (mark_dead c1)"
  using assms by (auto simp: calm_def mark_dead_def)


lemma calm_goaway: "calm c c1 \<Longrightarrow> calm c (send_goaway e c1)"
  by (simp add: send_goaway_def calm_enqueue calm_upd)

lemma calm_flush: "calm c c1 \<Longrightarrow> calm c (mark_dead_after_flush c1)"
  by (erule calm_trans) (auto simp: calm_def mark_dead_after_flush_def stream_at_def map_of_all)

lemma calm_connection_error: "calm c c1 \<Longrightarrow> calm c (snd (connection_error e c1))"
  by (simp add: connection_error_def calm_flush calm_goaway)

lemma calm_shutdown: "calm c c1 \<Longrightarrow> calm c (shutdown_begin c1)"
  by (simp add: shutdown_begin_def calm_flush)

lemmas calm_intros = calm_enqueue calm_on_stream calm_erase calm_upd calm_goaway calm_flush calm_connection_error calm_shutdown

lemma calm_reset: "calm c c1 \<Longrightarrow> calm c (reset_stream sid e c1)"
  by (auto simp: reset_stream_def Let_def split: option.split intro!: calm_intros)

lemma calm_dispatch: "calm c c1 \<Longrightarrow> calm c (dispatch sid c1)"
  unfolding dispatch_def by (intro calm_intros) simp_all

lemma calm_answer: "calm c c1 \<Longrightarrow> calm c (answer_error sid e c1)"
  by (auto simp: answer_error_def split: option.split intro!: calm_intros)

lemma calm_credit_connection: "calm c c1 \<Longrightarrow> calm c (credit_connection n c1)"
  by (auto simp: credit_connection_def Let_def intro!: calm_intros)

lemma calm_credit_at: "calm c c1 \<Longrightarrow> calm c (credit_at t sid n c1)"
  by (auto simp: credit_at_def Let_def split: option.split intro!: calm_intros)

lemma calm_finish_task: "calm c c1 \<Longrightarrow> calm c (finish_task sid c1)"
  by (auto simp: finish_task_def Let_def split: option.split intro!: calm_intros)

lemmas calm_ops = calm_intros calm_reset calm_dispatch calm_answer calm_credit_connection calm_credit_at calm_finish_task

lemma calm_headers_decoded: "calm c c1 \<Longrightarrow> calm c (headers_decoded sid st ok decoded c1)"
  by (auto simp: headers_decoded_def Let_def intro!: calm_ops)

lemma calm_finish_header_block: "calm c c1 \<Longrightarrow> finish_header_block sid c1 = Some (b, c') \<Longrightarrow> calm c c'"
  by (auto simp: finish_header_block_def Let_def connection_error_def split: option.splits block_status.splits
      intro!: calm_headers_decoded calm_ops)

lemma calm_on_continuation: "on_continuation hdr payload c = Some (b, c') \<Longrightarrow> calm c c'"
  by (auto simp: on_continuation_def Let_def connection_error_def split: option.splits if_splits
      intro!: calm_ops elim!: calm_finish_header_block [rotated])

lemma calm_take_data: "calm c c1 \<Longrightarrow> take_data cap sid n d st c1 = (b, c') \<Longrightarrow> calm c c'"
  by (auto simp: take_data_def Let_def credit_stream_def split: if_splits intro!: calm_ops)

lemma calm_on_data: "calm c (snd (on_data cap hdr payload c))"
  by (auto simp: on_data_def Let_def connection_error_def split: option.splits prod.splits bool.splits
      intro!: calm_ops elim!: calm_take_data [rotated])

lemma calm_on_rst: "calm c (snd (on_rst_stream hdr payload c))"
  by (auto simp: on_rst_stream_def Let_def connection_error_def split: option.split intro!: calm_ops)

lemma calm_on_ping: "length payload \<le> kMaxFrameSize \<Longrightarrow> calm c (snd (on_ping hdr payload c))"
  by (auto simp: on_ping_def connection_error_def intro!: calm_ops quiet_encode)

lemma calm_run_turn: "calm c (snd (run_turn accepting c))"
  by (auto simp: run_turn_def Let_def intro!: calm_ops)

lemma calm_read_end: "calm c (snd (read_end accepting ev c))"
  by (auto simp: read_end_def Let_def split: read_event.split intro!: calm_ops)

lemma calm_task_op: "task_op sid c c1 \<Longrightarrow> calm c c1"
  by (induction rule: task_op.induct)
    (auto simp: serve_begin_def tunnel_begin_def end_local_def tunnel_shutdown_send_def tunnel_cancel_def tunnel_close_def
      tunnel_read_def Let_def split: option.splits if_splits intro!: calm_ops)


section \<open>The invariant\<close>

definition flow_core :: "h2_event list \<Rightarrow> h2_session \<Rightarrow> bool" where
  "flow_core tr c \<longleftrightarrow> ledger_ok (wire_events tr) ledger_new \<and> n_conn_send_window c \<le> g_conn (ledger_of tr) \<and>
     unat (n_last_peer_stream_id c) < 2 ^ 31 \<and> (\<forall>k > n_last_peer_stream_id c. 0 \<le> g_stream (ledger_of tr) k)"

text \<open>While the reader runs, the windows of the session are not larger than those of the ledger; after it, nothing is sent.\<close>

definition in_step :: "ledger \<Rightarrow> h2_session \<Rightarrow> bool" where
  "in_step L c \<longleftrightarrow> g_init L = n_peer_initial_window c \<and> g_max L = n_peer_max_frame_size c \<and>
     (\<forall>k s. stream_at k c = Some s \<longrightarrow> \<not> s_reset s \<longrightarrow> s_send_window s \<le> g_init L + g_stream L k)"

definition stopped :: "h2_session \<Rightarrow> bool" where
  "stopped c \<longleftrightarrow> n_dead c \<or> (\<forall>k s. stream_at k c = Some s \<longrightarrow> s_reset s)"

definition flow_inv :: "h2_event list \<Rightarrow> h2_session \<Rightarrow> bool \<Rightarrow> bool" where
  "flow_inv tr c r \<longleftrightarrow> flow_core tr c \<and> (if r then in_step (ledger_of tr) c else stopped c)"

lemma ledger_of_append [simp]: "ledger_of (tr @ es) = fold ledger_step (wire_events es) (ledger_of tr)"
  by (simp add: ledger_of_def)

lemma calm_puts:
  assumes "calm c c'"
  shows "ledger_ok (wire_events (puts c c')) L" "fold ledger_step (wire_events (puts c c')) L = L"
  using assms quiet_puts [of _ L] by (auto simp: calm_def puts_def)

lemma core_calm: "flow_core tr c \<Longrightarrow> calm c c' \<Longrightarrow> flow_core (tr @ puts c c') c'"
  using calm_puts [of c c' "ledger_of tr"] unfolding flow_core_def
  by (simp add: ledger_ok_append ledger_of_def [symmetric]) (simp add: calm_def)

lemma in_step_calm: "in_step L c \<Longrightarrow> calm c c' \<Longrightarrow> in_step (fold ledger_step (wire_events (puts c c')) L) c'"
  using calm_puts(2) [of c c' L] unfolding in_step_def calm_def by simp metis

lemma stopped_calm: "stopped c \<Longrightarrow> calm c c' \<Longrightarrow> stopped c'"
  unfolding stopped_def calm_def by metis

lemma flow_calm: "flow_inv tr c r \<Longrightarrow> calm c c' \<Longrightarrow> flow_inv (tr @ puts c c') c' r"
  by (auto simp: flow_inv_def intro: core_calm in_step_calm stopped_calm split: if_splits)

lemma setting_keeps: "g_conn (fold ledger_setting ss L) = g_conn L \<and> g_stream (fold ledger_setting ss L) = g_stream L"
  by (induction ss arbitrary: L) (simp_all add: ledger_setting_def)

lemma rx_grows: "g_conn L \<le> g_conn (ledger_step (Rx hdr p) L) \<and> g_stream L k \<le> g_stream (ledger_step (Rx hdr p) L) k"
  by (auto simp: setting_keeps Let_def)

lemma core_got: "flow_core tr c \<Longrightarrow> flow_core (tr @ [Got hdr p]) c"
  using rx_grows [of "ledger_of tr" hdr p] unfolding flow_core_def
  by (simp add: ledger_ok_append ledger_of_def [symmetric] del: ledger_step.simps) (meson order_trans)

lemma flow_got_other:
  "flow_inv tr c r \<Longrightarrow> f_type hdr \<noteq> FT_WINDOW_UPDATE \<Longrightarrow> f_type hdr \<noteq> FT_SETTINGS \<Longrightarrow> flow_inv (tr @ [Got hdr p]) c r"
  using core_got [of tr c hdr p] by (auto simp: flow_inv_def in_step_def)

lemma stopped_shutdown: "stopped (shutdown_begin c)"
  by (auto simp: stopped_def shutdown_begin_def)

lemma core_shutdown: "flow_core tr c \<Longrightarrow> flow_core tr (shutdown_begin c)"
  by (simp add: flow_core_def shutdown_begin_def mark_dead_after_flush_def)

lemma flow_stop: "flow_core tr c \<Longrightarrow> flow_inv tr (shutdown_begin c) False"
  by (simp add: flow_inv_def core_shutdown stopped_shutdown)

lemma flow_stop_got:
  "flow_core (tr @ [Got hdr p]) c \<Longrightarrow> calm c c1 \<Longrightarrow> flow_inv (tr @ Got hdr p # puts c c1) (shutdown_begin c1) False"
  using flow_stop [OF core_calm, of "tr @ [Got hdr p]" c c1] by simp

lemma flow_upd [simp]:
  "flow_inv tr (c\<lparr>n_rbuf_offset := n\<rparr>) r = flow_inv tr c r" "flow_inv tr (c\<lparr>n_rbuf := b\<rparr>) r = flow_inv tr c r"
  "flow_inv tr (c\<lparr>n_outbox := o1\<rparr>) r = flow_inv tr c r" "flow_inv tr (c\<lparr>n_outbox_bytes := n\<rparr>) r = flow_inv tr c r"
  "flow_inv tr (c\<lparr>n_writer_active := v\<rparr>) r = flow_inv tr c r" "flow_inv tr (c\<lparr>n_continuation_sid := u\<rparr>) r = flow_inv tr c r"
  by (simp_all add: flow_inv_def flow_core_def in_step_def stopped_def)

lemma flow_dead: "flow_inv tr c r \<Longrightarrow> flow_inv tr (mark_dead c) r"
  by (auto simp: flow_inv_def flow_core_def in_step_def stopped_def mark_dead_def)

section \<open>Frames received\<close>

lemma unpack_bounds:
  assumes "unpack_frame_header buf = Some hdr"
  shows "unat (f_length hdr) < 2 ^ 24" "unat (f_stream_id hdr) < 2 ^ 31"
proof -
  have l: "unat (push_bit 16 (ucast (buf ! 0)) OR push_bit 8 (ucast (buf ! 1)) OR ucast (buf ! 2) :: u32) < 2 ^ 24"
    using be_nat_less [of "[buf ! 0, buf ! 1, buf ! 2]"] by (simp add: unat_3_octets)
  have a: "unat (ucast (buf ! 5) AND 0x7F :: u32) < 128" by (simp add: unat_and_low_masks)
  have "unat (push_bit 24 (ucast (buf ! 5) AND 0x7F) OR push_bit 16 (ucast (buf ! 6)) OR push_bit 8 (ucast (buf ! 7)) OR ucast (buf ! 8) :: u32)
      = unat (ucast (buf ! 5) AND 0x7F :: u32) * 2 ^ 24 + be_nat [buf ! 6, buf ! 7, buf ! 8]"
    using a by (intro unat_4_octets) simp
  also have "\<dots> < 2 ^ 31" using a be_nat_less [of "[buf ! 6, buf ! 7, buf ! 8]"] by simp
  finally show "unat (f_stream_id hdr) < 2 ^ 31" using assms by (auto simp: unpack_frame_header_def split: if_splits)
  show "unat (f_length hdr) < 2 ^ 24" using l assms by (auto simp: unpack_frame_header_def split: if_splits)
qed

lemma parse_frame_bounds_h2:
  "h2_parse_frame buf = Frame hdr p n \<Longrightarrow> unat (f_stream_id hdr) < 2 ^ 31 \<and> length p < 2 ^ 24"
  using unpack_bounds by (auto simp: h2_parse_frame_def Let_def split: option.splits if_splits)

lemma flow_headers_stream:
  assumes "flow_inv tr c True" "headers_stream hdr c = Inr c1" "unat (f_stream_id hdr) < 2 ^ 31"
  shows "flow_inv tr c1 True \<and> n_outbox c1 = n_outbox c"
proof (cases "stream_at (f_stream_id hdr) c")
  case (Some st)
  then have c1: "c1 = on_stream (f_stream_id hdr) (\<lambda>s. s\<lparr>s_header_block := []\<rparr>) c"
    using assms(2) by (auto simp: headers_stream_def Let_def split: if_splits)
  then have "calm c c1" "n_outbox c1 = n_outbox c" by (auto intro!: calm_ops) (simp add: on_stream_def)
  then show ?thesis using flow_calm [OF assms(1)] by (metis append_Nil2 puts_refl puts_def)
next
  case None
  let ?sid = "f_stream_id hdr"
  have new: "?sid > n_last_peer_stream_id c" and c1: "c1 = c\<lparr>n_last_peer_stream_id := ?sid, n_streams := n_streams c @ [(?sid, stream_new ?sid (n_peer_initial_window c))]\<rparr>"
    using assms(2) None by (auto simp: headers_stream_def Let_def split: if_splits)
  have at: "stream_at k c1 = (case stream_at k c of Some s \<Rightarrow> Some s | None \<Rightarrow> if k = ?sid then Some (stream_new ?sid (n_peer_initial_window c)) else None)" for k
    by (simp add: c1 stream_at_def map_add_def split: option.split)
  have "0 \<le> g_stream (ledger_of tr) ?sid" using assms(1) new by (simp add: flow_inv_def flow_core_def)
  moreover have "n_peer_initial_window c1 = n_peer_initial_window c" "n_peer_max_frame_size c1 = n_peer_max_frame_size c" by (simp_all add: c1)
  ultimately have "in_step (ledger_of tr) c1"
    using assms(1) unfolding flow_inv_def in_step_def at by (auto simp: stream_new_def split: option.splits if_splits)
  moreover have "flow_core tr c1" using assms(1,3) new by (auto simp: flow_inv_def flow_core_def c1)
  ultimately show ?thesis by (simp add: flow_inv_def c1)
qed

lemma on_headers_calm:
  assumes "on_headers hdr payload c = Some (b, c')"
  shows "\<exists>c0. (c0 = c \<or> headers_stream hdr c = Inr c0) \<and> calm c0 c'"
proof (cases "\<exists>fragment c0. headers_fragment hdr payload = Some fragment \<and> headers_stream hdr c = Inr c0 \<and> \<not> (f_stream_id hdr = 0 \<or> f_stream_id hdr AND 1 = 0)")
  case True
  then obtain fragment c0 where f: "headers_fragment hdr payload = Some fragment" "headers_stream hdr c = Inr c0" "\<not> (f_stream_id hdr = 0 \<or> f_stream_id hdr AND 1 = 0)" by auto
  have "calm c0 c'" using assms unfolding on_headers_def
    by (auto simp: f Let_def split: if_splits intro!: calm_ops elim!: calm_finish_header_block [rotated])
  then show ?thesis using f by auto
next
  case False
  then obtain e where "connection_error e c = (b, c')" using assms
    by (auto simp: on_headers_def Let_def split: if_splits option.splits sum.splits)
  then have "calm c c'" using calm_connection_error [OF calm_refl, of c e] by (metis snd_conv)
  then show ?thesis by auto
qed


lemma in_step_mono:
  assumes "in_step L c" "g_init L' = g_init L" "g_max L' = g_max L" "\<And>k. g_stream L k \<le> g_stream L' k"
  shows "in_step L' c"
proof -
  have "s_send_window s \<le> g_init L' + g_stream L' k" if "stream_at k c = Some s" "\<not> s_reset s" for k s
    using assms that unfolding in_step_def by (metis add_left_mono order_trans)
  then show ?thesis using assms(1-3) by (auto simp: in_step_def)
qed

lemma flow_window_update:
  assumes "flow_inv tr c True" "f_type hdr = FT_WINDOW_UPDATE" "on_window_update hdr p c = (ok, c1)"
  shows "flow_inv (tr @ Got hdr p # puts c c1) (if ok then c1 else shutdown_begin c1) ok"
proof -
  let ?inc = "unat (read_u32 p AND 0x7FFFFFFF)" and ?sid = "f_stream_id hdr" and ?tr = "tr @ [Got hdr p]"
  have got: "tr @ Got hdr p # puts a b = ?tr @ puts a b" for a b by simp
  have core: "flow_core ?tr c" using assms(1) core_got by (auto simp: flow_inv_def)
  have stop: ?thesis if "(ok, c1) = connection_error e c" for e
  proof -
    have "\<not> ok" "calm c c1" using that calm_connection_error [OF calm_refl, of c e] by (auto simp: connection_error_def)
    then show ?thesis using flow_stop_got [OF core] by simp
  qed
  show ?thesis
  proof (cases "length p = 4")
    case False
    then show ?thesis using assms(3) by (intro stop [of FRAME_SIZE_ERROR]) (simp add: on_window_update_def)
  next
    case len: True
    show ?thesis
    proof (cases "?sid = 0")
      case True
      define c0 where "c0 = c\<lparr>n_conn_send_window := n_conn_send_window c + int ?inc\<rparr>"
      have L: "ledger_of ?tr = (ledger_of tr)\<lparr>g_conn := g_conn (ledger_of tr) + int ?inc\<rparr>"
        using assms(2) len True by simp
      have c0: "flow_inv ?tr c0 True"
        using assms(1) unfolding flow_inv_def flow_core_def in_step_def L by (auto simp: c0_def ledger_ok_append)
      have e: "calm c0 (snd (connection_error FLOW_CONTROL_ERROR c0))" by (rule calm_connection_error) simp
      have o: "puts c0 x = puts c x" for x by (simp add: puts_def c0_def)
      have w: "on_window_update hdr p c = (if ?inc = 0 then connection_error PROTOCOL_ERROR c
          else if n_conn_send_window c0 > kMaxWindow then connection_error FLOW_CONTROL_ERROR c0 else (True, c0))"
        using len True by (simp add: on_window_update_def c0_def Let_def)
      consider "?inc = 0" | "?inc \<noteq> 0" "n_conn_send_window c0 > kMaxWindow" | "?inc \<noteq> 0" "\<not> n_conn_send_window c0 > kMaxWindow" by blast
      then show ?thesis
      proof cases
        case 1
        then show ?thesis using assms(3) w by (intro stop [of PROTOCOL_ERROR]) simp
      next
        case 2
        then have "\<not> ok" "c1 = snd (connection_error FLOW_CONTROL_ERROR c0)" using assms(3) w by (auto simp: connection_error_def)
        then show ?thesis using flow_stop_got [of tr hdr p c0, OF _ e] c0 by (simp add: flow_inv_def [of "tr @ [Got hdr p]"] o)
      next
        case 3
        then have "ok" "c1 = c0" using assms(3) w by auto
        then show ?thesis unfolding got using c0 o [of c0] by simp
      qed
    next
      case sid: False
      let ?L = "ledger_of tr"
      have L: "ledger_of ?tr = ?L\<lparr>g_stream := (g_stream ?L)(?sid := g_stream ?L ?sid + int ?inc)\<rparr>"
        using assms(2) len sid by simp
      have "in_step (ledger_of ?tr) c"
        unfolding L by (rule in_step_mono [of ?L]) (use assms(1) in \<open>auto simp: flow_inv_def\<close>)
      then have same: "flow_inv ?tr c True" using core by (simp only: flow_inv_def if_True simp_thms)
      define c0 where "c0 = on_stream ?sid (\<lambda>s. s\<lparr>s_send_window := s_send_window s + int ?inc\<rparr>) c"
      have v: "n_conn_send_window c0 = n_conn_send_window c" "n_last_peer_stream_id c0 = n_last_peer_stream_id c" "n_outbox c0 = n_outbox c"
        "n_peer_initial_window c0 = n_peer_initial_window c" "n_peer_max_frame_size c0 = n_peer_max_frame_size c"
        "stream_at k c0 = (if k = ?sid then map_option (\<lambda>s. s\<lparr>s_send_window := s_send_window s + int ?inc\<rparr>) (stream_at k c) else stream_at k c)" for k
        by (simp_all add: c0_def) (simp_all add: on_stream_def)
      have c0: "flow_inv ?tr c0 True"
        using core assms(1) unfolding flow_inv_def flow_core_def in_step_def L v by (auto simp: L split: if_splits)
      have o: "puts c0 x = puts c x" for x by (simp add: puts_def v)
      have w: "on_window_update hdr p c = (case stream_at ?sid c of None \<Rightarrow> (True, c) | Some st \<Rightarrow>
          if ?inc = 0 then (True, reset_stream ?sid PROTOCOL_ERROR c)
          else if s_send_window st + int ?inc > kMaxWindow then (True, reset_stream ?sid FLOW_CONTROL_ERROR c0) else (True, c0))"
        using len sid by (cases "stream_at ?sid c") (simp_all add: on_window_update_def c0_def Let_def)
      have "flow_inv (?tr @ puts c (reset_stream ?sid PROTOCOL_ERROR c)) (reset_stream ?sid PROTOCOL_ERROR c) True"
        by (rule flow_calm [OF same]) (simp add: calm_reset)
      moreover have "flow_inv (?tr @ puts c (reset_stream ?sid FLOW_CONTROL_ERROR c0)) (reset_stream ?sid FLOW_CONTROL_ERROR c0) True"
        unfolding o [symmetric] by (rule flow_calm [OF c0]) (simp add: calm_reset)
      moreover have "ok" using assms(3) w by (auto split: option.splits if_splits)
      ultimately show ?thesis unfolding got using assms(3) w same c0 o [of c0] by (auto split: option.splits if_splits)
    qed
  qed
qed

definition same_core :: "h2_session \<Rightarrow> h2_session \<Rightarrow> bool" where
  "same_core c c0 \<longleftrightarrow> n_outbox c0 = n_outbox c \<and> n_conn_send_window c0 = n_conn_send_window c \<and> n_last_peer_stream_id c0 = n_last_peer_stream_id c"

lemma core_same: "flow_core tr c \<Longrightarrow> same_core c c0 \<Longrightarrow> flow_core tr c0 \<and> puts c0 = puts c"
  by (auto simp: flow_core_def same_core_def puts_def)

lemma apply_setting_in_step:
  assumes "in_step L c" "apply_setting i v c = Inr c0"
  shows "in_step (ledger_setting (i, v) L) c0 \<and> same_core c c0"
proof -
  have ne: "settings_id MAX_FRAME_SIZE \<noteq> settings_id INITIAL_WINDOW_SIZE" by (simp add: settings_id_def)
  consider (win) "i = settings_id INITIAL_WINDOW_SIZE" "c0 = apply_initial_window (int v) c"
    | (mx) "i = settings_id MAX_FRAME_SIZE" "c0 = c\<lparr>n_peer_max_frame_size := v\<rparr>"
    | (other) "i \<noteq> settings_id INITIAL_WINDOW_SIZE" "i \<noteq> settings_id MAX_FRAME_SIZE" "c0 = c"
    using assms(2) by (auto simp: apply_setting_def split: if_splits)
  then show ?thesis
  proof cases
    case win
    have v: "n_peer_initial_window c0 = int v" "n_peer_max_frame_size c0 = n_peer_max_frame_size c" "same_core c c0"
      by (simp_all add: win apply_initial_window_def Let_def same_core_def)
    have at: "stream_at k c0 = map_option (\<lambda>s. s\<lparr>s_send_window := s_send_window s + (int v - n_peer_initial_window c)\<rparr>) (stream_at k c)" for k
      by (simp add: win)
    have "in_step (ledger_setting (i, v) L) c0"
      using assms(1) unfolding in_step_def at v by (fastforce simp: ledger_setting_def win(1))
    then show ?thesis using v(3) by simp
  next
    case mx
    then show ?thesis using assms(1) ne unfolding in_step_def
      by (auto simp: ledger_setting_def same_core_def stream_at_def)
  qed (use assms(1) in \<open>simp_all add: ledger_setting_def same_core_def\<close>)
qed

lemma flow_settings_loop:
  assumes "in_step L c" "settings_loop p c = (ok, c1)"
  shows "\<exists>c0. same_core c c0 \<and> (if ok then c1 = c0 \<and> in_step (fold ledger_setting (setting_pairs p) L) c0 else \<exists>e. c1 = snd (connection_error e c0))"
  using assms
proof (induction p c arbitrary: L rule: settings_loop.induct)
  case (1 a b p q r t rest c)
  let ?i = "push_bit 8 (ucast a) OR ucast b :: u16" and ?v = "unat (read_u32 [p, q, r, t])"
  show ?case
  proof (cases "apply_setting ?i ?v c")
    case (Inl e)
    then have "connection_error e c = (ok, c1)" using "1.prems"(2) by simp
    then have "\<not> ok" "c1 = snd (connection_error e c)" by (auto simp: connection_error_def)
    then show ?thesis by (auto simp: same_core_def intro!: exI [of _ c])
  next
    case (Inr c0)
    note s = apply_setting_in_step [OF "1.prems"(1) Inr]
    have "settings_loop rest c0 = (ok, c1)" using "1.prems"(2) Inr by simp
    from "1.IH" [OF Inr conjunct1 [OF s] this] s show ?thesis by (auto simp: same_core_def)
  qed
qed (auto simp: same_core_def)

lemma flow_settings:
  assumes "flow_inv tr c True" "f_type hdr = FT_SETTINGS" "on_settings hdr p c = (ok, c1)"
  shows "flow_inv (tr @ Got hdr p # puts c c1) (if ok then c1 else shutdown_begin c1) ok"
proof -
  let ?tr = "tr @ [Got hdr p]"
  have got: "tr @ Got hdr p # puts a b = ?tr @ puts a b" for a b by simp
  have core: "flow_core ?tr c" using assms(1) core_got by (auto simp: flow_inv_def)
  have stop: ?thesis if "same_core c c0" "\<not> ok" "c1 = snd (connection_error e c0)" for c0 e
  proof -
    have "calm c0 c1" using that(3) calm_connection_error [OF calm_refl, of c0 e] by simp
    moreover have "flow_core ?tr c0" "puts c0 = puts c" using core_same [OF core that(1)] by auto
    ultimately show ?thesis using flow_stop_got [of tr hdr p c0 c1] that(2) by simp
  qed
  obtain ok2 c2 where sl: "settings_loop p c = (ok2, c2)" by (cases "settings_loop p c")
  have "(\<exists>e. connection_error e c = (ok, c1)) \<or> (has_flag FL_ACK hdr \<and> ok \<and> c1 = c)
    \<or> (\<not> has_flag FL_ACK hdr \<and> ok = ok2 \<and> c1 = (if ok2 then h2_enqueue serialize_settings_ack c2 else c2))"
    using assms(3) unfolding on_settings_def sl prod.case
    by (cases "f_stream_id hdr \<noteq> 0"; cases "has_flag FL_ACK hdr"; cases "p = []"; cases "length p mod 6 \<noteq> 0"; cases ok2) (simp_all only: if_True if_False simp_thms bool.case, blast+)
  then consider (err) e where "connection_error e c = (ok, c1)" | (ack) "has_flag FL_ACK hdr" "ok" "c1 = c"
    | (loop) "\<not> has_flag FL_ACK hdr" "ok = ok2" "c1 = (if ok2 then h2_enqueue serialize_settings_ack c2 else c2)" by blast
  then show ?thesis
  proof cases
    case err
    then show ?thesis by (intro stop [of c e]) (auto simp: same_core_def connection_error_def)
  next
    case ack
    then have "ledger_of ?tr = ledger_of tr" using assms(2) by simp
    then have "flow_inv ?tr c True" using assms(1) core by (simp add: flow_inv_def)
    then show ?thesis unfolding got using ack by simp
  next
    case loop
    have i: "in_step (ledger_of tr) c" using assms(1) by (simp add: flow_inv_def)
    obtain c0 where c0: "same_core c c0" "if ok then c2 = c0 \<and> in_step (fold ledger_setting (setting_pairs p) (ledger_of tr)) c0 else \<exists>e. c2 = snd (connection_error e c0)"
      using flow_settings_loop [OF i sl] loop(2) by auto
    show ?thesis
    proof (cases ok)
      case False
      then obtain e where "c1 = snd (connection_error e c0)" using c0(2) loop(2,3) by auto
      then show ?thesis by (rule stop [OF c0(1) False])
    next
      case True
      have "ledger_of ?tr = fold ledger_setting (setting_pairs p) (ledger_of tr)" using assms(2) loop(1) by simp
      then have "flow_inv ?tr c0 True" using c0 True core_same [OF core c0(1)] by (simp add: flow_inv_def)
      then have "flow_inv (?tr @ puts c0 c1) c1 True" using c0(2) loop(2,3) True by (intro flow_calm) (auto intro!: calm_enqueue)
      moreover have "puts c0 = puts c" using core_same [OF core c0(1)] by simp
      ultimately show ?thesis unfolding got by (simp only: True if_True)
    qed
  qed
qed

lemma flow_handle_frame:
  assumes "flow_inv tr c True" "handle_frame cap hdr p c = Some (ok, c1)" "unat (f_stream_id hdr) < 2 ^ 31" "length p \<le> kMaxFrameSize"
  shows "flow_inv (tr @ Got hdr p # puts c c1) (if ok then c1 else shutdown_begin c1) ok"
proof -
  let ?tr = "tr @ [Got hdr p]"
  have got: "tr @ Got hdr p # puts a b = ?tr @ puts a b" for a b by simp
  have fin: ?thesis if "flow_inv (?tr @ puts c c1) c1 True"
    using that flow_stop [of "?tr @ puts c c1" c1] unfolding got by (simp add: flow_inv_def)
  have other: ?thesis if "calm c c1" "f_type hdr \<noteq> FT_WINDOW_UPDATE" "f_type hdr \<noteq> FT_SETTINGS"
    by (rule fin) (intro flow_calm flow_got_other assms(1) that)
  from assms(2) show ?thesis
  proof (cases rule: handle_frame_cases)
    case violation
    then have "\<not> ok" "calm c c1" by (auto simp: connection_error_def intro!: calm_ops)
    moreover have "flow_core ?tr c" using assms(1) core_got by (auto simp: flow_inv_def)
    ultimately show ?thesis using flow_stop_got by simp
  next
    case headers
    obtain c0 where c0: "c0 = c \<or> headers_stream hdr c = Inr c0" "calm c0 c1" using on_headers_calm [OF headers(3)] by auto
    have g: "flow_inv ?tr c True" using flow_got_other [OF assms(1)] headers(2) by simp
    have "flow_inv ?tr c0 True \<and> n_outbox c0 = n_outbox c" using c0(1) g flow_headers_stream [OF g _ assms(3)] by auto
    then have o: "flow_inv ?tr c0 True" "puts c0 c1 = puts c c1" by (simp_all add: puts_def)
    show ?thesis using flow_calm [OF o(1) c0(2)] unfolding o(2) by (rule fin)
  next
    case window
    then show ?thesis using flow_window_update [OF assms(1) window(2)] by (metis prod.collapse)
  next
    case settings
    then show ?thesis using flow_settings [OF assms(1) settings(2)] by (metis prod.collapse)
  next
    case continuation
    then show ?thesis by (intro other calm_on_continuation) auto
  next
    case data
    then show ?thesis using calm_on_data [of c cap hdr p] by (intro other) auto
  next
    case ping
    then show ?thesis using calm_on_ping [OF assms(4), of c hdr] by (intro other) auto
  next
    case rst
    then show ?thesis using calm_on_rst [of c hdr p] by (intro other) auto
  next
    case goaway
    then show ?thesis by (intro other) (auto intro: calm_ops)
  next
    case ignored
    then show ?thesis by (intro other) auto
  qed
qed


section \<open>Frames sent\<close>

definition task_wf :: "send_task \<Rightarrow> bool" where
  "task_wf t \<longleftrightarrow> (case t_phase t of At_head \<Rightarrow> True | Want_room hdr p \<Rightarrow> length p < 2 ^ 24 | In_data hdr p offset \<Rightarrow> length p < 2 ^ 24)"

lemma send_head_next:
  assumes "send_head t c = Goes_on t'"
  shows "\<exists>hdr p. t_phase t' = Want_room hdr p \<and> length p < 2 ^ 24"
proof -
  obtain hdr where h: "unpack_frame_header (drop (t_cursor t) (t_bytes t)) = Some hdr"
    "t_phase t' = Want_room hdr (substr (t_bytes t) (t_cursor t + 9) (unat (f_length hdr)))"
    using assms by (auto simp: send_head_def Let_def split: if_splits option.splits)
  then show ?thesis using unpack_bounds(1) [OF h(1)] by (auto simp: min_def)
qed

lemma send_room_next:
  assumes "send_room expired hdr p t c = (Goes_on t', c1)"
  shows "t_phase t' = At_head \<or> t_phase t' = In_data hdr p 0"
proof -
  have "t' = t\<lparr>t_phase := At_head\<rparr> \<or> t' = t\<lparr>t_phase := In_data hdr p 0\<rparr>"
    using assms unfolding send_room_def Let_def by (simp split: if_splits)
  then show ?thesis by auto
qed

lemma send_data_next:
  assumes "send_data expired hdr p offset t c = (Goes_on t', c1)"
  shows "t_phase t' = At_head \<or> (\<exists>k. t_phase t' = In_data hdr p k)"
proof -
  have "t' = t\<lparr>t_phase := At_head\<rparr> \<or> (\<exists>k. t' = t\<lparr>t_phase := In_data hdr p k\<rparr>)"
    using assms unfolding send_data_def Let_def by (simp only: prod.inject send_step.simps if_False split: if_splits) blast+
  then show ?thesis by auto
qed

lemma task_wf_turn:
  assumes "task_wf t" "send_turn expired t c = (Goes_on t', c1)"
  shows "task_wf t'"
proof (cases "t_phase t")
  case At_head
  then show ?thesis using assms(2) send_head_next [of t c t'] by (auto simp: task_wf_def send_turn_def)
next
  case (Want_room hdr p)
  then show ?thesis using assms send_room_next [of expired hdr p t c t' c1] by (auto simp: task_wf_def send_turn_def)
next
  case (In_data hdr p offset)
  then show ?thesis using assms send_data_next [of expired hdr p offset t c t' c1] by (auto simp: task_wf_def send_turn_def)
qed

lemma continuation_frames_put:
  "length block < 2 ^ 24 \<Longrightarrow> list_all (\<lambda>(hdr, p). f_type hdr = FT_CONTINUATION) (put_frames (continuation_frames sid block mx offset))"
proof (induction sid block mx offset rule: continuation_frames.induct)
  case (1 sid block mx offset)
  show ?case
  proof (cases "mx \<noteq> 0 \<and> offset < length block")
    case True
    have "length (substr block offset mx) < 2 ^ 24" using "1.prems" by simp
    then show ?thesis using True "1.IH" [OF True refl refl "1.prems"]
      by (subst continuation_frames.simps) (simp add: Let_def put_frames_encode)
  next
    case False
    then show ?thesis by (subst continuation_frames.simps) auto
  qed
qed

lemma header_frames_put:
  assumes "length block < 2 ^ 24"
  shows "list_all (\<lambda>(hdr, p). f_type hdr \<noteq> FT_DATA \<and> (f_type hdr = FT_HEADERS \<longrightarrow> length p \<le> mx)) (put_frames (encode_header_frames sid block es mx))"
proof (cases "length block \<le> mx")
  case True
  then show ?thesis using assms by (simp add: encode_header_frames_def Let_def put_frames_one)
next
  case False
  have "length (take mx block) < 2 ^ 24" using assms by simp
  moreover have "list_all (\<lambda>(hdr, p). f_type hdr \<noteq> FT_DATA \<and> (f_type hdr = FT_HEADERS \<longrightarrow> length p \<le> mx)) (put_frames (continuation_frames sid block mx mx))"
    using continuation_frames_put [OF assms, of sid mx mx] by (auto simp: list_all_iff)
  ultimately show ?thesis using False by (simp add: encode_header_frames_def Let_def put_frames_encode)
qed

lemma header_frames_ledger:
  assumes "list_all (\<lambda>(hdr, p). f_type hdr \<noteq> FT_DATA \<and> (f_type hdr = FT_HEADERS \<longrightarrow> length p \<le> g_max L)) fs"
  shows "ledger_ok (map (\<lambda>(hdr, p). Tx hdr p) fs) L \<and> fold ledger_step (map (\<lambda>(hdr, p). Tx hdr p) fs) L = L"
  using assms by (induction fs) auto

lemma flow_silent:
  assumes "flow_inv tr c r" "ledger_ok (wire_events es) (ledger_of tr)" "fold ledger_step (wire_events es) (ledger_of tr) = ledger_of tr"
  shows "flow_inv (tr @ es) c r"
proof -
  have "ledger_of (tr @ es) = ledger_of tr" using assms(3) by simp
  moreover have "ledger_ok (wire_events (tr @ es)) ledger_new"
    using assms(1,2) by (simp add: ledger_ok_append ledger_of_def [symmetric] flow_inv_def flow_core_def)
  ultimately show ?thesis using assms(1) unfolding flow_inv_def flow_core_def by metis
qed

lemma enqueue_puts: "\<not> n_dead c \<Longrightarrow> fr \<noteq> [] \<Longrightarrow> puts c (h2_enqueue fr c) = [Put fr]"
  by (simp add: puts_def h2_enqueue_def)

lemma flow_enqueue_upd [simp]: "flow_inv tr (h2_enqueue fr c) r = flow_inv tr c r"
  by (simp add: h2_enqueue_def)

lemma puts_close_local [simp]: "puts c (close_local sid hdr c1) = puts c c1"
  by (simp add: puts_def close_local_def on_stream_def)

lemma flow_close_local: "flow_inv tr c r \<Longrightarrow> flow_inv tr (close_local sid hdr c) r"
proof -
  assume f: "flow_inv tr c r"
  have "calm c (close_local sid hdr c)" by (simp add: close_local_def calm_on_stream)
  from flow_calm [OF f this] show ?thesis by simp
qed

text \<open>A stream that can send is in step with the ledger.\<close>

lemma not_failed:
  assumes "flow_inv tr c r" "\<not> send_failed sid c"
  obtains st where "r" "stream_at sid c = Some st" "\<not> s_reset st" "\<not> n_dead c"
  using assms by (auto simp: send_failed_def flow_inv_def stopped_def split: option.splits if_splits)

lemma flow_put_headers:
  assumes "flow_inv tr c r" "\<not> send_failed sid c" "length p < 2 ^ 24"
  shows "flow_inv (tr @ puts c (h2_enqueue (encode_header_frames sid p es (n_peer_max_frame_size c)) c))
    (h2_enqueue (encode_header_frames sid p es (n_peer_max_frame_size c)) c) r"
proof -
  let ?fr = "encode_header_frames sid p es (n_peer_max_frame_size c)"
  obtain st where st: "r" "\<not> n_dead c" using not_failed [OF assms(1,2)] by blast
  have ne: "?fr \<noteq> []" by (simp add: encode_header_frames_def h2_encode_frame_def pack_octets Let_def)
  have "g_max (ledger_of tr) = n_peer_max_frame_size c" using assms(1) st(1) by (simp add: flow_inv_def in_step_def)
  then have "list_all (\<lambda>(hdr, p). f_type hdr \<noteq> FT_DATA \<and> (f_type hdr = FT_HEADERS \<longrightarrow> length p \<le> g_max (ledger_of tr))) (put_frames ?fr)"
    using header_frames_put [OF assms(3), of "n_peer_max_frame_size c" sid es] by simp
  from header_frames_ledger [OF this] have "flow_inv (tr @ [Put ?fr]) c r" by (intro flow_silent assms(1)) simp_all
  then show ?thesis by (simp add: enqueue_puts [OF st(2) ne])
qed

lemma chunk_len_le:
  "data_chunk_len p offset sw c \<le> length p - offset"
  "data_chunk_len p offset sw c \<le> nat (min sw (n_conn_send_window c) mod 2 ^ 64)"
  "data_chunk_len p offset sw c \<le> n_peer_max_frame_size c"
  unfolding data_chunk_len_def by (rule min.cobounded1, rule min.coboundedI2, rule min.cobounded1, rule min.coboundedI2, rule min.cobounded2)

lemma chunk_len_bounds:
  assumes "offset < length p \<longrightarrow> 0 < sw \<and> 0 < n_conn_send_window c" "n = data_chunk_len p offset sw c" "0 < n"
  shows "int n \<le> sw" "int n \<le> n_conn_send_window c" "n \<le> n_peer_max_frame_size c"
proof -
  let ?w = "min sw (n_conn_send_window c)"
  have "offset < length p" using assms(3) chunk_len_le(1) [of p offset sw c] unfolding assms(2) by linarith
  then have w: "0 < ?w" using assms(1) by simp
  have "n \<le> nat (?w mod 2 ^ 64)" unfolding assms(2) by (rule chunk_len_le)
  then have "int n \<le> int (nat (?w mod 2 ^ 64))" by (simp only: of_nat_le_iff)
  also have "\<dots> = ?w mod 2 ^ 64" by (rule nat_0_le) (rule pos_mod_sign, rule zero_less_power, rule zero_less_numeral)
  also have "\<dots> \<le> ?w" using w by (intro zmod_le_nonneg_dividend) simp
  finally show "int n \<le> sw" "int n \<le> n_conn_send_window c" by auto
  show "n \<le> n_peer_max_frame_size c" unfolding assms(2) by (rule chunk_len_le)
qed

lemma flow_put_data:
  assumes "flow_inv tr c r" "tasks_inv c" "stream_at sid c = Some st" "\<not> s_reset st" "\<not> n_dead c" "length p < 2 ^ 24"
    "offset < length p \<longrightarrow> 0 < s_send_window st \<and> 0 < n_conn_send_window c" "n = data_chunk_len p offset (s_send_window st) c"
  shows "flow_inv (tr @ puts c (put_data hdr p offset n sid c)) (put_data hdr p offset n sid c) r"
proof -
  let ?L = "ledger_of tr" and ?q = "substr p offset n" and ?c = "put_data hdr p offset n sid c"
  let ?fl = "if offset + n = length p \<and> has_flag FL_END_STREAM hdr then FL_END_STREAM else FL_NONE"
  let ?fr = "h2_encode_frame FT_DATA ?fl sid ?q"
  have "\<not> stopped c" using assms(3-5) unfolding stopped_def by blast
  then have r: "r" using assms(1) unfolding flow_inv_def by (cases r) simp_all
  have le: "n \<le> length p - offset" unfolding assms(8) by (rule chunk_len_le)
  then have mn: "min (length p - offset) n = n" and q: "length ?q = n" by simp_all
  have last: "unat (n_last_peer_stream_id c) < 2 ^ 31" using assms(1) by (simp add: flow_inv_def flow_core_def)
  have m: "(sid, st) \<in> set (n_streams c)" using assms(3) by (auto simp: stream_at_def dest: map_of_SomeD)
  then have sid: "sid \<le> n_last_peer_stream_id c" using assms(2) by (force simp: tasks_inv_def)
  then have "unat sid < 2 ^ 31" using last by (simp add: word_le_nat_alt)
  then have msk: "sid AND 0x7FFFFFFF = sid" by (intro unat_eqI) (simp add: unat_and_31)
  have i: "in_step ?L c" using assms(1) r by (simp add: flow_inv_def)
  have pf: "put_frames ?fr = [(\<lparr>f_length = of_nat n, f_stream_id = sid, f_type = FT_DATA, f_flags = ?fl\<rparr>, ?q)]"
    using put_frames_one [of ?q FT_DATA ?fl sid] assms(6) q msk by simp
  have ne: "?fr \<noteq> []" by (simp add: h2_encode_frame_def pack_octets)
  have pu: "puts c ?c = [Put ?fr]" using assms(5) ne by (simp add: puts_def put_data_def on_stream_def h2_enqueue_def)
  define L' where "L' = ?L\<lparr>g_conn := g_conn ?L - int n, g_stream := (g_stream ?L)(sid := g_stream ?L sid - int n)\<rparr>"
  have L: "ledger_of (tr @ puts c ?c) = L'" unfolding pu by (simp add: pf mn L'_def)
  have w: "s_send_window st \<le> g_init ?L + g_stream ?L sid" "n_conn_send_window c \<le> g_conn ?L" "g_max ?L = n_peer_max_frame_size c"
    using i assms(1,3,4) by (auto simp: in_step_def flow_inv_def flow_core_def)
  have "within_ledger (Tx \<lparr>f_length = of_nat n, f_stream_id = sid, f_type = FT_DATA, f_flags = ?fl\<rparr> ?q) ?L"
    using w chunk_len_bounds [OF assms(7,8)] q by (cases "n = 0") auto
  then have ok: "ledger_ok (wire_events (tr @ puts c ?c)) ledger_new"
    using assms(1) unfolding pu by (simp add: pf ledger_ok_append ledger_of_def [symmetric] flow_inv_def flow_core_def)
  have v: "n_conn_send_window ?c = n_conn_send_window c - int n" "n_last_peer_stream_id ?c = n_last_peer_stream_id c"
    "n_peer_initial_window ?c = n_peer_initial_window c" "n_peer_max_frame_size ?c = n_peer_max_frame_size c"
    by (simp_all add: put_data_def on_stream_def h2_enqueue_def)
  have at: "stream_at k ?c = (if k = sid then map_option (\<lambda>s. s\<lparr>s_send_window := s_send_window s - int n\<rparr>) (stream_at k c) else stream_at k c)" for k
    by (simp add: put_data_def)
  have "flow_core (tr @ puts c ?c) ?c"
    using assms(1) ok sid unfolding flow_core_def L v by (auto simp: flow_inv_def flow_core_def L'_def)
  moreover have "in_step (ledger_of (tr @ puts c ?c)) ?c"
    using i unfolding in_step_def L v at by (auto simp: L'_def split: if_splits)
  ultimately show ?thesis using r by (simp only: flow_inv_def if_True simp_thms)
qed

lemma flow_send_turn:
  assumes "flow_inv tr c r" "tasks_inv c" "task_wf t" "send_turn expired t c = (res, c1)"
  shows "flow_inv (tr @ puts c c1) c1 r"
  using assms(4)
proof (cases rule: send_turn_cases)
  case same
  then show ?thesis using assms(1) by simp
next
  case (frame hdr p fr)
  have p: "length p < 2 ^ 24" using assms(3) frame(1) by (simp add: task_wf_def)
  have "flow_inv (tr @ puts c (h2_enqueue fr c)) (h2_enqueue fr c) r"
  proof (cases "f_type hdr = FT_HEADERS")
    case True
    then show ?thesis unfolding frame(5) using flow_put_headers [OF assms(1) frame(3) p] by simp
  next
    case False
    then have "quiet fr" using frame(2,5) p by (simp add: quiet_encode)
    then show ?thesis by (intro flow_calm assms(1) calm_enqueue calm_refl)
  qed
  then show ?thesis using flow_close_local unfolding frame(4) by simp
next
  case (data hdr p offset st)
  have p: "length p < 2 ^ 24" using assms(3) data(1) by (simp add: task_wf_def)
  note d = flow_put_data [OF assms(1,2) data(2-4) p data(5) refl, of hdr]
  then show ?thesis using data(6) flow_close_local by auto
qed

section \<open>Runs\<close>

lemma flow_start: "flow_inv [Put session_preamble] (session_start buffered) True"
proof -
  have L: "ledger_ok (wire_events [Put session_preamble]) ledger_new" "ledger_of [Put session_preamble] = ledger_new"
    using quiet_puts [of "[session_preamble]" ledger_new] quiet_preamble by (simp_all add: ledger_of_def)
  have "n_conn_send_window (session_start buffered) = 65535" "n_last_peer_stream_id (session_start buffered) = 0"
    "n_peer_initial_window (session_start buffered) = 65535" "n_peer_max_frame_size (session_start buffered) = 16384"
    "stream_at k (session_start buffered) = None" for k
    by (simp_all add: session_start_def h2_enqueue_def session_new_def stream_at_def)
  then show ?thesis using L by (simp add: flow_inv_def flow_core_def in_step_def ledger_new_def)
qed

lemma flow_leave: "flow_inv tr c True \<Longrightarrow> flow_inv tr (if go then c else shutdown_begin c) go"
  using flow_stop [of tr c] by (simp add: flow_inv_def)

lemma task_wf_remove: "list_all task_wf ts \<Longrightarrow> list_all task_wf (remove1 t ts)"
  by (meson list_all_iff notin_set_remove1 set_remove1_subset subsetD)

lemma flow_run: "h2_run cap tr c ts r \<Longrightarrow> flow_inv tr c r \<and> list_all task_wf ts"
proof (induction rule: h2_run.induct)
  case (start buffered)
  then show ?case by (simp add: flow_start)
next
  case (frame tr c ts hdr payload n ok c1)
  have "unat (f_stream_id hdr) < 2 ^ 31" using parse_frame_bounds_h2 [OF frame.hyps(3)] by simp
  from flow_handle_frame [OF _ frame.hyps(5) this frame.hyps(4), of tr] frame.IH show ?case by simp
next
  case (oversized tr c ts c1)
  have "calm c c1" unfolding oversized.hyps by (rule calm_connection_error) simp
  from flow_leave [OF flow_calm [OF _ this], of tr False] oversized.IH show ?case by simp
next
  case (turn tr c ts accepting go c1)
  have "calm c c1" using calm_run_turn [of c accepting] turn.hyps(2) by simp
  from flow_leave [OF flow_calm [OF _ this], of tr go] turn.IH show ?case by simp
next
  case (read tr c ts)
  then show ?case by (simp add: read_begin_def)
next
  case (read_done tr c ts accepting ev go c1)
  have "calm c c1" using calm_read_end [of c accepting ev] read_done.hyps(2) by simp
  from flow_leave [OF flow_calm [OF _ this], of tr go] read_done.IH show ?case by simp
next
  case (write_out tr c ts r batch c1)
  have "(\<exists>ob. c1 = c\<lparr>n_outbox := ob\<rparr>) \<or> c1 = c\<lparr>n_writer_active := False\<rparr>"
    using write_out.hyps(2) by (auto simp: write_begin_def split: if_splits prod.splits)
  then show ?case using write_out.IH by auto
next
  case (written tr c ts r ec n)
  then show ?case by (simp add: write_end_def Let_def flow_dead)
next
  case (send tr c ts r sid bs)
  then show ?case by (simp add: task_wf_def send_frames_def)
next
  case (send_turn tr c ts r t expired t' c1)
  have t: "task_wf t" using send_turn.IH send_turn.hyps(2) by (simp add: list_all_iff)
  show ?case using flow_send_turn [OF _ tasks_inv_run [OF send_turn.hyps(1)] t send_turn.hyps(3), of tr r]
      task_wf_turn [OF t send_turn.hyps(3)] send_turn.IH task_wf_remove by simp
next
  case (send_done tr c ts r t expired res c1)
  have t: "task_wf t" using send_done.IH send_done.hyps(2) by (simp add: list_all_iff)
  show ?case using flow_send_turn [OF _ tasks_inv_run [OF send_done.hyps(1)] t send_done.hyps(3), of tr r]
      send_done.IH task_wf_remove by simp
next
  case (task tr c ts r sid c1)
  then show ?case using flow_calm calm_task_op by blast
next
  case (finish tr c ts r sid)
  have "calm c (finish_task sid c)" by (rule calm_finish_task) simp
  then show ?case using flow_calm finish.IH by blast
next
  case (drained tr c ts)
  then show ?case by (simp add: shutdown_drained_def flow_dead)
next
  case (ended tr c ts c1)
  have "c1 = c\<lparr>n_streams := []\<rparr>" using ended.hyps(2) by (simp add: shutdown_end_def split: if_splits)
  then show ?case using ended.IH by (simp add: flow_inv_def flow_core_def stopped_def stream_at_def)
qed

end
