(* ===== verification/Http2_Session_Proofs.thy ===== *)
theory Http2_Session_Proofs
  imports Http2_Flow
begin

unbundle bit_operations_syntax

text \<open>
  What holds in every run of an HTTP/2 server session: each stream is served by one task, and the data sent stays
  within the peer's flow-control windows and frame sizes.
\<close>

section \<open>A run\<close>

text \<open>
  A client sends \<^verbatim>\<open>HEADERS\<close> of a GET request which ends the stream: the reader decodes the header block and starts the
  task, and the task queues a DATA frame of two octets.
\<close>

definition demo_bytes :: bytes where
  "demo_bytes = [0, 0, 1, 1, 5, 0, 0, 0, 1, 0x82]"

definition demo_hdr :: h2_frame_header where
  "demo_hdr = \<lparr>f_length = 1, f_stream_id = 1, f_type = FT_HEADERS, f_flags = 5\<rparr>"

definition demo_data :: bytes where
  "demo_data = [0, 0, 2, 0, 1, 0, 0, 0, 1, 104, 105]"

definition demo_data_hdr :: h2_frame_header where
  "demo_data_hdr = \<lparr>f_length = 2, f_stream_id = 1, f_type = FT_DATA, f_flags = 1\<rparr>"

lemma demo_frame: "h2_parse_frame demo_bytes = Frame demo_hdr [0x82] 10"
  by code_simp

lemma demo_field: "decode_field [0x82] 0 dt = Done (dt, Some ('':method'', ''GET''), 1)"
proof -
  have "decode_integer [0x82] 0 7 = Some (2, 1)" by code_simp
  moreover have "lookup_index 2 dt = ('':method'', ''GET'')" by (simp add: lookup_index_def STATIC_TABLE_def)
  ultimately show ?thesis by (simp add: decode_field_def)
qed

lemma demo_block:
  "decode_header_block kDefaultMaxHeaderListSize [0x82] dt [] = Some (Blk_ok, dt, [('':method'', ''GET'')])"
proof -
  have "decode_loop 65536 [0x82] (Suc 0) 42 dt out = Some (Blk_ok, dt, out)" for out
    by (subst decode_loop.simps) (simp add: over_limit_def)
  then show ?thesis unfolding decode_header_block_def decode_loop.simps [of _ _ 0 0]
    by (simp add: demo_field over_limit_def kDefaultMaxHeaderListSize_def entry_size_def)
qed

definition demo_stream :: h2_stream where
  "demo_stream = (stream_new 1 65535)\<lparr>s_headers := [('':method'', ''GET'')], s_end_stream_received := True, s_headers_done := True,
     s_dispatched := True\<rparr>"

definition demo_session :: h2_session where
  "demo_session = (session_start demo_bytes)\<lparr>n_streams := [(1, demo_stream)], n_last_peer_stream_id := 1, n_active_tasks := 1,
     n_spawned := [Run_stream 1]\<rparr>"

lemma demo_handled: "handle_frame 0 demo_hdr [0x82] (session_start demo_bytes) = Some (True, demo_session)"
proof -
  have s: "session_preamble \<noteq> []" by (simp add: session_preamble_def serialize_settings_def h2_encode_frame_def pack_octets)
  have f: "has_flag FL_END_STREAM demo_hdr" "has_flag FL_END_HEADERS demo_hdr" by code_simp+
  have g: "headers_fragment demo_hdr [0x82] = Some [0x82]" by code_simp
  show ?thesis
    using f g s
    by (simp add: handle_frame_def on_headers_def headers_stream_def finish_header_block_def demo_block Let_def demo_hdr_def
        session_start_def h2_enqueue_def session_new_def stream_at_def on_stream_def headers_decoded_def dispatch_def is_connect_def
        demo_session_def demo_stream_def stream_new_def)
qed

abbreviation demo_task :: "send_phase \<Rightarrow> nat \<Rightarrow> send_task" where
  "demo_task ph n \<equiv> \<lparr>t_sid = 1, t_bytes = demo_data, t_cursor = n, t_phase = ph\<rparr>"

definition demo_sent :: h2_session where
  "demo_sent = close_local 1 demo_data_hdr (put_data demo_data_hdr [104, 105] 0 2 1 (demo_session\<lparr>n_rbuf_offset := 10\<rparr>))"

lemma demo_view:
  "stream_at 1 (demo_session\<lparr>n_rbuf_offset := 10\<rparr>) = Some demo_stream" "s_send_window demo_stream = 65535" "\<not> s_reset demo_stream"
  "\<not> n_dead demo_session" "n_conn_send_window demo_session = 65535" "n_peer_max_frame_size demo_session = 16384"
  "n_outbox_bytes demo_session = length session_preamble" "\<not> send_failed 1 (demo_session\<lparr>n_rbuf_offset := 10\<rparr>)"
  by (simp_all add: demo_session_def demo_stream_def stream_new_def stream_at_def session_start_def h2_enqueue_def session_new_def send_failed_def)

lemma demo_turns:
  "send_turn False (send_frames 1 demo_data) (demo_session\<lparr>n_rbuf_offset := 10\<rparr>) = (Goes_on (demo_task (Want_room demo_data_hdr [104, 105]) 11), demo_session\<lparr>n_rbuf_offset := 10\<rparr>)"
  "send_turn False (demo_task (Want_room demo_data_hdr [104, 105]) 11) (demo_session\<lparr>n_rbuf_offset := 10\<rparr>) = (Goes_on (demo_task (In_data demo_data_hdr [104, 105] 0) 11), demo_session\<lparr>n_rbuf_offset := 10\<rparr>)"
  "send_turn False (demo_task (In_data demo_data_hdr [104, 105] 0) 11) (demo_session\<lparr>n_rbuf_offset := 10\<rparr>) = (Goes_on (demo_task At_head 11), demo_sent)"
proof -
  let ?c = "demo_session\<lparr>n_rbuf_offset := 10\<rparr>"
  have u: "unpack_frame_header demo_data = Some demo_data_hdr" by code_simp
  have l: "length demo_data = 11" "f_length demo_data_hdr = 2" "take 2 (drop 9 demo_data) = [104, 105]" "f_type demo_data_hdr = FT_DATA"
    by (simp_all add: demo_data_def demo_data_hdr_def)
  show "send_turn False (send_frames 1 demo_data) ?c = (Goes_on (demo_task (Want_room demo_data_hdr [104, 105]) 11), ?c)"
    using u l demo_view(8) by (simp add: send_turn_def send_frames_def send_head_def Let_def)
  have "length session_preamble = 52"
    by (simp add: session_preamble_def serialize_settings_def serialize_window_update_def h2_encode_frame_def pack_octets octets_def)
  then show "send_turn False (demo_task (Want_room demo_data_hdr [104, 105]) 11) ?c = (Goes_on (demo_task (In_data demo_data_hdr [104, 105] 0) 11), ?c)"
    using demo_view(7,8) l by (simp add: send_turn_def send_room_def Let_def)
  have "(65535 :: int) mod 2 ^ 64 = 65535" by simp
  then show "send_turn False (demo_task (In_data demo_data_hdr [104, 105] 0) 11) ?c = (Goes_on (demo_task At_head 11), demo_sent)"
    using demo_view by (simp add: send_turn_def send_data_def Let_def demo_sent_def put_data_def)
qed

lemma demo_puts: "puts (demo_session\<lparr>n_rbuf_offset := 10\<rparr>) demo_sent = [Put demo_data]"
proof -
  have "h2_encode_frame FT_DATA FL_END_STREAM 1 [104, 105] = demo_data" "has_flag FL_END_STREAM demo_data_hdr" "demo_data \<noteq> []" by code_simp+
  then show ?thesis using demo_view(4) by (simp add: puts_def demo_sent_def close_local_def on_stream_def put_data_def h2_enqueue_def)
qed

lemma demo_run: "h2_run 0 [Put session_preamble, Got demo_hdr [0x82], Put demo_data] demo_sent [demo_task At_head 11] True"
proof -
  let ?c = "demo_session\<lparr>n_rbuf_offset := 10\<rparr>" and ?tr = "[Put session_preamble, Got demo_hdr [0x82]]"
  have s: "n_rbuf_offset (session_start demo_bytes) = 0" "n_rbuf (session_start demo_bytes) = demo_bytes" "\<not> n_dead (session_start demo_bytes)"
    "puts (session_start demo_bytes) demo_session = []"
    by (simp_all add: session_start_def session_new_def h2_enqueue_def puts_def demo_session_def)
  have "h2_run 0 ([Put session_preamble] @ Got demo_hdr [0x82] # puts (session_start demo_bytes) demo_session)
      ((if True then demo_session else shutdown_begin demo_session)\<lparr>n_rbuf_offset := n_rbuf_offset (session_start demo_bytes) + 10\<rparr>) [] True"
    by (rule h2_run.frame [OF h2_run.start s(3) _ _ demo_handled]) (simp_all add: s demo_frame)
  then have "h2_run 0 ?tr ?c [] True" by (simp add: s)
  moreover have "dispatched_at 1 ?c" using demo_view(1) by (simp add: dispatched_at_def demo_stream_def)
  ultimately have "h2_run 0 ?tr ?c [send_frames 1 demo_data] True" by (rule h2_run.send)
  from h2_run.send_turn [OF this _ demo_turns(1)] have "h2_run 0 ?tr ?c [demo_task (Want_room demo_data_hdr [104, 105]) 11] True" by simp
  from h2_run.send_turn [OF this _ demo_turns(2)] have "h2_run 0 ?tr ?c [demo_task (In_data demo_data_hdr [104, 105] 0) 11] True" by simp
  from h2_run.send_turn [OF this _ demo_turns(3)] show ?thesis by (simp add: demo_puts)
qed

section \<open>Properties\<close>

text \<open>
  C36. Flow control.  In every run of a session, whatever the peer sends, however reader, writer, tasks and handlers
  interleave and whatever the handlers send, each DATA frame that is queued for the wire fits into the connection's and the
  stream's window as the peer can compute them from the \<^verbatim>\<open>WINDOW_UPDATE\<close> and SETTINGS frames the session has handled and the
  DATA frames before, and no DATA or HEADERS frame is longer than the peer's \<^verbatim>\<open>SETTINGS_MAX_FRAME_SIZE\<close>.
\<close>

theorem h2_flow_control:
  assumes "h2_run cap tr c ts r"
  shows "ledger_ok (wire_events tr) ledger_new"
  using flow_run [OF assms] by (simp add: flow_inv_def flow_core_def)

theorem h2_flow_control_witness:
  "ledger_ok (wire_events [Put session_preamble, Got demo_hdr [0x82], Put demo_data]) ledger_new"
  by (rule h2_flow_control [OF demo_run])

text \<open>
  C37. One task per stream.  In every run of a session the identifiers of the streams in its table are distinct, odd and not
  above the last one seen; no stream is ever handed to a second task; the streams marked as dispatched are those whose task was
  started, and their headers were complete; and the counter of active tasks, which the shutdown waits for, is the
  number of dispatched streams in the table.
\<close>

theorem h2_tasks_once:
  assumes "h2_run cap tr c ts r"
  shows "distinct (map fst (n_streams c)) \<and> (\<forall>(k, s) \<in> set (n_streams c). k AND 1 \<noteq> 0 \<and> k \<le> n_last_peer_stream_id c) \<and>
    distinct (map task_sid (n_spawned c)) \<and>
    (\<forall>(k, s) \<in> set (n_streams c). (s_dispatched s \<longleftrightarrow> k \<in> task_sid ` set (n_spawned c)) \<and> (s_dispatched s \<longrightarrow> s_headers_done s)) \<and>
    n_active_tasks c = length (filter (\<lambda>(k, s). s_dispatched s) (n_streams c))"
  using tasks_inv_run [OF assms] unfolding tasks_inv_def running_def by (simp add: case_prod_unfold)

theorem h2_tasks_once_witness:
  "distinct (map task_sid (n_spawned demo_sent)) \<and> n_active_tasks demo_sent = length (filter (\<lambda>(k, s). s_dispatched s) (n_streams demo_sent))"
  using h2_tasks_once [OF demo_run] by blast

text \<open>
  A header list over the cap starts a task for its stream even after the GOAWAY that should stop new streams, and
  however many streams there are.
\<close>

lemma over_limit_bypass:
  assumes "stream_at sid c = Some st" "\<not> s_dispatched st" "\<not> s_headers_done st" "n_goaway_sent c"
  shows "n_spawned (headers_decoded sid st False decoded c) = n_spawned c @ [Run_error sid Limits_exceeded]
    \<and> n_active_tasks (headers_decoded sid st False decoded c) = n_active_tasks c + 1"
  using assms
  by (simp add: headers_decoded_def Let_def answer_error_def send_goaway_def) (simp add: on_stream_def)

end
