(* ===== verification/Uri_Url.thy ===== *)
theory Uri_Url
  imports Http1_Proofs
begin

text \<open>
  Percent-encoding, \<^verbatim>\<open>src/src/Base/Uri.cpp\<close>, and URLs, \<^verbatim>\<open>src/src/Base/Url.cpp\<close>.  The loops over pointers are recursive over
  the characters that are left, and what they write is the result; that it fits into the buffers the code allocates
  beforehand is a theorem.  \<^verbatim>\<open>std::unordered_map\<close> is a map.
\<close>

section \<open>Percent-encoding\<close>

definition is_unreserved :: "char \<Rightarrow> bool" where
  "is_unreserved c \<longleftrightarrow> (48 \<le> code c \<and> code c \<le> 57) \<or> (65 \<le> code c \<and> code c \<le> 90) \<or> (97 \<le> code c \<and> code c \<le> 122)
     \<or> c = CHR ''-'' \<or> c = CHR ''_'' \<or> c = CHR ''.'' \<or> c = CHR ''~''"

definition hex_digit :: "nat \<Rightarrow> char" where
  "hex_digit nibble = ''0123456789ABCDEF'' ! (nibble mod 16)"

definition hex_value :: "char \<Rightarrow> int" where
  "hex_value c =
     (if 48 \<le> code c \<and> code c \<le> 57 then int (code c) - 48
      else if 65 \<le> code c \<and> code c \<le> 70 then int (code c) - 65 + 10
      else if 97 \<le> code c \<and> code c \<le> 102 then int (code c) - 97 + 10
      else - 1)"

text \<open>The loop of \<^verbatim>\<open>encode\<close>: a run of unreserved characters is copied, any other character is escaped.\<close>

function encode_run :: "string \<Rightarrow> string" where
  "encode_run src =
     (case src of
        [] \<Rightarrow> []
      | c # cs \<Rightarrow>
          if is_unreserved c then c # takeWhile is_unreserved cs @ encode_run (dropWhile is_unreserved cs)
          else CHR ''%'' # hex_digit (code c div 16) # hex_digit (code c mod 16) # encode_run cs)"
  by pat_completeness auto

termination
  by (relation "measure length") (auto simp: less_Suc_eq_le length_dropWhile_le)

definition uri_encode :: "string \<Rightarrow> string" where
  "uri_encode raw = (if raw = [] then [] else encode_run raw)"

function decode_to :: "string \<Rightarrow> string" where
  "decode_to src =
     (case src of
        [] \<Rightarrow> []
      | c # cs \<Rightarrow>
          if c = CHR ''%'' then
            (case cs of
               a # b # rest \<Rightarrow>
                 if hex_value a \<ge> 0 \<and> hex_value b \<ge> 0
                 then char_of (nat (hex_value a * 16 + hex_value b)) # decode_to rest
                 else CHR ''%'' # decode_to cs
             | _ \<Rightarrow> CHR ''%'' # decode_to cs)
          else if c = CHR ''+'' then CHR '' '' # decode_to cs
          else c # takeWhile (\<lambda>x. x \<noteq> CHR ''%'' \<and> x \<noteq> CHR ''+'') cs @ decode_to (dropWhile (\<lambda>x. x \<noteq> CHR ''%'' \<and> x \<noteq> CHR ''+'') cs))"
  by pat_completeness auto

termination
  by (relation "measure length") (auto simp: less_Suc_eq_le length_dropWhile_le)

definition uri_decode :: "string \<Rightarrow> string" where
  "uri_decode encoded = (if encoded = [] then [] else decode_to encoded)"

section \<open>Query strings\<close>

function parse_query_loop :: "string \<Rightarrow> (string \<rightharpoonup> string) \<Rightarrow> (string \<rightharpoonup> string)" where
  "parse_query_loop qs result =
     (if qs = [] then result
      else let amp = find_from (CHR ''&'') qs 0;
               pair = (case amp of Some i \<Rightarrow> take i qs | None \<Rightarrow> qs);
               result = (if pair \<noteq> [] then
                           (case find_from (CHR ''='') pair 0 of
                              Some i \<Rightarrow> result(uri_decode (take i pair) \<mapsto> uri_decode (drop (i + 1) pair))
                            | None \<Rightarrow> result(uri_decode pair \<mapsto> []))
                         else result) in
        case amp of None \<Rightarrow> result | Some i \<Rightarrow> parse_query_loop (drop (i + 1) qs) result)"
  by pat_completeness auto

termination
  by (relation "measure (length \<circ> fst)") auto

definition parse_query :: "string \<Rightarrow> (string \<rightharpoonup> string)" where
  "parse_query qs = parse_query_loop qs Map.empty"

section \<open>URLs\<close>

record url =
  u_scheme :: string
  u_userinfo :: string
  u_host :: string
  u_path :: string
  u_query :: string
  u_fragment :: string
  u_port :: u16

definition url_new :: url where
  "url_new = \<lparr>u_scheme = [], u_userinfo = [], u_host = [], u_path = [], u_query = [], u_fragment = [], u_port = 0\<rparr>"

text \<open>\<^verbatim>\<open>sv.find(text)\<close>, \<^verbatim>\<open>sv.rfind(c)\<close> and \<^verbatim>\<open>sv.find_first_of("?#", pos)\<close>.\<close>

definition find_text :: "string \<Rightarrow> string \<Rightarrow> nat option" where
  "find_text pat s = List.find (\<lambda>i. prefix pat (drop i s)) [0..<Suc (length s)]"

definition rfind :: "char \<Rightarrow> string \<Rightarrow> nat option" where
  "rfind c s = map_option (\<lambda>i. length s - 1 - i) (find_from c (rev s) 0)"

definition find_first_of :: "char set \<Rightarrow> string \<Rightarrow> nat \<Rightarrow> nat option" where
  "find_first_of cs s pos = (let k = length (takeWhile (\<lambda>x. x \<notin> cs) (drop pos s)) in if pos + k < length s then Some (pos + k) else None)"

definition or_end :: "string \<Rightarrow> nat option \<Rightarrow> nat" where
  "or_end s i = (case i of Some k \<Rightarrow> k | None \<Rightarrow> length s)"

text \<open>\<^verbatim>\<open>std::from_chars\<close> leaves the zero in \<^verbatim>\<open>p\<close> when it fails.\<close>

definition parse_port :: "string \<Rightarrow> u16" where
  "parse_port s = (case from_chars 10 (2 ^ 16) s of Some v \<Rightarrow> of_nat v | None \<Rightarrow> 0)"

definition parse_scheme :: "string \<Rightarrow> url \<Rightarrow> url \<times> nat" where
  "parse_scheme raw u =
     (case find_text ''://'' raw of
        Some i \<Rightarrow> (u\<lparr>u_scheme := map c_tolower (take i raw)\<rparr>, i + 3)
      | None \<Rightarrow> (u, 0))"

definition authority_end :: "string \<Rightarrow> nat \<Rightarrow> nat" where
  "authority_end raw pos =
     (case find_from (CHR ''/'') raw pos of
        Some i \<Rightarrow> i
      | None \<Rightarrow> (case find_from (CHR ''?'') raw pos of Some i \<Rightarrow> i | None \<Rightarrow> or_end raw (find_from (CHR ''#'') raw pos)))"

definition parse_host :: "string \<Rightarrow> url \<Rightarrow> url" where
  "parse_host authority u =
     (if authority \<noteq> [] \<and> hd authority = CHR ''['' then
        (case find_from (CHR '']'') authority 0 of
           None \<Rightarrow> u
         | Some bracket \<Rightarrow>
             let u = u\<lparr>u_host := substr authority 1 (bracket - 1)\<rparr> in
             if bracket + 1 < length authority \<and> authority ! (bracket + 1) = CHR '':''
             then u\<lparr>u_port := parse_port (drop (bracket + 2) authority)\<rparr> else u)
      else
        (case rfind (CHR '':'') authority of
           Some colon \<Rightarrow> u\<lparr>u_host := take colon authority, u_port := parse_port (drop (colon + 1) authority)\<rparr>
         | None \<Rightarrow> u\<lparr>u_host := authority\<rparr>))"

definition parse_authority :: "string \<Rightarrow> url \<Rightarrow> url" where
  "parse_authority authority u =
     (case find_from (CHR ''@'') authority 0 of
        Some i \<Rightarrow> parse_host (drop (i + 1) authority) (u\<lparr>u_userinfo := take i authority\<rparr>)
      | None \<Rightarrow> parse_host authority u)"

definition url_parse_path :: "string \<Rightarrow> nat \<Rightarrow> url \<Rightarrow> url \<times> nat" where
  "url_parse_path raw pos u =
     (if pos < length raw \<and> raw ! pos = CHR ''/'' then
        let path_end = or_end raw (find_first_of {CHR ''?'', CHR ''#''} raw pos) in
        (u\<lparr>u_path := substr raw pos (path_end - pos)\<rparr>, path_end)
      else (u, pos))"

definition parse_query_part :: "string \<Rightarrow> nat \<Rightarrow> url \<Rightarrow> url \<times> nat" where
  "parse_query_part raw pos u =
     (if pos < length raw \<and> raw ! pos = CHR ''?'' then
        let pos = pos + 1; query_end = or_end raw (find_from (CHR ''#'') raw pos) in
        (u\<lparr>u_query := substr raw pos (query_end - pos)\<rparr>, query_end)
      else (u, pos))"

definition parse_fragment :: "string \<Rightarrow> nat \<Rightarrow> url \<Rightarrow> url" where
  "parse_fragment raw pos u =
     (if pos < length raw \<and> raw ! pos = CHR ''#'' then u\<lparr>u_fragment := drop (pos + 1) raw\<rparr> else u)"

definition url_parse :: "string \<Rightarrow> url" where
  "url_parse raw =
     (let (u, pos) = parse_scheme raw url_new;
          e = authority_end raw pos;
          u = parse_authority (substr raw pos (e - pos)) u;
          (u, pos) = url_parse_path raw e u;
          (u, pos) = parse_query_part raw pos u in
      parse_fragment raw pos u)"

definition effective_port :: "url \<Rightarrow> u16" where
  "effective_port u = (if u_port u \<noteq> 0 then u_port u else if u_scheme u = ''https'' then 443 else if u_scheme u = ''http'' then 80 else 0)"

definition url_to_string :: "url \<Rightarrow> string" where
  "url_to_string u =
     (if u_scheme u \<noteq> [] then u_scheme u @ ''://'' else []) @ (if u_userinfo u \<noteq> [] then u_userinfo u @ ''@'' else []) @ u_host u
     @ (if u_port u \<noteq> 0 then '':'' @ to_chars 10 (unat (u_port u)) else []) @ u_path u
     @ (if u_query u \<noteq> [] then ''?'' @ u_query u else []) @ (if u_fragment u \<noteq> [] then ''#'' @ u_fragment u else [])"

section \<open>Encoding and decoding\<close>

declare encode_run.simps [simp del] decode_to.simps [simp del]

text \<open>Character by character, the runs disappear.\<close>

definition escape :: "char \<Rightarrow> string" where
  "escape c = (if is_unreserved c then [c] else [CHR ''%'', hex_digit (code c div 16), hex_digit (code c mod 16)])"

lemma encode_run_concat: "encode_run src = concat (map escape src)"
proof (induction src rule: encode_run.induct)
  case (1 src)
  show ?case
  proof (cases src)
    case Nil
    then show ?thesis by (simp add: encode_run.simps)
  next
    case (Cons c cs)
    have t: "concat (map escape (takeWhile is_unreserved xs)) = takeWhile is_unreserved xs" for xs
      by (induction xs) (simp_all add: escape_def)
    have "concat (map escape cs) = takeWhile is_unreserved cs @ concat (map escape (dropWhile is_unreserved cs))"
      by (metis concat_append map_append t takeWhile_dropWhile_id)
    moreover have "escape c = (if is_unreserved c then [c] else [CHR ''%'', hex_digit (code c div 16), hex_digit (code c mod 16)])"
      by (rule escape_def)
    ultimately show ?thesis using "1.IH" [OF Cons] Cons by (subst encode_run.simps) simp
  qed
qed

abbreviation plain :: "char \<Rightarrow> bool" where
  "plain x \<equiv> x \<noteq> CHR ''%'' \<and> x \<noteq> CHR ''+''"

lemma decode_to_Nil [simp]: "decode_to [] = []"
  by (simp add: decode_to.simps)

lemma decode_to_run: "decode_to cs = takeWhile plain cs @ decode_to (dropWhile plain cs)"
proof (cases cs)
  case (Cons c xs)
  show ?thesis
  proof (cases "plain c")
    case True
    then show ?thesis unfolding Cons by (subst decode_to.simps) simp
  qed (auto simp: Cons)
qed simp

lemma decode_to_plain: "plain c \<Longrightarrow> decode_to (c # cs) = c # decode_to cs"
  by (subst decode_to_run) (simp flip: decode_to_run)

lemma decode_to_escape:
  assumes "0 \<le> hex_value a" "0 \<le> hex_value b"
  shows "decode_to (CHR ''%'' # a # b # rest) = char_of (nat (hex_value a * 16 + hex_value b)) # decode_to rest"
  using assms by (subst decode_to.simps) simp

lemma hex_value_digit: "n < 16 \<Longrightarrow> hex_value (hex_digit n) = int n"
proof -
  assume n: "n < 16"
  have "\<forall>n \<in> set [0..<16]. hex_value (hex_digit n) = int n" by code_simp
  then show ?thesis using n by simp
qed

lemma decode_escape: "decode_to (escape c @ rest) = c # decode_to rest"
proof (cases "is_unreserved c")
  case True
  then have "plain c" by (auto simp: is_unreserved_def)
  then show ?thesis using True decode_to_plain by (simp add: escape_def)
next
  case False
  have "code c div 16 < 16" using less_mult_imp_div_less [of "code c" 16 16] by simp
  then have d: "hex_value (hex_digit (code c div 16)) = int (code c div 16)" "hex_value (hex_digit (code c mod 16)) = int (code c mod 16)"
    by (simp_all add: hex_value_digit)
  have "nat (int (code c div 16) * 16 + int (code c mod 16)) = code c" by (simp add: nat_add_distrib nat_mult_distrib)
  then have "char_of (nat (int (code c div 16) * 16 + int (code c mod 16))) = c" by simp
  then show ?thesis using False decode_to_escape [of "hex_digit (code c div 16)" "hex_digit (code c mod 16)" rest] d
    by (simp add: escape_def)
qed

lemma decode_encode: "decode_to (encode_run s @ rest) = s @ decode_to rest"
  unfolding encode_run_concat by (induction s) (simp_all add: decode_escape)

lemma decode_to_length: "length (decode_to s) \<le> length s"
proof (induction s rule: length_induct)
  case (1 s)
  show ?case
  proof (cases s)
    case (Cons c cs)
    consider (esc) a b rest where "c = CHR ''%''" "cs = a # b # rest" "0 \<le> hex_value a \<and> 0 \<le> hex_value b"
      | (bad) "c = CHR ''%''" "\<nexists>a b rest. cs = a # b # rest \<and> 0 \<le> hex_value a \<and> 0 \<le> hex_value b"
      | (plus) "c = CHR ''+''" | (run) "plain c" by blast
    then show ?thesis
    proof cases
      case esc
      then show ?thesis using "1.IH" [rule_format, of rest] Cons by (simp add: decode_to_escape)
    next
      case bad
      have "decode_to s = CHR ''%'' # decode_to cs"
        unfolding Cons using bad by (subst decode_to.simps) (auto split: list.splits)
      moreover have "length (decode_to cs) \<le> length cs" using "1.IH" Cons by simp
      ultimately show ?thesis using Cons by simp
    next
      case plus
      have "decode_to s = CHR '' '' # decode_to cs" unfolding Cons using plus by (subst decode_to.simps) simp
      then show ?thesis using "1.IH" Cons by simp
    next
      case run
      have l: "length cs = length (takeWhile plain cs) + length (dropWhile plain cs)" by (metis length_append takeWhile_dropWhile_id)
      have "decode_to s = c # takeWhile plain cs @ decode_to (dropWhile plain cs)" unfolding Cons using run by (subst decode_to.simps) simp
      moreover have "length (decode_to (dropWhile plain cs)) \<le> length (dropWhile plain cs)" using "1.IH" Cons l by simp
      ultimately show ?thesis using Cons l by simp
    qed
  qed simp
qed

lemma encode_run_length: "length (encode_run s) \<le> 3 * length s"
  unfolding encode_run_concat by (induction s) (simp_all add: escape_def)

lemma uri_decode_encode: "uri_decode (uri_encode s) = s"
proof -
  have "encode_run s \<noteq> []" if "s \<noteq> []" using that by (cases s) (simp_all add: encode_run_concat escape_def)
  then show ?thesis using decode_encode [of s "[]"] by (simp add: uri_decode_def uri_encode_def)
qed

section \<open>Queries\<close>

lemma encode_chars: "c \<in> set (uri_encode s) \<Longrightarrow> is_unreserved c \<or> c = CHR ''%''"
proof -
  have "\<forall>n \<in> set [0..<16]. is_unreserved (hex_digit n)" by code_simp
  moreover have "hex_digit n = hex_digit (n mod 16)" for n by (simp add: hex_digit_def)
  ultimately have h: "is_unreserved (hex_digit n)" for n by (metis atLeastLessThan_iff atLeastLessThan_upt mod_less_divisor zero_le zero_less_numeral)
  assume "c \<in> set (uri_encode s)"
  then show ?thesis by (auto simp: uri_encode_def encode_run_concat escape_def h split: if_splits)
qed

fun query_text :: "(string \<times> string) list \<Rightarrow> string" where
  "query_text [] = []"
| "query_text [(k, v)] = uri_encode k @ CHR ''='' # uri_encode v"
| "query_text ((k, v) # p # ps) = uri_encode k @ CHR ''='' # uri_encode v @ CHR ''&'' # query_text (p # ps)"

lemma find_from_split:
  "c \<notin> set xs \<Longrightarrow> find_from c (xs @ c # rest) 0 = Some (length xs)" "c \<notin> set xs \<Longrightarrow> find_from c xs 0 = None"
  using find_from_append [of c xs "[]" rest] by (simp_all add: find_from_None)

lemma parse_pair:
  "find_from (CHR ''='') (uri_encode k @ CHR ''='' # uri_encode v) 0 = Some (length (uri_encode k))"
  "CHR ''&'' \<notin> set (uri_encode k @ CHR ''='' # uri_encode v)"
proof -
  have "CHR ''='' \<notin> set (uri_encode k)" "CHR ''&'' \<notin> set (uri_encode k)" "CHR ''&'' \<notin> set (uri_encode v)"
    using encode_chars by (force simp: is_unreserved_def)+
  then show "find_from (CHR ''='') (uri_encode k @ CHR ''='' # uri_encode v) 0 = Some (length (uri_encode k))"
    "CHR ''&'' \<notin> set (uri_encode k @ CHR ''='' # uri_encode v)" by (simp_all add: find_from_split)
qed

lemma parse_query_text: "parse_query_loop (query_text ps) m = m ++ map_of (rev ps)"
proof (induction ps arbitrary: m rule: query_text.induct)
  case 1
  then show ?case by (subst parse_query_loop.simps) simp
next
  case (2 k v)
  note q = parse_pair [of k v]
  then show ?case by (subst parse_query_loop.simps) (simp add: find_from_split uri_decode_encode Let_def)
next
  case (3 k v p ps)
  let ?pair = "uri_encode k @ CHR ''='' # uri_encode v"
  note q = parse_pair [of k v]
  have t: "query_text ((k, v) # p # ps) = ?pair @ CHR ''&'' # query_text (p # ps)" by simp
  have "find_from (CHR ''&'') (?pair @ CHR ''&'' # query_text (p # ps)) 0 = Some (length ?pair)"
    by (rule find_from_split) (rule q)
  then have "parse_query_loop (query_text ((k, v) # p # ps)) m = parse_query_loop (query_text (p # ps)) (m(k \<mapsto> v))"
    unfolding t using q(1) by (subst parse_query_loop.simps) (simp add: uri_decode_encode Let_def del: append_assoc)
  also have "\<dots> = m ++ map_of (rev ((k, v) # p # ps))" unfolding 3 by (simp add: map_add_assoc [symmetric])
  finally show ?case .
qed

section \<open>The parts of a URL\<close>

lemma drop_Cons_at: "drop pos raw = x # xs \<Longrightarrow> pos < length raw \<and> raw ! pos = x \<and> drop (Suc pos) raw = xs"
  by (metis Cons_nth_drop_Suc drop_all leI list.distinct(1) list.inject)

lemma or_end_find_from: "pos \<le> length s \<Longrightarrow> or_end s (find_from c s pos) = pos + length (takeWhile (\<lambda>x. x \<noteq> c) (drop pos s))"
  using length_takeWhile_le [of "\<lambda>x. x \<noteq> c" "drop pos s"] by (auto simp: or_end_def find_from_def Let_def)

lemma or_end_find_first_of:
  "pos \<le> length s \<Longrightarrow> or_end s (find_first_of cs s pos) = pos + length (takeWhile (\<lambda>x. x \<notin> cs) (drop pos s))"
  using length_takeWhile_le [of "\<lambda>x. x \<notin> cs" "drop pos s"] by (auto simp: or_end_def find_first_of_def Let_def)

lemma takeWhile_stops: "\<forall>x \<in> set xs. P x \<Longrightarrow> ys = [] \<or> \<not> P (hd ys) \<Longrightarrow> takeWhile P (xs @ ys) = xs"
  by (cases ys) (auto simp: takeWhile_append)

lemma find_upt: "k < n \<Longrightarrow> P k \<Longrightarrow> \<forall>j < k. \<not> P j \<Longrightarrow> List.find P [0..<n] = Some k"
  by (auto simp: find_Some_iff intro!: exI [of _ k])

lemma find_text_scheme:
  assumes "CHR '':'' \<notin> set s"
  shows "find_text ''://'' (s @ ''://'' @ rest) = Some (length s)"
proof -
  let ?raw = "s @ ''://'' @ rest"
  have "\<not> prefix ''://'' (drop j ?raw)" if "j < length s" for j
  proof
    assume p: "prefix ''://'' (drop j ?raw)"
    have "drop j ?raw = s ! j # drop (Suc j) s @ ''://'' @ rest" using that by (simp add: Cons_nth_drop_Suc [symmetric])
    then have "s ! j = CHR '':''" using p by simp
    then show False using assms that nth_mem by fastforce
  qed
  then show ?thesis unfolding find_text_def by (intro find_upt) simp_all
qed

lemma rfind_simps:
  "c \<notin> set ys \<Longrightarrow> rfind c (xs @ c # ys) = Some (length xs)" "c \<notin> set xs \<Longrightarrow> rfind c xs = None"
  using find_from_split(1) [of c "rev ys" "rev xs"] by (simp_all add: rfind_def find_from_split)

lemma parse_port_text: "parse_port (to_chars 10 (unat p)) = p"
proof -
  have "unat p < 2 ^ 16" using unsigned_less [of p] by simp
  from from_to_chars_end [OF _ _ this, of 10] show ?thesis by (simp add: parse_port_def)
qed

lemma parse_host_text:
  assumes "CHR '':'' \<notin> set h" "h = [] \<or> hd h \<noteq> CHR ''[''" "u_port u = 0"
  shows "parse_host (h @ (if p \<noteq> 0 then '':'' @ to_chars 10 (unat p) else [])) u = u\<lparr>u_host := h, u_port := p\<rparr>"
proof -
  have d: "CHR '':'' \<notin> set (to_chars 10 (unat p))" using to_chars_digits [of 10 "CHR '':''" "unat p"] by (auto simp: is_digit_def digit_val_def)
  have b: "\<not> (h @ '':'' @ to_chars 10 (unat p) \<noteq> [] \<and> hd (h @ '':'' @ to_chars 10 (unat p)) = CHR ''['')" "\<not> (h \<noteq> [] \<and> hd h = CHR ''['')"
    using assms(2) by (cases h; simp)+
  show ?thesis
  proof (cases "p = 0")
    case True
    then show ?thesis using b(2) assms(1,3) by (auto simp: parse_host_def rfind_simps)
  next
    case False
    have "rfind (CHR '':'') (h @ '':'' @ to_chars 10 (unat p)) = Some (length h)" using rfind_simps(1) [OF d, of h] by simp
    then show ?thesis using False b(1) unfolding parse_host_def by (simp add: parse_port_text)
  qed
qed

lemma parse_authority_text:
  assumes "CHR ''@'' \<notin> set i" "CHR ''@'' \<notin> set h" "u_userinfo u = []"
    and host: "\<And>u. u_port u = 0 \<Longrightarrow> parse_host (h @ pt) u = u\<lparr>u_host := h, u_port := p\<rparr>" and pt: "CHR ''@'' \<notin> set pt" and port: "u_port u = 0"
  shows "parse_authority ((if i \<noteq> [] then i @ ''@'' else []) @ h @ pt) u = u\<lparr>u_userinfo := i, u_host := h, u_port := p\<rparr>"
proof (cases "i = []")
  case True
  have "find_from (CHR ''@'') (h @ pt) 0 = None" using assms(2) pt by (simp add: find_from_None)
  then show ?thesis using True host [OF port] assms(3) by (simp add: parse_authority_def)
next
  case False
  have "find_from (CHR ''@'') (i @ CHR ''@'' # h @ pt) 0 = Some (length i)" by (rule find_from_split) (rule assms(1))
  then show ?thesis using False host [of "u\<lparr>u_userinfo := i\<rparr>"] port by (simp add: parse_authority_def)
qed

lemma url_parse_path_drop:
  assumes "drop pos raw = path @ rest" "path \<noteq> []" "hd path = CHR ''/''" "CHR ''?'' \<notin> set path" "CHR ''#'' \<notin> set path"
    "rest = [] \<or> hd rest \<in> {CHR ''?'', CHR ''#''}"
  shows "url_parse_path raw pos u = (u\<lparr>u_path := path\<rparr>, pos + length path)"
proof -
  obtain xs where x: "path = CHR ''/'' # xs" using assms(2,3) by (cases path) auto
  have at: "pos < length raw" "raw ! pos = CHR ''/''" using drop_Cons_at [of pos raw "CHR ''/''" "xs @ rest"] assms(1) x by auto
  have "takeWhile (\<lambda>x. x \<notin> {CHR ''?'', CHR ''#''}) (path @ rest) = path"
    by (rule takeWhile_stops) (use assms(4-6) in auto)
  then show ?thesis using at by (simp add: url_parse_path_def or_end_find_first_of assms(1))
qed

lemma parse_query_drop:
  assumes "drop pos raw = (if q \<noteq> [] then ''?'' @ q else []) @ rest" "CHR ''#'' \<notin> set q" "rest = [] \<or> hd rest = CHR ''#''" "u_query u = []"
  shows "parse_query_part raw pos u = (u\<lparr>u_query := q\<rparr>, pos + length (if q \<noteq> [] then ''?'' @ q else []))"
proof (cases "q = []")
  case True
  then have d: "drop pos raw = rest" using assms(1) by simp
  then have "\<not> (pos < length raw \<and> raw ! pos = CHR ''?'')"
    using assms(3) by (cases rest) (auto dest!: drop_Cons_at)
  then show ?thesis using True assms(4) by (auto simp: parse_query_part_def)
next
  case False
  have at: "pos < length raw" "raw ! pos = CHR ''?''" "drop (Suc pos) raw = q @ rest" using drop_Cons_at [of pos raw "CHR ''?''" "q @ rest"] assms(1) False by auto
  have "takeWhile (\<lambda>x. x \<noteq> CHR ''#'') (q @ rest) = q" by (rule takeWhile_stops) (use assms(2,3) in auto)
  then show ?thesis using False at by (simp add: parse_query_part_def Let_def or_end_find_from)
qed

lemma parse_fragment_drop:
  assumes "drop pos raw = (if f \<noteq> [] then ''#'' @ f else [])" "u_fragment u = []"
  shows "parse_fragment raw pos u = u\<lparr>u_fragment := f\<rparr>"
proof (cases "f = []")
  case True
  then show ?thesis using assms by (simp add: parse_fragment_def)
next
  case False
  then show ?thesis using drop_Cons_at [of pos raw "CHR ''#''" f] assms(1) by (simp add: parse_fragment_def)
qed

section \<open>Properties\<close>

text \<open>
  C39. Percent-encoding.  Every string of octets is decoded back from its encoding; the encoder writes at most three
  characters for one, which is the size of the buffer it allocates, and the decoder never writes more than it
  reads, which is the size of the buffer its callers provide.
\<close>

theorem uri_roundtrip:
  "uri_decode (uri_encode s) = s \<and> length (uri_encode s) \<le> 3 * length s \<and> length (decode_to s) \<le> length s"
  using uri_decode_encode encode_run_length decode_to_length by (simp add: uri_encode_def)

text \<open>
  Query strings.  The query text of a list of pairs, each key and value percent-encoded, is parsed to the map
  of these pairs, a later pair replacing an earlier one with its key.
\<close>

theorem query_roundtrip: "parse_query (query_text ps) = map_of (rev ps)"
  unfolding parse_query_def parse_query_text by simp

text \<open>URLs with a scheme and an absolute path, whose host is not an IPv6 literal.\<close>

definition url_ok :: "url \<Rightarrow> bool" where
  "url_ok u \<longleftrightarrow> u_scheme u \<noteq> [] \<and> CHR '':'' \<notin> set (u_scheme u) \<and> map c_tolower (u_scheme u) = u_scheme u \<and>
     set (u_userinfo u) \<inter> {CHR ''@'', CHR ''/''} = {} \<and> set (u_host u) \<inter> {CHR ''@'', CHR ''/'', CHR '':''} = {} \<and>
     (u_host u = [] \<or> hd (u_host u) \<noteq> CHR ''['') \<and>
     u_path u \<noteq> [] \<and> hd (u_path u) = CHR ''/'' \<and> set (u_path u) \<inter> {CHR ''?'', CHR ''#''} = {} \<and> CHR ''#'' \<notin> set (u_query u)"

lemma drop_past: "drop pos raw = xs @ ys \<Longrightarrow> drop (pos + length xs) raw = ys"
  by (metis add.commute append_eq_conv_conj drop_drop)

lemma url_parse_text:
  assumes "raw = s @ ''://'' @ au @ path @ (if q \<noteq> [] then ''?'' @ q else []) @ (if f \<noteq> [] then ''#'' @ f else [])"
    "CHR '':'' \<notin> set s" "map c_tolower s = s" "CHR ''/'' \<notin> set au"
    "path \<noteq> []" "hd path = CHR ''/''" "CHR ''?'' \<notin> set path" "CHR ''#'' \<notin> set path" "CHR ''#'' \<notin> set q"
    "parse_authority au (url_new\<lparr>u_scheme := s\<rparr>) = u" "u_query u = []" "u_fragment u = []"
  shows "url_parse raw = u\<lparr>u_path := path, u_query := q, u_fragment := f\<rparr>"
proof -
  define Q F where "Q = (if q \<noteq> [] then ''?'' @ q else [])" and "F = (if f \<noteq> [] then ''#'' @ f else [])"
  have raw: "raw = s @ ''://'' @ au @ path @ Q @ F" unfolding Q_def F_def by (rule assms(1))
  have F: "F = [] \<or> hd F = CHR ''#''" and QF: "Q @ F = [] \<or> hd (Q @ F) \<in> {CHR ''?'', CHR ''#''}" by (auto simp: Q_def F_def)
  let ?pos = "length s + 3" let ?e = "?pos + length au" let ?p = "?e + length path"
  have sch: "parse_scheme raw url_new = (url_new\<lparr>u_scheme := s\<rparr>, ?pos)"
    using find_text_scheme [OF assms(2), of "au @ path @ Q @ F"] assms(3) unfolding raw parse_scheme_def by simp
  have d0: "drop ?pos raw = au @ path @ Q @ F" unfolding raw by simp
  note d1 = drop_past [OF d0] note d2 = drop_past [OF d1] note d3 = drop_past [OF d2]
  obtain xs where x: "path = CHR ''/'' # xs" using assms(5,6) by (cases path) auto
  have "find_from (CHR ''/'') raw ?pos = Some ?e" using find_from_drop [OF d0 [unfolded x append_Cons] assms(4)] .
  then have e: "authority_end raw ?pos = ?e" by (simp only: authority_end_def option.case)
  have a: "substr raw ?pos (?e - ?pos) = au" unfolding d0 by simp
  note p = url_parse_path_drop [OF d1 assms(5-8) QF, of u]
  have qq: "parse_query_part raw ?p (u\<lparr>u_path := path\<rparr>) = (u\<lparr>u_path := path, u_query := q\<rparr>, ?p + length Q)"
    unfolding Q_def by (rule parse_query_drop [OF d2 [unfolded Q_def] assms(9) F]) (simp add: assms(11))
  have "parse_fragment raw (?p + length Q) (u\<lparr>u_path := path, u_query := q\<rparr>) = u\<lparr>u_path := path, u_query := q, u_fragment := f\<rparr>"
    by (rule parse_fragment_drop [OF d3 [unfolded F_def]]) (simp add: assms(12))
  then show ?thesis unfolding url_parse_def sch Let_def prod.case e a assms(10) p qq .
qed



text \<open>
  C40. A slash in the query of a URL without a path.  The authority is cut at the first slash of the whole text, so
  the question mark and the query up to the slash become part of the host name.
\<close>

theorem url_query_becomes_host:
  assumes "set h \<inter> {CHR ''@'', CHR ''/'', CHR '':''} = {}" "h \<noteq> []" "hd h \<noteq> CHR ''[''" "set q \<inter> {CHR ''@'', CHR ''/'', CHR '':''} = {}"
    "set r \<inter> {CHR ''?'', CHR ''#''} = {}"
  shows "url_parse (''http://'' @ h @ ''?'' @ q @ ''/'' @ r) = url_new\<lparr>u_scheme := ''http'', u_host := h @ ''?'' @ q, u_path := ''/'' @ r\<rparr>"
proof -
  let ?au = "h @ ''?'' @ q" and ?u = "url_new\<lparr>u_scheme := ''http''\<rparr>"
  have "parse_host (?au @ (if (0 :: u16) \<noteq> 0 then '':'' @ to_chars 10 (unat (0 :: u16)) else [])) ?u = ?u\<lparr>u_host := ?au, u_port := 0\<rparr>"
    by (rule parse_host_text) (use assms in \<open>auto simp: url_new_def\<close>)
  moreover have "find_from (CHR ''@'') ?au 0 = None" using assms(1,4) by (auto simp: find_from_None)
  ultimately have "parse_authority ?au ?u = ?u\<lparr>u_host := ?au\<rparr>" by (simp add: parse_authority_def url_new_def)
  note p = url_parse_text [of "''http://'' @ h @ ''?'' @ q @ ''/'' @ r" "''http''" ?au "''/'' @ r" "[]" "[]", OF _ _ _ _ _ _ _ _ _ this]
  have "map c_tolower ''http'' = ''http''" by code_simp
  with p show ?thesis using assms by (auto simp: url_new_def)
qed

theorem url_query_becomes_host_witness:
  "u_host (url_parse ''http://a.org?next=/home'') = ''a.org?next=''"
  using url_query_becomes_host [of "''a.org''" "''next=''" "''home''"] by (simp add: url_new_def)

end
