(* ===== verification/Spec2Isabelle.thy ===== *)
theory Spec2Isabelle
  imports Quic_ConnectionId Quic_Crypto_Stream Quic_End_To_End Router_Proofs Http1_Proofs WebSocket_Session_Proofs Http2_Session_Proofs Uri_Url
begin

text \<open>
  A verification development for WaveX, a C++23 framework for HTTP/1.1, HTTP/2, HTTP/3 and WebSocket servers with
  its own QUIC transport.

  \<^bold>\<open>The program.\<close>  A listener accepts TCP connections or QUIC packets.  On TCP, octets are parsed by the HTTP/1 codec, or by
  the HTTP/2 session with its HPACK tables, which runs one task per stream; on UDP, a QUIC connection turns datagrams
  into packets, frames and streams.  Requests go to the router, which matches the path against the registered patterns
  and runs the middleware chain; a handler answers, or takes the connection over as a WebSocket.  The model follows
  these layers.  Each theory names the files under \<^verbatim>\<open>src/\<close> that it models, and definitions keep the names of the functions
  (a prefix is added where two components use one name).

  \<^bold>\<open>Conventions.\<close>  Octets and unsigned integers whose wrap-around matters are words; \<^verbatim>\<open>std::size_t\<close> values that stay below the
  size of a buffer are natural numbers, and where a sum of them can wrap the model reduces it by hand.  A function that
  reports failure returns an option, a sum or a result type with the values of the source; output parameters are
  returned updated.  Coroutines and callbacks are cut at their suspension points: each piece between two of them is
  one operation on the state, and inductive relations let the operations of all parties interleave in any order.  Time,
  random numbers, cryptography, sockets and the application's handlers are arguments.  Loops are recursive functions with
  a termination proof; a loop that can run forever on some input is a \<open>partial_function (option)\<close> whose \<open>None\<close> is that it
  does not return (the chunk loops of HTTP/1, the loop over a header block of HPACK), and theorems say when it does
  return.  No definition uses fuel.

  \<^bold>\<open>Shared.\<close>  \<open>Wavex_Prelude\<close> has octets, big-endian numbers, slices and searches, and the locale \<open>cursor_codec\<close>: an
  encoder and a decoder that takes a buffer and a cursor.  It is interpreted by the variable-length integers, the
  length-prefixed strings, the connection identifiers of QUIC and the prefix integers of HPACK, whose clients reuse
  its lemmas.

  \<^bold>\<open>QUIC\<close> (\<^verbatim>\<open>src/src/Network/QUIC\<close>).
  \<^item> \<open>Quic_VarInt\<close>, \<open>Quic_ConnectionId\<close>, \<open>Quic_Packet\<close>, \<open>Quic_Frames\<close>: the wire formats of \<^verbatim>\<open>VarInt.cpp\<close>, \<^verbatim>\<open>ConnectionId.cpp\<close>,
    \<^verbatim>\<open>QuicPacket.cpp\<close> and \<^verbatim>\<open>QuicFrames.cpp\<close>, with their round trips.
  \<^item> \<open>Stream_Buffer\<close> (\<^verbatim>\<open>StreamBuffer.hpp\<close>): the buffer with a read offset implements the queue of octets of the locale
    \<open>byte_queue\<close>, which \<open>Quic_Stream\<close> uses.
  \<^item> \<open>Quic_Stream\<close> (\<^verbatim>\<open>QuicStream.cpp\<close>): receiving, reading, final sizes, shutdown.  Whatever the order, overlap and repetition of the
    frames, the reader gets the sender's octets in order, and a stream whose octets have all arrived is read to its end.
  \<^item> \<open>Quic_Congestion\<close>, \<open>Quic_Ack\<close>, \<open>Quic_Crypto_Stream\<close>: round-trip estimation and congestion window, received packet
    numbers and ACK frames, reassembly of CRYPTO frames.
  \<^item> \<open>Quic_Conn_Send\<close>, \<open>Quic_Conn_Recv\<close> (\<^verbatim>\<open>QuicConnection.cpp\<close>): the connection with its stream table, packet spaces, limits and
    send queues; packetising, coalescing, processing of packets and frames, loss detection, closing.  Packet
    protection is an argument.  \<open>Quic_Conn_Send_Proofs\<close> and \<open>Quic_Conn_Recv_Proofs\<close> show that limits, amplification and packet
    numbers are respected, that the data cut into frames is the data queued, that lost frames are queued again and that
    a peer's stream is dispatched once.
  \<^item> \<open>Quic_End_To_End\<close> composes both sides: octets queued on one connection reach the reader of the other in order.

  \<^bold>\<open>HTTP.\<close>
  \<^item> \<open>Flat_Map\<close> (\<^verbatim>\<open>FlatMap.hpp\<close>): the container of headers, against the locale \<open>kv_map\<close>, interpreted for exact and for
    case-insensitive keys.
  \<^item> \<open>Uri_Url\<close> (\<^verbatim>\<open>Uri.cpp\<close>, \<^verbatim>\<open>Url.cpp\<close>): percent-encoding, query strings and URLs.
  \<^item> \<open>Http1_Codec\<close>, \<open>Http1_Proofs\<close> (\<^verbatim>\<open>http1codec.hpp\<close>): parsing and printing of messages, chunked bodies.
  \<^item> \<open>Hpack\<close>, \<open>Hpack_Proofs\<close>, \<open>Http2_Codec\<close>, \<open>Http2_Proofs\<close> (\<^verbatim>\<open>http2codec.hpp\<close>, \<^verbatim>\<open>http2session.cpp\<close>): header compression, frames and
    messages of HTTP/2.  The dynamic table is shown to be the window of the newest entries that fit.
  \<^item> \<open>Http2_Session\<close>, \<open>Http2_Session_Inv\<close>, \<open>Http2_Run\<close>, \<open>Http2_Flow\<close>, \<open>Http2_Session_Proofs\<close> (\<^verbatim>\<open>http2session.hpp\<close>): the server's connection.
    The relation \<open>h2_run\<close> has every interleaving of reader, writer, tasks and handlers; in each of them a stream is served
    by one task, and what is sent stays within the windows and frame sizes of a ledger that is computed from the
    frames on the wire alone.
  \<^item> \<open>Router\<close>, \<open>Router_Proofs\<close> (\<^verbatim>\<open>Router.hpp\<close>, \<^verbatim>\<open>Router.cpp\<close>): registration, resolution and middleware.  A path is resolved exactly when
    a registered pattern matches it.
  \<^item> \<open>WebSocket_Codec\<close>, \<open>WebSocket_Proofs\<close>, \<open>WebSocket_Session\<close>, \<open>WebSocket_Session_Proofs\<close> (\<^verbatim>\<open>WebSocket.cpp\<close>): frames, UTF-8, handshake
    digests, and the session with its reader and writer.

  \<^bold>\<open>Not modelled.\<close>  The HTTP/3 codec with QPACK, its server and WebTransport; the request and response objects, which are
  builders over the codec structures and file I/O; multipart forms; the thread pool and its work-stealing queue, whose
  correctness rests on the C++ memory model; sockets, TLS, listeners, the server and the client, which are asynchronous
  I/O over Asio and OpenSSL; command line, logging, files and compression.  Allocators and the lifetime of views are
  not part of any model: a view is its text.  In the router and the QUIC connection some operations are left out; the
  manifest names them.
\<close>

end
